(* ===== verification/Bridge_Prelude.thy ===== *)
theory Bridge_Prelude
  imports Main "HOL-Library.Word" "HOL-Library.Monad_Syntax"
begin

text \<open>
  Shared vocabulary of the development: the machine integers of the firmware, the
  errno values its functions return, checked memory accesses, and the C string
  functions the sources call, together with the list, option and word lemmas that
  the component theories share.

  A C \<open>char\<close> and a \<open>uint8_t\<close> are both the type \<open>byte\<close>. A C object that is read
  through a pointer is a byte list, and \<open>rd\<close> reads it: a result \<open>None\<close> of a function
  built on \<open>rd\<close> says that the function left the object, which is undefined
  behaviour in C. The component theories prove that it never happens.
\<close>

unbundle bit_operations_syntax

section \<open>Machine integers and error codes\<close>

type_synonym byte = "8 word"
type_synonym u16 = "16 word"
type_synonym u32 = "32 word"
type_synonym u64 = "64 word"

text \<open>The sources return 0 for success and a negated errno otherwise; the values are
  those of the C library that Zephyr uses.\<close>

type_synonym rc = int

named_theorems errno_defs

definition ENOENT :: rc where [errno_defs]: "ENOENT = 2"
definition EINTR :: rc where [errno_defs]: "EINTR = 4"
definition EIO :: rc where [errno_defs]: "EIO = 5"
definition EAGAIN :: rc where [errno_defs]: "EAGAIN = 11"
definition EWOULDBLOCK :: rc where [errno_defs]: "EWOULDBLOCK = EAGAIN"
definition ENOMEM :: rc where [errno_defs]: "ENOMEM = 12"
definition ENODEV :: rc where [errno_defs]: "ENODEV = 19"
definition EINVAL :: rc where [errno_defs]: "EINVAL = 22"
definition EFBIG :: rc where [errno_defs]: "EFBIG = 27"
definition ENOMSG :: rc where [errno_defs]: "ENOMSG = 35"
definition ENAMETOOLONG :: rc where [errno_defs]: "ENAMETOOLONG = 91"
definition EALREADY :: rc where [errno_defs]: "EALREADY = 120"
definition EMSGSIZE :: rc where [errno_defs]: "EMSGSIZE = 122"
definition ENOTCONN :: rc where [errno_defs]: "ENOTCONN = 128"
definition ENOTSUP :: rc where [errno_defs]: "ENOTSUP = 134"
definition EOVERFLOW :: rc where [errno_defs]: "EOVERFLOW = 139"
definition ECANCELED :: rc where [errno_defs]: "ECANCELED = 140"

section \<open>Checked reads and C strings\<close>

definition rd :: "byte list \<Rightarrow> nat \<Rightarrow> byte option" where
  "rd buf i = (if i < length buf then Some (buf ! i) else None)"

abbreviation ch :: "char \<Rightarrow> byte" where
  "ch c \<equiv> of_char c"

definition bytes_of :: "string \<Rightarrow> byte list" where
  "bytes_of s = map of_char s"

text \<open>The string an array holds: its bytes before the first NUL.\<close>

definition cstr :: "byte list \<Rightarrow> byte list" where
  "cstr a = takeWhile (\<lambda>b. b \<noteq> 0) a"

text \<open>\<open>memchr(a, '\0', sizeof(a)) != NULL\<close>.\<close>

definition terminated :: "byte list \<Rightarrow> bool" where
  "terminated a \<longleftrightarrow> 0 \<in> set a"

function strlen_from :: "byte list \<Rightarrow> nat \<Rightarrow> nat \<Rightarrow> nat option" where
  "strlen_from buf i n =
     (case rd buf i of
        None \<Rightarrow> None
      | Some c \<Rightarrow> if c = 0 then Some n else strlen_from buf (Suc i) (Suc n))"
  by pat_completeness auto
termination
  by (relation "measure (\<lambda>(buf, i, n). length buf - i)") (auto simp: rd_def split: if_splits)

declare strlen_from.simps [simp del]

definition strlen :: "byte list \<Rightarrow> nat option" where
  "strlen buf = strlen_from buf 0 0"

text \<open>\<open>strncmp(&a[i], &b[j], n) == 0\<close>: at most \<open>n\<close> bytes, stopping at a NUL.\<close>

fun strncmp_eq :: "byte list \<Rightarrow> nat \<Rightarrow> byte list \<Rightarrow> nat \<Rightarrow> nat \<Rightarrow> bool option" where
  "strncmp_eq a i b j 0 = Some True"
| "strncmp_eq a i b j (Suc n) =
     do { x \<leftarrow> rd a i;
          y \<leftarrow> rd b j;
          if x \<noteq> y then Some False
          else if x = 0 then Some True
          else strncmp_eq a (Suc i) b (Suc j) n }"

section \<open>Shared lemmas\<close>

lemma rd_in [simp]: "i < length buf \<Longrightarrow> rd buf i = Some (buf ! i)"
  by (simp add: rd_def)

lemma rd_Some_iff: "rd buf i = Some c \<longleftrightarrow> i < length buf \<and> buf ! i = c"
  by (auto simp: rd_def)

lemma rd_out [simp]: "length buf \<le> i \<Longrightarrow> rd buf i = None"
  by (simp add: rd_def)

lemma length_bytes_of [simp]: "length (bytes_of s) = length s"
  by (simp add: bytes_of_def)

lemma cstr_Nil [simp]: "cstr [] = []"
  by (simp add: cstr_def)

lemma cstr_Cons: "cstr (b # a) = (if b = 0 then [] else b # cstr a)"
  by (simp add: cstr_def)

lemma cstr_no_nul: "0 \<notin> set (cstr a)"
  by (auto simp: cstr_def dest: set_takeWhileD)

lemma cstr_id [simp]: "0 \<notin> set s \<Longrightarrow> cstr s = s"
  by (auto simp: cstr_def takeWhile_eq_all_conv)

lemma cstr_append_nul [simp]: "0 \<notin> set s \<Longrightarrow> cstr (s @ 0 # t) = s"
  unfolding cstr_def by (subst takeWhile_append2) auto

lemma cstr_replicate [simp]: "cstr (replicate n 0) = []"
  by (cases n) (simp_all add: cstr_def)

lemma cstr_append_replicate [simp]: "0 \<notin> set s \<Longrightarrow> cstr (s @ replicate n 0) = s"
  by (cases n) simp_all

lemma length_cstr_le: "length (cstr a) \<le> length a"
  by (simp add: cstr_def length_takeWhile_le)

lemma length_cstr_less: "terminated a \<Longrightarrow> length (cstr a) < length a"
  unfolding terminated_def
  by (induction a) (auto simp: cstr_def)

lemma cstr_split_ex: "terminated a \<Longrightarrow> \<exists>t. a = cstr a @ 0 # t"
  unfolding terminated_def
  by (induction a) (auto simp: cstr_Cons)

lemma terminated_append_nul [simp]: "terminated (s @ 0 # t)"
  by (simp add: terminated_def)

lemma strlen_from_eq:
  "strlen_from buf i n =
     (if terminated (drop i buf) then Some (n + length (cstr (drop i buf))) else None)"
proof (induction buf i n rule: strlen_from.induct)
  case (1 buf i n)
  show ?case
  proof (cases "i < length buf")
    case True
    then have "drop i buf = buf ! i # drop (Suc i) buf"
      by (simp add: Cons_nth_drop_Suc)
    then show ?thesis
      using 1 True by (subst strlen_from.simps) (auto simp: terminated_def cstr_Cons)
  next
    case False
    then show ?thesis
      by (subst strlen_from.simps) (simp add: terminated_def)
  qed
qed

lemma strlen_eq: "strlen buf = (if terminated buf then Some (length (cstr buf)) else None)"
  by (simp add: strlen_def strlen_from_eq)

text \<open>Against a NUL-free prefix of the same length, \<open>strncmp\<close> is equality.\<close>

lemma strncmp_eq_exact:
  assumes "i + n \<le> length a" and "j + n \<le> length b" and "0 \<notin> set (take n (drop i a))"
  shows "strncmp_eq a i b j n = Some (take n (drop i a) = take n (drop j b))"
  using assms
proof (induction n arbitrary: i j)
  case (Suc n)
  have a: "drop i a = a ! i # drop (Suc i) a" and b: "drop j b = b ! j # drop (Suc j) b"
    using Suc.prems by (simp_all add: Cons_nth_drop_Suc)
  have "0 \<notin> set (take n (drop (Suc i) a))" "a ! i \<noteq> 0"
    using Suc.prems(3) by (auto simp: a)
  then show ?case
    using Suc.prems Suc.IH[of "Suc i" "Suc j"] by (simp add: a b)
qed simp

text \<open>Words as natural numbers.\<close>

lemma unat_less_len: "unat (w :: 'a::len word) < 2 ^ LENGTH('a)"
  by (fact unsigned_less)

lemma unat_byte_less: "unat (c :: byte) < 256"
  using unat_less_len[of c] by simp

lemma unat_of_nat_small: "n < 2 ^ LENGTH('a) \<Longrightarrow> unat (of_nat n :: 'a::len word) = n"
  by (simp add: unat_of_nat)

lemma unat_of_nat_u64: "n < 2 ^ 64 \<Longrightarrow> unat (of_nat n :: u64) = n"
  by (rule unat_of_nat_small) simp

lemma unat_of_nat_u32: "n < 2 ^ 32 \<Longrightarrow> unat (of_nat n :: u32) = n"
  by (rule unat_of_nat_small) simp

lemma unat_ucast_u16 [simp]: "unat (ucast (c :: byte) :: u16) = unat c"
  unfolding unsigned_ucast_eq
  by (simp, rule take_bit_nat_eq_self, rule order_less_trans[OF unat_byte_less]) simp

lemma word_of_nat_unat: "unat w = n \<Longrightarrow> w = of_nat n"
  by (metis of_nat_unat ucast_id)

lemma take_drop_nth:
  "i < n \<Longrightarrow> p + n \<le> length xs \<Longrightarrow> take n (drop p xs) ! i = xs ! (p + i)"
  by simp

section \<open>Memory blocks\<close>

text \<open>\<open>memcpy(&dst[off], &src[soff], n)\<close>; \<open>None\<close> when it leaves one of the two objects.\<close>

definition memcpy :: "byte list \<Rightarrow> nat \<Rightarrow> byte list \<Rightarrow> nat \<Rightarrow> nat \<Rightarrow> byte list option" where
  "memcpy dst off src soff n =
     (if off + n \<le> length dst \<and> soff + n \<le> length src
      then Some (take off dst @ take n (drop soff src) @ drop (off + n) dst) else None)"

text \<open>Native byte order, little endian on the targets.\<close>

definition le_bytes :: "nat \<Rightarrow> nat \<Rightarrow> byte list" where
  "le_bytes k n = map (\<lambda>i. of_nat (n div 256 ^ i)) [0..<k]"

definition le_value :: "byte list \<Rightarrow> nat" where
  "le_value bs = foldr (\<lambda>b n. unat b + 256 * n) bs 0"

text \<open>The string of an array, padded with NULs to a given size.\<close>

definition zpad :: "nat \<Rightarrow> byte list \<Rightarrow> byte list" where
  "zpad n a = cstr a @ replicate (n - length (cstr a)) 0"

lemma length_le_bytes [simp]: "length (le_bytes k n) = k"
  by (simp add: le_bytes_def)

lemma le_bytes_Suc: "le_bytes (Suc k) n = of_nat n # le_bytes k (n div 256)"
  unfolding le_bytes_def
  by (simp add: upt_rec[of 0] map_Suc_upt[symmetric] div_mult2_eq del: upt_Suc)

lemma le_value_bytes: "le_value (le_bytes k n) = n mod 256 ^ k"
proof (induction k arbitrary: n)
  case 0
  show ?case by (simp add: le_value_def le_bytes_def)
next
  case (Suc k)
  have "unat (of_nat n :: byte) = n mod 256" by (simp add: unat_of_nat take_bit_eq_mod)
  with Suc[of "n div 256"] show ?case
    by (simp add: le_value_def le_bytes_Suc mod_mult2_eq)
qed

lemma length_zpad: "length (cstr a) \<le> n \<Longrightarrow> length (zpad n a) = n"
  by (simp add: zpad_def)

lemma cstr_zpad [simp]: "cstr (zpad n a) = cstr a"
  by (simp add: zpad_def cstr_no_nul)

lemma terminated_zpad: "length (cstr a) < n \<Longrightarrow> terminated (zpad n a)"
  by (simp add: zpad_def terminated_def)

lemma take_zpad: "take (length (cstr a)) (zpad n a) = cstr a"
  by (simp add: zpad_def)

lemma take_cstr: "take (length (cstr a)) a = cstr a"
  unfolding cstr_def by (rule takeWhile_eq_take[symmetric])

text \<open>A string copied into a zeroed field.\<close>

lemma memcpy_field:
  assumes "off = length pre" and "length (cstr src) \<le> m"
  shows "memcpy (pre @ replicate m 0 @ post) off src 0 (length (cstr src)) = Some (pre @ zpad m src @ post)"
  using assms length_cstr_le[of src]
  by (simp add: memcpy_def zpad_def take_cstr)

text \<open>A field read back into a zeroed array.\<close>

lemma memcpy_read:
  assumes "rec = pre @ zpad m a @ post" and "off = length pre" and "length (cstr a) \<le> m" and "m \<le> n"
  shows "memcpy (replicate n 0) 0 rec off (length (cstr a)) = Some (zpad n a)"
proof -
  have "zpad n a = cstr a @ replicate (n - length (cstr a)) 0" by (simp add: zpad_def)
  then show ?thesis
    using assms by (simp add: memcpy_def take_zpad length_zpad)
qed

end
