(* ===== verification/C_Format.thy ===== *)
theory C_Format
  imports Bridge_Prelude
begin

text \<open>
  The formatted output of the C library that the sources use: decimal numbers and \<open>snprintk\<close> into an array of a
  given size, which cuts the text when it does not fit and returns the full length.
\<close>

fun nat_text :: "nat \<Rightarrow> byte list" where
  "nat_text n = (if n < 10 then [of_nat (48 + n)] else nat_text (n div 10) @ [of_nat (48 + n mod 10)])"

declare nat_text.simps [simp del]

definition int_text :: "int \<Rightarrow> byte list" where
  "int_text i = (if i < 0 then ch CHR ''-'' # nat_text (nat (- i)) else nat_text (nat i))"

text \<open>The array after \<open>snprintk(buf, size, ...)\<close>, when \<open>text\<close> is the formatted text, up to and including the NUL,
  and the return value.\<close>

definition snprintk :: "nat \<Rightarrow> byte list \<Rightarrow> byte list \<times> nat" where
  "snprintk sz text = ((if sz = 0 then [] else take (sz - 1) text @ [0]), length text)"

text \<open>The number a text of digits stands for.\<close>

definition nat_value :: "byte list \<Rightarrow> nat" where
  "nat_value ds = foldl (\<lambda>v d. v * 10 + (unat d - 48)) 0 ds"

lemma unat_digit: "n < 10 \<Longrightarrow> unat (of_nat (48 + n) :: byte) = 48 + n"
  by (rule unat_of_nat_small) simp

lemma nat_value_snoc: "nat_value (ds @ [d]) = nat_value ds * 10 + (unat d - 48)"
  by (simp add: nat_value_def)

lemma nat_value_text [simp]: "nat_value (nat_text n) = n"
proof (induction n rule: nat_text.induct)
  case (1 n)
  show ?case
  proof (cases "n < 10")
    case True
    then show ?thesis using unat_digit[OF True] by (subst nat_text.simps) (simp add: nat_value_def)
  next
    case False
    then show ?thesis using 1 unat_digit[of "n mod 10"] by (subst nat_text.simps) (simp add: nat_value_snoc)
  qed
qed

lemma digits_nat_text: "d \<in> set (nat_text n) \<Longrightarrow> 48 \<le> unat d \<and> unat d \<le> 57"
proof (induction n arbitrary: d rule: nat_text.induct)
  case (1 n)
  show ?case
  proof (cases "n < 10")
    case True
    then show ?thesis using 1(2) unat_digit[OF True] by (simp add: nat_text.simps[of n])
  next
    case False
    then show ?thesis
      using 1 unat_digit[of "n mod 10"] by (auto simp: nat_text.simps[of n])
  qed
qed

lemma nat_text_ne [simp]: "nat_text n \<noteq> []"
  by (subst nat_text.simps) simp

lemma nul_nat_text: "0 \<notin> set (nat_text n)"
  using digits_nat_text[of 0 n] by auto

lemma nul_int_text: "0 \<notin> set (int_text i)"
  using nul_nat_text by (auto simp: int_text_def)

text \<open>The length of a number.\<close>

lemma length_nat_text: "n < 10 ^ k \<Longrightarrow> 0 < k \<Longrightarrow> length (nat_text n) \<le> k"
proof (induction n arbitrary: k rule: nat_text.induct)
  case (1 n)
  show ?case
  proof (cases "n < 10")
    case True
    then show ?thesis using 1(3) by (simp add: nat_text.simps[of n])
  next
    case False
    obtain j where kj: "k = Suc j" using 1(3) by (cases k) auto
    have "0 < j" using 1(2) False kj by (cases j) auto
    note k = kj this
    have "n div 10 < 10 ^ j" using 1(2) k(1) by (simp add: less_mult_imp_div_less mult.commute)
    then show ?thesis using 1(1)[OF False _ k(2)] False k(1) by (simp add: nat_text.simps[of n])
  qed
qed

lemma length_snprintk: "0 < sz \<Longrightarrow> length (fst (snprintk sz text)) \<le> sz"
  by (simp add: snprintk_def)

lemma cstr_snprintk:
  assumes "0 < sz" and "0 \<notin> set text"
  shows "cstr (fst (snprintk sz text)) = take (sz - 1) text"
proof -
  have "0 \<notin> set (take (sz - 1) text)" using assms(2) by (meson in_set_takeD)
  then show ?thesis using assms(1) by (simp add: snprintk_def)
qed

end
