(* ===== verification/Kernel_Msgq.thy ===== *)
theory Kernel_Msgq
  imports Bridge_Prelude
begin

text \<open>
  The interface of Zephyr's message queue (\<open>k_msgq_init\<close>, \<open>k_msgq_put\<close>, \<open>k_msgq_get\<close>,
  \<open>k_msgq_purge\<close>), which the NMEA bridge calls and whose code is not part of the
  repository. The operations are a parameter of the model, the record \<open>msgq_ops\<close>; the
  locale \<open>msgq\<close> names what the kernel documents of them: a bounded first-in first-out
  queue of which \<open>view\<close> is the contents. A ring buffer, the shape of the kernel's own
  queue, is shown to satisfy the contract, so that the properties stated over the
  contract can be evaluated on a concrete queue.
\<close>

datatype k_timeout = K_NO_WAIT | K_MSEC nat | K_FOREVER

text \<open>\<open>mq_get\<close> gives the negative return value (\<open>Inl\<close>) or the message (\<open>Inr\<close>).\<close>

record ('q, 'm) msgq_ops =
  mq_init :: "nat \<Rightarrow> 'q"
  mq_put :: "'q \<Rightarrow> 'm \<Rightarrow> rc \<times> 'q"
  mq_get :: "'q \<Rightarrow> k_timeout \<Rightarrow> (rc + 'm) \<times> 'q"
  mq_purge :: "'q \<Rightarrow> 'q"

text \<open>The put is the one with \<open>K_NO_WAIT\<close>: the only one the sources make.\<close>

locale msgq =
  fixes ops :: "('q, 'm) msgq_ops"
    and view :: "'q \<Rightarrow> 'm list"
    and cap :: "'q \<Rightarrow> nat"
    and qinv :: "'q \<Rightarrow> bool"
  assumes init: "0 < n \<Longrightarrow> qinv (mq_init ops n) \<and> view (mq_init ops n) = [] \<and> cap (mq_init ops n) = n"
    and bound: "qinv q \<Longrightarrow> 0 < cap q \<and> length (view q) \<le> cap q"
    and put_ok: "qinv q \<Longrightarrow> length (view q) < cap q \<Longrightarrow>
      (\<exists>q'. mq_put ops q m = (0, q') \<and> qinv q' \<and> view q' = view q @ [m] \<and> cap q' = cap q)"
    and put_full: "qinv q \<Longrightarrow> length (view q) = cap q \<Longrightarrow> (\<exists>e. e \<noteq> 0 \<and> mq_put ops q m = (e, q))"
    and get_ok: "qinv q \<Longrightarrow> view q = m # ms \<Longrightarrow>
      (\<exists>q'. mq_get ops q t = (Inr m, q') \<and> qinv q' \<and> view q' = ms \<and> cap q' = cap q)"
    and get_empty: "qinv q \<Longrightarrow> view q = [] \<Longrightarrow>
      (\<exists>e. (e = - ENOMSG \<or> e = - EAGAIN) \<and> mq_get ops q t = (Inl e, q))"
    and purge: "qinv q \<Longrightarrow>
      qinv (mq_purge ops q) \<and> view (mq_purge ops q) = [] \<and> cap (mq_purge ops q) = cap q"

section \<open>A ring buffer\<close>

text \<open>\<open>ring_used\<close> messages starting at slot \<open>ring_read\<close>, wrapping around.\<close>

record 'm ring =
  ring_slots :: "'m option list"
  ring_read :: nat
  ring_used :: nat

definition ring_max :: "'m ring \<Rightarrow> nat" where
  "ring_max r = length (ring_slots r)"

definition ring_init :: "nat \<Rightarrow> 'm ring" where
  "ring_init n = \<lparr>ring_slots = replicate n None, ring_read = 0, ring_used = 0\<rparr>"

definition ring_put :: "'m ring \<Rightarrow> 'm \<Rightarrow> rc \<times> 'm ring" where
  "ring_put r m =
     (if ring_used r < ring_max r then
        (0, r\<lparr>ring_slots := (ring_slots r)[(ring_read r + ring_used r) mod ring_max r := Some m],
              ring_used := Suc (ring_used r)\<rparr>)
      else (- ENOMSG, r))"

definition ring_get :: "'m ring \<Rightarrow> k_timeout \<Rightarrow> (rc + 'm) \<times> 'm ring" where
  "ring_get r t =
     (if 0 < ring_used r then
        (case ring_slots r ! ring_read r of
           Some m \<Rightarrow> (Inr m, r\<lparr>ring_read := (ring_read r + 1) mod ring_max r,
                              ring_used := ring_used r - 1\<rparr>)
         | None \<Rightarrow> (Inl (- EIO), r))
      else (Inl (if t = K_NO_WAIT then - ENOMSG else - EAGAIN), r))"

definition ring_purge :: "'m ring \<Rightarrow> 'm ring" where
  "ring_purge r = r\<lparr>ring_read := (ring_read r + ring_used r) mod ring_max r, ring_used := 0\<rparr>"

definition ring_ops :: "('m ring, 'm) msgq_ops" where
  "ring_ops = \<lparr>mq_init = ring_init, mq_put = ring_put, mq_get = ring_get, mq_purge = ring_purge\<rparr>"

definition ring_slot :: "'m ring \<Rightarrow> nat \<Rightarrow> 'm option" where
  "ring_slot r k = ring_slots r ! ((ring_read r + k) mod ring_max r)"

definition ring_view :: "'m ring \<Rightarrow> 'm list" where
  "ring_view r = map (\<lambda>k. the (ring_slot r k)) [0..<ring_used r]"

definition ring_inv :: "'m ring \<Rightarrow> bool" where
  "ring_inv r \<longleftrightarrow> 0 < ring_max r \<and> ring_read r < ring_max r \<and> ring_used r \<le> ring_max r \<and>
     (\<forall>k < ring_used r. ring_slot r k \<noteq> None)"

lemma ring_ops_simps [simp]:
  "mq_init ring_ops = ring_init" "mq_put ring_ops = ring_put"
  "mq_get ring_ops = ring_get" "mq_purge ring_ops = ring_purge"
  by (simp_all add: ring_ops_def)

lemma length_ring_view [simp]: "length (ring_view r) = ring_used r"
  by (simp add: ring_view_def)

lemma ring_index_distinct:
  fixes a k l n :: nat
  assumes "k < l" and "l < n"
  shows "(a + k) mod n \<noteq> (a + l) mod n"
proof
  assume "(a + k) mod n = (a + l) mod n"
  then have "n dvd (a + l) - (a + k)"
    using assms by (intro mod_eq_dvd_iff_nat[THEN iffD1]) auto
  then show False using assms by (auto dest: dvd_imp_le)
qed

lemma ring_put_view:
  assumes "ring_inv r" and "ring_used r < ring_max r"
  shows "\<exists>r'. ring_put r m = (0, r') \<and> ring_inv r' \<and> ring_view r' = ring_view r @ [m] \<and>
    ring_max r' = ring_max r"
proof -
  let ?n = "ring_max r" and ?u = "ring_used r"
  let ?r = "r\<lparr>ring_slots := (ring_slots r)[(ring_read r + ?u) mod ?n := Some m], ring_used := Suc ?u\<rparr>"
  have n: "ring_max ?r = ?n" by (simp add: ring_max_def)
  have old: "ring_slot ?r k = ring_slot r k" if "k < ?u" for k
    using ring_index_distinct[OF that assms(2), of "ring_read r"] by (simp add: ring_slot_def n)
  have "(ring_read r + ?u) mod ?n < length (ring_slots r)"
    using assms by (simp add: ring_max_def ring_inv_def)
  then have new: "ring_slot ?r ?u = Some m"
    by (simp add: ring_slot_def n)
  have "ring_view ?r = ring_view r @ [m]"
    using old new by (simp add: ring_view_def)
  moreover have "ring_inv ?r"
    using assms old new by (auto simp: ring_inv_def n less_Suc_eq)
  ultimately show ?thesis
    using assms by (auto simp: ring_put_def n)
qed

lemma ring_get_view:
  assumes "ring_inv r" and "ring_view r = m # ms"
  shows "\<exists>r'. ring_get r t = (Inr m, r') \<and> ring_inv r' \<and> ring_view r' = ms \<and> ring_max r' = ring_max r"
proof -
  let ?r = "r\<lparr>ring_read := (ring_read r + 1) mod ring_max r, ring_used := ring_used r - 1\<rparr>"
  have u: "ring_used r = Suc (length ms)"
    using assms(2) length_ring_view[of r] by simp
  have n: "ring_max ?r = ring_max r" by (simp add: ring_max_def)
  have sl: "ring_slot ?r k = ring_slot r (Suc k)" for k
    by (simp add: ring_slot_def n mod_add_left_eq ring_max_def)
  have v: "ring_view r = the (ring_slot r 0) # ring_view ?r"
    unfolding ring_view_def sl by (simp add: u upt_rec[of 0] map_Suc_upt[symmetric] del: upt_Suc)
  have h: "ring_slots r ! ring_read r = Some m"
    using assms v u by (auto simp: ring_inv_def ring_slot_def)
  have "ring_inv ?r"
    using assms(1) u unfolding ring_inv_def n sl by auto
  then show ?thesis
    using h u v assms(2) n by (auto simp: ring_get_def)
qed

interpretation rq: msgq ring_ops ring_view ring_max ring_inv
proof unfold_locales
  fix n :: nat assume "0 < n"
  then show "ring_inv (mq_init ring_ops n) \<and> ring_view (mq_init ring_ops n) = [] \<and>
      ring_max (mq_init ring_ops n) = n"
    by (simp add: ring_init_def ring_inv_def ring_view_def ring_max_def)
next
  fix q :: "'a ring" and m assume "ring_inv q" and "length (ring_view q) < ring_max q"
  then show "\<exists>q'. mq_put ring_ops q m = (0, q') \<and> ring_inv q' \<and> ring_view q' = ring_view q @ [m] \<and>
      ring_max q' = ring_max q"
    using ring_put_view by simp
next
  fix q :: "'a ring" and m ms t assume "ring_inv q" and "ring_view q = m # ms"
  then show "\<exists>q'. mq_get ring_ops q t = (Inr m, q') \<and> ring_inv q' \<and> ring_view q' = ms \<and>
      ring_max q' = ring_max q"
    using ring_get_view by simp
next
  fix q :: "'a ring" and t assume "ring_inv q" and "ring_view q = []"
  then show "\<exists>e. (e = - ENOMSG \<or> e = - EAGAIN) \<and> mq_get ring_ops q t = (Inl e, q)"
    using length_ring_view[of q] by (simp add: ring_get_def)
qed (auto simp: ring_inv_def ring_put_def ring_purge_def ring_view_def ring_max_def errno_defs)

end
