(* ===== verification/Nmea_Bridge.thy ===== *)
theory Nmea_Bridge
  imports Kernel_Msgq "HOL-Library.Sublist"
begin

text \<open>
  The in-process NMEA bridge, \<open>src/src/nmea_bridge.c\<close>: an ingest queue that producers fill
  with \<open>nmea_bridge_publish_frame\<close>, a dispatcher thread that copies each ingested frame
  to every active sink, and sinks that sessions open, drain and close. All queues drop
  their oldest frame when they are full.

  The state is the record \<open>bridge\<close> over the kernel's queue type; the operations take the
  queue operations and the Kconfig values as arguments. The counters are 32-bit words
  that wrap around. Each operation is one atomic step, as the mutex \<open>sinks_lock\<close> makes
  it; \<open>Nmea_Bridge_Interleaving\<close> refines the queue accesses that are not under the mutex.
\<close>

section \<open>Translation\<close>

record nmea_cfg =
  frame_max_len :: nat
  ingest_queue_depth :: nat
  sink_queue_depth :: nat
  sinks_max :: nat

text \<open>The ranges of the Kconfig file.\<close>

definition cfg_ok :: "nmea_cfg \<Rightarrow> bool" where
  "cfg_ok cfg \<longleftrightarrow> 32 \<le> frame_max_len cfg \<and> frame_max_len cfg \<le> 512 \<and>
     2 \<le> ingest_queue_depth cfg \<and> ingest_queue_depth cfg \<le> 256 \<and>
     2 \<le> sink_queue_depth cfg \<and> sink_queue_depth cfg \<le> 128 \<and>
     1 \<le> sinks_max cfg \<and> sinks_max cfg \<le> 9"

text \<open>A frame: its length field and the bytes that were copied. The C array is longer; its
  bytes after \<open>len\<close> are never read.\<close>

record nmea_frame =
  flen :: u16
  fdata :: "byte list"

record nmea_bridge_stats =
  frames_in :: u32
  ingest_dropped_oldest :: u32
  sink_dropped_oldest :: u32
  publish_no_sinks :: u32
  publish_invalid :: u32
  publish_oversize :: u32

record nmea_sink_stats =
  queued :: u32
  dropped_oldest :: u32
  consumed :: u32

record nmea_bridge_sink =
  sink_id :: int

record 'q sink_slot =
  slot_active :: bool
  slot_name :: "string option"
  slot_msgq :: 'q
  slot_stats :: nmea_sink_stats

record 'q bridge =
  ingest_msgq :: 'q
  sinks :: "'q sink_slot list"
  bridge_stats :: nmea_bridge_stats

definition put_drop_oldest ::
  "('q, 'm) msgq_ops \<Rightarrow> 'q \<Rightarrow> 'm \<Rightarrow> u32 \<Rightarrow> 'q \<times> u32"
where
  "put_drop_oldest ops q frame drop_counter =
     (case mq_put ops q frame of (r, q1) \<Rightarrow>
        if r = 0 then (q1, drop_counter)
        else
          (case mq_get ops q1 K_NO_WAIT of (_, q2) \<Rightarrow>
            (let drop_counter = drop_counter + 1 in
             case mq_put ops q2 frame of (r, q3) \<Rightarrow>
               (q3, if r \<noteq> 0 then drop_counter + 1 else drop_counter))))"

text \<open>The loop of the dispatcher over the sinks: the slots, the counter
  \<open>bridge_stats.sink_dropped_oldest\<close> and the flag \<open>any\<close>.\<close>

fun dispatch_sinks ::
  "('q, nmea_frame) msgq_ops \<Rightarrow> nmea_frame \<Rightarrow> 'q sink_slot list \<Rightarrow> u32 \<Rightarrow> bool
    \<Rightarrow> 'q sink_slot list \<times> u32 \<times> bool"
where
  "dispatch_sinks ops frame [] total_dropped any = ([], total_dropped, any)"
| "dispatch_sinks ops frame (s # ss) total_dropped any =
     (if \<not> slot_active s then
        (case dispatch_sinks ops frame ss total_dropped any of (ss', d, a) \<Rightarrow> (s # ss', d, a))
      else
        (let before = dropped_oldest (slot_stats s) in
         case put_drop_oldest ops (slot_msgq s) frame before of (q, dropped) \<Rightarrow>
           (let total_dropped = (if dropped \<noteq> before then total_dropped + (dropped - before)
                                 else total_dropped);
                s' = s\<lparr>slot_msgq := q,
                       slot_stats := (slot_stats s)\<lparr>dropped_oldest := dropped,
                                       queued := queued (slot_stats s) + 1\<rparr>\<rparr>
            in case dispatch_sinks ops frame ss total_dropped True of (ss', d, a) \<Rightarrow>
                 (s' # ss', d, a))))"

text \<open>One round of the dispatcher loop; \<open>None\<close> while \<open>k_msgq_get\<close> blocks.\<close>

definition dispatcher_round ::
  "('q, nmea_frame) msgq_ops \<Rightarrow> 'q bridge \<Rightarrow> 'q bridge option"
where
  "dispatcher_round ops br =
     (case mq_get ops (ingest_msgq br) K_FOREVER of
        (Inl _, _) \<Rightarrow> None
      | (Inr frame, q) \<Rightarrow>
          (case dispatch_sinks ops frame (sinks br) (sink_dropped_oldest (bridge_stats br)) False of
             (ss, d, any) \<Rightarrow>
               (let st = (bridge_stats br)\<lparr>sink_dropped_oldest := d\<rparr>;
                    st = (if \<not> any then st\<lparr>publish_no_sinks := publish_no_sinks st + 1\<rparr> else st)
                in Some (br\<lparr>ingest_msgq := q, sinks := ss, bridge_stats := st\<rparr>))))"

definition zero_bridge_stats :: nmea_bridge_stats where
  "zero_bridge_stats = \<lparr>frames_in = 0, ingest_dropped_oldest = 0, sink_dropped_oldest = 0,
     publish_no_sinks = 0, publish_invalid = 0, publish_oversize = 0\<rparr>"

definition zero_sink_stats :: nmea_sink_stats where
  "zero_sink_stats = \<lparr>queued = 0, dropped_oldest = 0, consumed = 0\<rparr>"

text \<open>\<open>nmea_bridge_init\<close> on the zero-initialised statics; \<open>K_MSGQ_DEFINE\<close> has already set up
  the ingest queue.\<close>

definition nmea_bridge_init :: "nmea_cfg \<Rightarrow> ('q, nmea_frame) msgq_ops \<Rightarrow> 'q bridge" where
  "nmea_bridge_init cfg ops =
     \<lparr>ingest_msgq = mq_init ops (ingest_queue_depth cfg),
      sinks = replicate (sinks_max cfg)
        \<lparr>slot_active = False, slot_name = None, slot_msgq = mq_init ops (sink_queue_depth cfg),
         slot_stats = zero_sink_stats\<rparr>,
      bridge_stats = zero_bridge_stats\<rparr>"

text \<open>\<open>data\<close> is \<open>None\<close> for NULL and otherwise the readable bytes, at least \<open>len\<close> of them.\<close>

definition nmea_bridge_publish_frame ::
  "nmea_cfg \<Rightarrow> ('q, nmea_frame) msgq_ops \<Rightarrow> 'q bridge \<Rightarrow> byte list option \<Rightarrow> nat \<Rightarrow> rc \<times> 'q bridge"
where
  "nmea_bridge_publish_frame cfg ops br data len =
     (let st = bridge_stats br in
      if data = None \<or> len = 0 then
        (- EINVAL, br\<lparr>bridge_stats := st\<lparr>publish_invalid := publish_invalid st + 1\<rparr>\<rparr>)
      else if len > frame_max_len cfg then
        (- EMSGSIZE, br\<lparr>bridge_stats := st\<lparr>publish_oversize := publish_oversize st + 1\<rparr>\<rparr>)
      else
        (let n = of_nat len :: u16;
             frame = \<lparr>flen = n, fdata = take (unat n) (the data)\<rparr>;
             st = st\<lparr>frames_in := frames_in st + 1\<rparr>
         in case put_drop_oldest ops (ingest_msgq br) frame (ingest_dropped_oldest st) of
              (q, dropped) \<Rightarrow>
                (0, br\<lparr>ingest_msgq := q, bridge_stats := st\<lparr>ingest_dropped_oldest := dropped\<rparr>\<rparr>)))"

text \<open>The search of \<open>nmea_bridge_sink_open\<close> for the first inactive slot.\<close>

fun open_slot ::
  "('q, nmea_frame) msgq_ops \<Rightarrow> string option \<Rightarrow> 'q sink_slot list \<Rightarrow> int
    \<Rightarrow> (int \<times> 'q sink_slot list) option"
where
  "open_slot ops name [] i = None"
| "open_slot ops name (s # ss) i =
     (if \<not> slot_active s then
        Some (i, s\<lparr>slot_active := True, slot_name := name, slot_stats := zero_sink_stats,
                   slot_msgq := mq_purge ops (slot_msgq s)\<rparr> # ss)
      else map_option (\<lambda>(j, ss'). (j, s # ss')) (open_slot ops name ss (i + 1)))"

text \<open>The handle is an in-out argument; \<open>None\<close> is NULL.\<close>

definition nmea_bridge_sink_open ::
  "('q, nmea_frame) msgq_ops \<Rightarrow> 'q bridge \<Rightarrow> nmea_bridge_sink option \<Rightarrow> string option
    \<Rightarrow> rc \<times> 'q bridge \<times> nmea_bridge_sink option"
where
  "nmea_bridge_sink_open ops br sink name =
     (case sink of
        None \<Rightarrow> (- EINVAL, br, None)
      | Some _ \<Rightarrow>
          (case open_slot ops name (sinks br) 0 of
             Some (i, ss) \<Rightarrow> (0, br\<lparr>sinks := ss\<rparr>, Some \<lparr>sink_id = i\<rparr>)
           | None \<Rightarrow> (- ENOMEM, br, Some \<lparr>sink_id = -1\<rparr>)))"

definition valid_id :: "'q bridge \<Rightarrow> int \<Rightarrow> bool" where
  "valid_id br i \<longleftrightarrow> 0 \<le> i \<and> i < int (length (sinks br))"

definition nmea_bridge_sink_close ::
  "('q, nmea_frame) msgq_ops \<Rightarrow> 'q bridge \<Rightarrow> nmea_bridge_sink option
    \<Rightarrow> 'q bridge \<times> nmea_bridge_sink option"
where
  "nmea_bridge_sink_close ops br sink =
     (case sink of
        None \<Rightarrow> (br, None)
      | Some h \<Rightarrow>
          if \<not> valid_id br (sink_id h) then (br, sink)
          else
            (let i = nat (sink_id h); s = sinks br ! i in
             (br\<lparr>sinks := (sinks br)[i := s\<lparr>slot_active := False, slot_name := None,
                                            slot_msgq := mq_purge ops (slot_msgq s)\<rparr>]\<rparr>,
              Some (h\<lparr>sink_id := -1\<rparr>))))"

text \<open>The second argument says whether the caller passed a frame to fill.\<close>

definition nmea_bridge_sink_take ::
  "('q, nmea_frame) msgq_ops \<Rightarrow> 'q bridge \<Rightarrow> nmea_bridge_sink option \<Rightarrow> bool \<Rightarrow> k_timeout
    \<Rightarrow> (rc + nmea_frame) \<times> 'q bridge"
where
  "nmea_bridge_sink_take ops br sink has_frame timeout =
     (case sink of
        None \<Rightarrow> (Inl (- EINVAL), br)
      | Some h \<Rightarrow>
          if \<not> has_frame then (Inl (- EINVAL), br)
          else if sink_id h < 0 then (Inl (- ENOTCONN), br)
          else if sink_id h \<ge> int (length (sinks br)) then (Inl (- EINVAL), br)
          else
            (let i = nat (sink_id h); s = sinks br ! i in
             if \<not> slot_active s then (Inl (- ENOTCONN), br)
             else
               (case mq_get ops (slot_msgq s) timeout of
                  (Inl e, q) \<Rightarrow> (Inl e, br\<lparr>sinks := (sinks br)[i := s\<lparr>slot_msgq := q\<rparr>]\<rparr>)
                | (Inr frame, q) \<Rightarrow>
                    (Inr frame,
                     br\<lparr>sinks := (sinks br)[i := s\<lparr>slot_msgq := q,
                          slot_stats := (slot_stats s)\<lparr>consumed := consumed (slot_stats s) + 1\<rparr>\<rparr>]\<rparr>))))"

definition nmea_bridge_get_stats :: "'q bridge \<Rightarrow> nmea_bridge_stats" where
  "nmea_bridge_get_stats br = bridge_stats br"

text \<open>\<open>None\<close> when the C function returns without writing its output.\<close>

definition nmea_bridge_get_sink_stats ::
  "'q bridge \<Rightarrow> nmea_bridge_sink option \<Rightarrow> nmea_sink_stats option"
where
  "nmea_bridge_get_sink_stats br sink =
     (case sink of
        None \<Rightarrow> None
      | Some h \<Rightarrow>
          if \<not> valid_id br (sink_id h) then None
          else Some (slot_stats (sinks br ! nat (sink_id h))))"

section \<open>The specification of a lossy queue\<close>

definition lossy_append :: "nat \<Rightarrow> 'm list \<Rightarrow> 'm \<Rightarrow> 'm list" where
  "lossy_append n xs x = drop (Suc (length xs) - n) (xs @ [x])"

lemma lossy_append_room: "length xs < n \<Longrightarrow> lossy_append n xs x = xs @ [x]"
  by (simp add: lossy_append_def)

lemma lossy_append_full: "length xs = n \<Longrightarrow> 0 < n \<Longrightarrow> lossy_append n xs x = tl xs @ [x]"
  by (cases xs) (simp_all add: lossy_append_def)

lemma length_lossy_append:
  "length xs \<le> n \<Longrightarrow> 0 < n \<Longrightarrow> length (lossy_append n xs x) = min n (Suc (length xs))"
  by (auto simp: lossy_append_def min_def)

lemma set_lossy_append: "set (lossy_append n xs x) \<subseteq> insert x (set xs)"
  by (auto simp: lossy_append_def dest: in_set_dropD)

context msgq
begin

text \<open>With no other thread in between, the second put always succeeds.\<close>

lemma put_drop_oldest_view:
  assumes "qinv q"
  shows "\<exists>q'. put_drop_oldest ops q m c = (q', c + (if length (view q) = cap q then 1 else 0)) \<and>
    qinv q' \<and> cap q' = cap q \<and> view q' = lossy_append (cap q) (view q) m"
proof (cases "length (view q) = cap q")
  case False
  then have "length (view q) < cap q" using bound[OF assms] by simp
  with put_ok[OF assms this, of m] False show ?thesis
    by (auto simp: put_drop_oldest_def lossy_append_room)
next
  case True
  obtain e where e: "e \<noteq> 0" "mq_put ops q m = (e, q)" using put_full[OF assms True] by blast
  obtain x xs where x: "view q = x # xs" using bound[OF assms] True by (cases "view q") auto
  obtain q1 where q1: "mq_get ops q K_NO_WAIT = (Inr x, q1)" "qinv q1" "view q1 = xs" "cap q1 = cap q"
    using get_ok[OF assms x] by blast
  have "length (view q1) < cap q1" using q1 x True by simp
  from put_ok[OF q1(2) this, of m] obtain q2 where
    "mq_put ops q1 m = (0, q2)" "qinv q2" "view q2 = view q1 @ [m]" "cap q2 = cap q1" by blast
  moreover have "lossy_append (cap q) (view q) m = xs @ [m]"
    using lossy_append_full[OF True, of m] bound[OF assms] x by simp
  ultimately show ?thesis
    using e q1 True by (auto simp: put_drop_oldest_def Let_def)
qed

end

section \<open>The invariant\<close>

definition frame_ok :: "nmea_cfg \<Rightarrow> nmea_frame \<Rightarrow> bool" where
  "frame_ok cfg f \<longleftrightarrow> length (fdata f) = unat (flen f) \<and> 0 < length (fdata f) \<and>
     length (fdata f) \<le> frame_max_len cfg"

text \<open>Every sink queue accounts for every frame it was given: queued frames are consumed,
  dropped or still there (modulo 2 ^ 32, as the counters wrap).\<close>

definition slot_ok ::
  "nmea_cfg \<Rightarrow> ('q \<Rightarrow> nmea_frame list) \<Rightarrow> ('q \<Rightarrow> nat) \<Rightarrow> ('q \<Rightarrow> bool) \<Rightarrow> 'q sink_slot \<Rightarrow> bool"
where
  "slot_ok cfg view cap qinv s \<longleftrightarrow>
     qinv (slot_msgq s) \<and> cap (slot_msgq s) = sink_queue_depth cfg \<and>
     list_all (frame_ok cfg) (view (slot_msgq s)) \<and>
     (if slot_active s
      then queued (slot_stats s) =
             consumed (slot_stats s) + dropped_oldest (slot_stats s) + of_nat (length (view (slot_msgq s)))
      else view (slot_msgq s) = [])"

definition bridge_ok ::
  "nmea_cfg \<Rightarrow> ('q \<Rightarrow> nmea_frame list) \<Rightarrow> ('q \<Rightarrow> nat) \<Rightarrow> ('q \<Rightarrow> bool) \<Rightarrow> 'q bridge \<Rightarrow> bool"
where
  "bridge_ok cfg view cap qinv br \<longleftrightarrow>
     qinv (ingest_msgq br) \<and> cap (ingest_msgq br) = ingest_queue_depth cfg \<and>
     list_all (frame_ok cfg) (view (ingest_msgq br)) \<and>
     length (sinks br) = sinks_max cfg \<and> list_all (slot_ok cfg view cap qinv) (sinks br)"

text \<open>What the dispatcher does to one slot, and by how much it raises the counter.\<close>

definition slot_delivered ::
  "('q \<Rightarrow> nmea_frame list) \<Rightarrow> ('q \<Rightarrow> nat) \<Rightarrow> nmea_frame \<Rightarrow> 'q sink_slot \<Rightarrow> 'q sink_slot \<Rightarrow> bool"
where
  "slot_delivered view cap frame s s' \<longleftrightarrow>
     slot_active s' = slot_active s \<and> slot_name s' = slot_name s \<and>
     (if slot_active s
      then view (slot_msgq s') = lossy_append (cap (slot_msgq s)) (view (slot_msgq s)) frame \<and>
        queued (slot_stats s') = queued (slot_stats s) + 1 \<and>
        consumed (slot_stats s') = consumed (slot_stats s) \<and>
        dropped_oldest (slot_stats s') = dropped_oldest (slot_stats s) +
          (if length (view (slot_msgq s)) = cap (slot_msgq s) then 1 else 0)
      else s' = s)"

definition overflows :: "('q \<Rightarrow> nmea_frame list) \<Rightarrow> ('q \<Rightarrow> nat) \<Rightarrow> 'q sink_slot \<Rightarrow> bool" where
  "overflows view cap s \<longleftrightarrow> slot_active s \<and> length (view (slot_msgq s)) = cap (slot_msgq s)"

locale frame_msgq = msgq ops view cap qinv
  for ops :: "('q, nmea_frame) msgq_ops"
    and view :: "'q \<Rightarrow> nmea_frame list"
    and cap :: "'q \<Rightarrow> nat"
    and qinv :: "'q \<Rightarrow> bool"
begin

lemma dispatch_sinks_view:
  assumes "\<forall>s\<in>set ss. qinv (slot_msgq s)"
  shows "\<exists>ss'. dispatch_sinks ops frame ss d a =
      (ss', d + of_nat (length (filter (overflows view cap) ss)), a \<or> (\<exists>s\<in>set ss. slot_active s)) \<and>
    list_all2 (slot_delivered view cap frame) ss ss' \<and>
    list_all2 (\<lambda>s s'. qinv (slot_msgq s') \<and> cap (slot_msgq s') = cap (slot_msgq s)) ss ss'"
  using assms
proof (induction ss arbitrary: d a)
  case (Cons s ss)
  show ?case
  proof (cases "slot_active s")
    case True
    let ?full = "length (view (slot_msgq s)) = cap (slot_msgq s)"
    obtain q where q: "put_drop_oldest ops (slot_msgq s) frame (dropped_oldest (slot_stats s)) =
          (q, dropped_oldest (slot_stats s) + (if ?full then 1 else 0))"
        "qinv q" "cap q = cap (slot_msgq s)" "view q = lossy_append (cap (slot_msgq s)) (view (slot_msgq s)) frame"
      using put_drop_oldest_view[of "slot_msgq s"] Cons.prems by fastforce
    obtain ss' where ss': "dispatch_sinks ops frame ss (d + (if ?full then 1 else 0)) True =
          (ss', d + (if ?full then 1 else 0) + of_nat (length (filter (overflows view cap) ss)), True)"
        "list_all2 (slot_delivered view cap frame) ss ss'"
        "list_all2 (\<lambda>s s'. qinv (slot_msgq s') \<and> cap (slot_msgq s') = cap (slot_msgq s)) ss ss'"
      using Cons.IH[of "d + (if ?full then 1 else 0)" True] Cons.prems by auto
    let ?s = "s\<lparr>slot_msgq := q, slot_stats := (slot_stats s)
      \<lparr>dropped_oldest := dropped_oldest (slot_stats s) + (if ?full then 1 else 0),
       queued := queued (slot_stats s) + 1\<rparr>\<rparr>"
    have "slot_delivered view cap frame s ?s"
      using True q by (simp add: slot_delivered_def)
    moreover have "dispatch_sinks ops frame (s # ss) d a =
        (?s # ss', d + of_nat (length (filter (overflows view cap) (s # ss))), True)"
      using True q(1) ss'(1) by (cases ?full) (simp_all add: Let_def overflows_def add.assoc)
    ultimately show ?thesis
      using True q ss' by auto
  next
    case False
    then have "slot_delivered view cap frame s s" and "\<not> overflows view cap s"
      by (simp_all add: slot_delivered_def overflows_def)
    then show ?thesis
      using False Cons.IH[of d a] Cons.prems by auto
  qed
qed simp

lemma slot_delivered_ok:
  assumes "slot_ok cfg view cap qinv s" and "slot_delivered view cap frame s s'" and "frame_ok cfg frame"
    and "qinv (slot_msgq s')" and "cap (slot_msgq s') = cap (slot_msgq s)"
  shows "slot_ok cfg view cap qinv s'"
proof (cases "slot_active s")
  case True
  let ?xs = "view (slot_msgq s)"
  have "length (lossy_append (cap (slot_msgq s)) ?xs frame) =
      (if length ?xs = cap (slot_msgq s) then length ?xs else Suc (length ?xs))"
    using assms(1) bound[of "slot_msgq s"] by (auto simp: slot_ok_def length_lossy_append)
  then show ?thesis
    using assms True set_lossy_append[of "cap (slot_msgq s)" ?xs frame]
    by (auto simp: slot_ok_def slot_delivered_def list_all_iff)
next
  case False
  then show ?thesis using assms by (simp add: slot_delivered_def)
qed

lemma publish_ok:
  assumes "bridge_ok cfg view cap qinv br" and "cfg_ok cfg"
    and "\<And>bytes. data = Some bytes \<Longrightarrow> len \<le> length bytes"
  shows "bridge_ok cfg view cap qinv (snd (nmea_bridge_publish_frame cfg ops br data len))"
proof (cases "data = None \<or> len = 0 \<or> len > frame_max_len cfg")
  case True
  then show ?thesis
    using assms(1) by (auto simp: nmea_bridge_publish_frame_def Let_def bridge_ok_def)
next
  case False
  let ?f = "\<lparr>flen = of_nat len, fdata = take (unat (of_nat len :: u16)) (the data)\<rparr>"
  have "unat (of_nat len :: u16) = len"
    using False assms(2) by (intro unat_of_nat_small) (auto simp: cfg_ok_def)
  then have f: "frame_ok cfg ?f"
    using False assms(3) by (auto simp: frame_ok_def)
  obtain q where "put_drop_oldest ops (ingest_msgq br) ?f (ingest_dropped_oldest (bridge_stats br)) =
        (q, ingest_dropped_oldest (bridge_stats br) +
          (if length (view (ingest_msgq br)) = cap (ingest_msgq br) then 1 else 0))"
      "qinv q" "cap q = cap (ingest_msgq br)" "view q = lossy_append (cap (ingest_msgq br)) (view (ingest_msgq br)) ?f"
    using put_drop_oldest_view[of "ingest_msgq br"] assms(1) by (fastforce simp: bridge_ok_def)
  then show ?thesis
    using False assms(1) f set_lossy_append[of "cap (ingest_msgq br)" "view (ingest_msgq br)" ?f]
    by (auto simp: nmea_bridge_publish_frame_def Let_def bridge_ok_def list_all_iff)
qed

lemma dispatcher_round_view:
  assumes "bridge_ok cfg view cap qinv br" and "view (ingest_msgq br) = frame # rest"
  shows "\<exists>br'. dispatcher_round ops br = Some br' \<and> view (ingest_msgq br') = rest \<and>
    qinv (ingest_msgq br') \<and> cap (ingest_msgq br') = cap (ingest_msgq br) \<and>
    list_all2 (slot_delivered view cap frame) (sinks br) (sinks br') \<and>
    list_all2 (\<lambda>s s'. qinv (slot_msgq s') \<and> cap (slot_msgq s') = cap (slot_msgq s)) (sinks br) (sinks br') \<and>
    bridge_stats br' = (bridge_stats br)
      \<lparr>sink_dropped_oldest := sink_dropped_oldest (bridge_stats br) +
          of_nat (length (filter (overflows view cap) (sinks br))),
       publish_no_sinks := publish_no_sinks (bridge_stats br) +
          (if \<exists>s\<in>set (sinks br). slot_active s then 0 else 1)\<rparr>"
proof -
  obtain q where q: "mq_get ops (ingest_msgq br) K_FOREVER = (Inr frame, q)" "qinv q" "view q = rest"
      "cap q = cap (ingest_msgq br)"
    using get_ok[OF _ assms(2)] assms(1) by (auto simp: bridge_ok_def)
  have "\<forall>s\<in>set (sinks br). qinv (slot_msgq s)"
    using assms(1) by (auto simp: bridge_ok_def list_all_iff slot_ok_def)
  from dispatch_sinks_view[OF this, of frame "sink_dropped_oldest (bridge_stats br)" False] q show ?thesis
    by (auto simp: dispatcher_round_def Let_def)
qed

lemma dispatcher_round_ok:
  assumes "bridge_ok cfg view cap qinv br" and "dispatcher_round ops br = Some br'"
  shows "bridge_ok cfg view cap qinv br'"
proof (cases "view (ingest_msgq br)")
  case Nil
  then show ?thesis
    using assms get_empty[of "ingest_msgq br" K_FOREVER] by (auto simp: bridge_ok_def dispatcher_round_def)
next
  case (Cons frame rest)
  obtain br'' where v: "dispatcher_round ops br = Some br''" "view (ingest_msgq br'') = rest"
      "qinv (ingest_msgq br'')" "cap (ingest_msgq br'') = cap (ingest_msgq br)"
      "list_all2 (slot_delivered view cap frame) (sinks br) (sinks br'')"
      "list_all2 (\<lambda>s s'. qinv (slot_msgq s') \<and> cap (slot_msgq s') = cap (slot_msgq s)) (sinks br) (sinks br'')"
    using dispatcher_round_view[OF assms(1) Cons] by blast
  have "frame_ok cfg frame" using assms(1) Cons by (simp add: bridge_ok_def)
  then have "list_all (slot_ok cfg view cap qinv) (sinks br'')"
    using v(5,6) assms(1) slot_delivered_ok
    by (fastforce simp: list_all2_conv_all_nth list_all_length bridge_ok_def)
  then show ?thesis
    using assms v Cons by (auto simp: bridge_ok_def list_all2_lengthD)
qed

end

context frame_msgq
begin

lemma init_ok:
  assumes "cfg_ok cfg"
  shows "bridge_ok cfg view cap qinv (nmea_bridge_init cfg ops)"
  using init[of "ingest_queue_depth cfg"] init[of "sink_queue_depth cfg"] assms
  by (auto simp: bridge_ok_def slot_ok_def nmea_bridge_init_def cfg_ok_def list_all_iff)

lemma slot_ok_purged:
  assumes "slot_ok cfg view cap qinv s"
  shows "slot_ok cfg view cap qinv (s\<lparr>slot_active := True, slot_name := name,
      slot_stats := zero_sink_stats, slot_msgq := mq_purge ops (slot_msgq s)\<rparr>)"
    and "slot_ok cfg view cap qinv (s\<lparr>slot_active := False, slot_name := None,
      slot_msgq := mq_purge ops (slot_msgq s)\<rparr>)"
  using assms purge[of "slot_msgq s"] by (auto simp: slot_ok_def zero_sink_stats_def)

lemma open_slot_ok:
  assumes "list_all (slot_ok cfg view cap qinv) ss" and "open_slot ops name ss i = Some (j, ss')"
  shows "list_all (slot_ok cfg view cap qinv) ss'"
  using assms
proof (induction ss arbitrary: i ss')
  case (Cons s ss)
  then show ?case
    by (auto simp: slot_ok_purged split: if_splits)
qed simp

lemma slot_ok_nth:
  "bridge_ok cfg view cap qinv br \<Longrightarrow> valid_id br i \<Longrightarrow> slot_ok cfg view cap qinv (sinks br ! nat i)"
  by (auto simp: bridge_ok_def valid_id_def list_all_length)

lemma bridge_ok_update:
  "bridge_ok cfg view cap qinv br \<Longrightarrow> slot_ok cfg view cap qinv s \<Longrightarrow>
   bridge_ok cfg view cap qinv (br\<lparr>sinks := (sinks br)[i := s]\<rparr>)"
  by (auto simp: bridge_ok_def list_all_iff dest!: set_update_subset_insert[THEN subsetD])

lemma sink_close_ok:
  assumes "bridge_ok cfg view cap qinv br"
  shows "bridge_ok cfg view cap qinv (fst (nmea_bridge_sink_close ops br h))"
proof (cases h)
  case (Some h')
  show ?thesis
  proof (cases "valid_id br (sink_id h')")
    case True
    from bridge_ok_update[OF assms slot_ok_purged(2)[OF slot_ok_nth[OF assms True]]] True Some
    show ?thesis
      by (simp add: nmea_bridge_sink_close_def Let_def)
  qed (use assms Some in \<open>simp add: nmea_bridge_sink_close_def\<close>)
qed (use assms in \<open>simp add: nmea_bridge_sink_close_def\<close>)

text \<open>The branches of a take on an open sink.\<close>

lemma sink_take_open:
  assumes "bridge_ok cfg view cap qinv br" and "valid_id br (sink_id h)"
    and "s = sinks br ! nat (sink_id h)" and "slot_active s"
  shows "case view (slot_msgq s) of
      [] \<Rightarrow> (\<exists>e. (e = - ENOMSG \<or> e = - EAGAIN) \<and>
          nmea_bridge_sink_take ops br (Some h) True t = (Inl e, br))
    | m # ms \<Rightarrow> (\<exists>q. nmea_bridge_sink_take ops br (Some h) True t = (Inr m,
          br\<lparr>sinks := (sinks br)[nat (sink_id h) := s\<lparr>slot_msgq := q,
            slot_stats := (slot_stats s)\<lparr>consumed := consumed (slot_stats s) + 1\<rparr>\<rparr>]\<rparr>) \<and>
          qinv q \<and> view q = ms \<and> cap q = cap (slot_msgq s))"
proof (cases "view (slot_msgq s)")
  case Nil
  have "slot_ok cfg view cap qinv s" using slot_ok_nth[OF assms(1,2)] assms(3) by simp
  then obtain e where e: "e = - ENOMSG \<or> e = - EAGAIN" "mq_get ops (slot_msgq s) t = (Inl e, slot_msgq s)"
    using get_empty[OF _ Nil, of t] by (auto simp: slot_ok_def)
  have "(sinks br)[nat (sink_id h) := s] = sinks br" "s\<lparr>slot_msgq := slot_msgq s\<rparr> = s"
    using assms(3) by (auto intro: list_update_id)
  with Nil e assms show ?thesis
    by (auto simp: nmea_bridge_sink_take_def Let_def valid_id_def)
next
  case (Cons m ms)
  have "slot_ok cfg view cap qinv s" using slot_ok_nth[OF assms(1,2)] assms(3) by simp
  then obtain q where q: "mq_get ops (slot_msgq s) t = (Inr m, q)" "qinv q" "view q = ms"
      "cap q = cap (slot_msgq s)"
    using get_ok[OF _ Cons, of t] by (auto simp: slot_ok_def)
  with Cons assms show ?thesis
    by (auto simp: nmea_bridge_sink_take_def Let_def valid_id_def)
qed

lemma sink_take_closed:
  assumes "\<not> (\<exists>h'. h = Some h' \<and> hf \<and> valid_id br (sink_id h') \<and> slot_active (sinks br ! nat (sink_id h')))"
  shows "\<exists>e. nmea_bridge_sink_take ops br h hf t = (Inl e, br) \<and> e \<noteq> 0"
  using assms by (auto simp: nmea_bridge_sink_take_def Let_def valid_id_def errno_defs split: option.splits)

lemma sink_take_ok:
  assumes "bridge_ok cfg view cap qinv br"
  shows "bridge_ok cfg view cap qinv (snd (nmea_bridge_sink_take ops br h hf t))"
proof (cases "\<exists>h'. h = Some h' \<and> hf \<and> valid_id br (sink_id h') \<and> slot_active (sinks br ! nat (sink_id h'))")
  case True
  then obtain h' where h: "h = Some h'" "hf" "valid_id br (sink_id h')" by blast
  define s where "s = sinks br ! nat (sink_id h')"
  have act: "slot_active s" using True h s_def by simp
  show ?thesis
  proof (cases "view (slot_msgq s)")
    case Nil
    then show ?thesis using sink_take_open[OF assms h(3) s_def act, of t] assms h by auto
  next
    case (Cons m ms)
    have ok: "slot_ok cfg view cap qinv s" using slot_ok_nth[OF assms h(3)] s_def by simp
    obtain q where q: "nmea_bridge_sink_take ops br h hf t = (Inr m,
          br\<lparr>sinks := (sinks br)[nat (sink_id h') := s\<lparr>slot_msgq := q,
            slot_stats := (slot_stats s)\<lparr>consumed := consumed (slot_stats s) + 1\<rparr>\<rparr>]\<rparr>)"
        "qinv q" "view q = ms" "cap q = cap (slot_msgq s)"
      using sink_take_open[OF assms h(3) s_def act, of t] Cons h by auto
    have "slot_ok cfg view cap qinv (s\<lparr>slot_msgq := q,
            slot_stats := (slot_stats s)\<lparr>consumed := consumed (slot_stats s) + 1\<rparr>\<rparr>)"
      using ok act Cons q by (simp add: slot_ok_def)
    from bridge_ok_update[OF assms this] q show ?thesis by simp
  qed
next
  case False
  from sink_take_closed[OF this, of t] assms show ?thesis by auto
qed

lemma sink_open_ok:
  assumes "bridge_ok cfg view cap qinv br"
  shows "bridge_ok cfg view cap qinv (fst (snd (nmea_bridge_sink_open ops br h name)))"
proof -
  have "length ss' = length ss" if "open_slot ops name ss i = Some (j, ss')" for ss ss' i j
    using that by (induction ss arbitrary: i ss') (auto split: if_splits)
  with open_slot_ok[of cfg "sinks br" name 0] assms show ?thesis
    by (auto simp: nmea_bridge_sink_open_def bridge_ok_def split: option.splits)
qed

end

end
