(* ===== verification/Nmea_Bridge_Properties.thy ===== *)
theory Nmea_Bridge_Properties
  imports Nmea_Bridge
begin

text \<open>
  Correctness of the NMEA bridge over sequences of calls. An event is one call into the
  bridge or one round of its dispatcher; \<open>bridge_event\<close> runs it and records, beside the
  bridge, which frames were accepted and what each slot delivered since it was opened.
  The properties are stated for every message queue that satisfies the kernel's
  contract; their witnesses run them on the ring buffer.
\<close>

section \<open>Runs\<close>

datatype bridge_call =
    Publish "byte list option" nat
  | Dispatch
  | SinkOpen "nmea_bridge_sink option" "string option"
  | SinkClose "nmea_bridge_sink option"
  | SinkTake "nmea_bridge_sink option" bool k_timeout

text \<open>The caller of \<open>nmea_bridge_publish_frame\<close> passes as many bytes as it says.\<close>

fun call_ok :: "bridge_call \<Rightarrow> bool" where
  "call_ok (Publish (Some bytes) len) = (len \<le> length bytes)"
| "call_ok _ = True"

record 'q traced =
  tr_bridge :: "'q bridge"
  tr_published :: "nmea_frame list"
  tr_taken :: "nmea_frame list list"

definition traced_init :: "nmea_cfg \<Rightarrow> ('q, nmea_frame) msgq_ops \<Rightarrow> 'q traced" where
  "traced_init cfg ops = \<lparr>tr_bridge = nmea_bridge_init cfg ops, tr_published = [],
     tr_taken = replicate (sinks_max cfg) []\<rparr>"

fun bridge_event ::
  "nmea_cfg \<Rightarrow> ('q, nmea_frame) msgq_ops \<Rightarrow> bridge_call \<Rightarrow> 'q traced \<Rightarrow> 'q traced"
where
  "bridge_event cfg ops (Publish data len) t =
     (case nmea_bridge_publish_frame cfg ops (tr_bridge t) data len of (r, br) \<Rightarrow>
        t\<lparr>tr_bridge := br,
          tr_published := tr_published t @
            (if r = 0 then [\<lparr>flen = of_nat len, fdata = take len (the data)\<rparr>] else [])\<rparr>)"
| "bridge_event cfg ops Dispatch t =
     (case dispatcher_round ops (tr_bridge t) of
        None \<Rightarrow> t
      | Some br \<Rightarrow> t\<lparr>tr_bridge := br\<rparr>)"
| "bridge_event cfg ops (SinkOpen h name) t =
     (case nmea_bridge_sink_open ops (tr_bridge t) h name of (r, br, h') \<Rightarrow>
        t\<lparr>tr_bridge := br,
          tr_taken := (if r = 0 then (tr_taken t)[nat (sink_id (the h')) := []] else tr_taken t)\<rparr>)"
| "bridge_event cfg ops (SinkClose h) t =
     t\<lparr>tr_bridge := fst (nmea_bridge_sink_close ops (tr_bridge t) h)\<rparr>"
| "bridge_event cfg ops (SinkTake h has_frame timeout) t =
     (case nmea_bridge_sink_take ops (tr_bridge t) h has_frame timeout of
        (Inl _, br) \<Rightarrow> t\<lparr>tr_bridge := br\<rparr>
      | (Inr f, br) \<Rightarrow>
          (let i = nat (sink_id (the h)) in
           t\<lparr>tr_bridge := br, tr_taken := (tr_taken t)[i := tr_taken t ! i @ [f]]\<rparr>))"

definition run_calls ::
  "nmea_cfg \<Rightarrow> ('q, nmea_frame) msgq_ops \<Rightarrow> bridge_call list \<Rightarrow> 'q traced \<Rightarrow> 'q traced"
where
  "run_calls cfg ops evs t = foldl (\<lambda>t ev. bridge_event cfg ops ev t) t evs"

text \<open>In order, without duplicates and unaltered: what a slot delivered, then what waits in
  its queue, then what waits to be dispatched, is a subsequence of what was published.\<close>

definition in_order :: "('q \<Rightarrow> nmea_frame list) \<Rightarrow> 'q traced \<Rightarrow> bool" where
  "in_order view t \<longleftrightarrow>
     (let br = tr_bridge t in
      subseq (view (ingest_msgq br)) (tr_published t) \<and>
      length (tr_taken t) = length (sinks br) \<and>
      (\<forall>i < length (sinks br). slot_active (sinks br ! i) \<longrightarrow>
         subseq (tr_taken t ! i @ view (slot_msgq (sinks br ! i)) @ view (ingest_msgq br))
                (tr_published t)))"

lemma subseq_lossy_append: "subseq (lossy_append n xs x) (xs @ [x])"
  unfolding lossy_append_def by (rule suffix_imp_subseq[OF suffix_drop])

lemma open_slot_nth:
  assumes "open_slot ops name ss i = Some (j, ss')"
  shows "\<exists>k < length ss. j = i + int k \<and> \<not> slot_active (ss ! k) \<and> (\<forall>l < k. slot_active (ss ! l)) \<and>
    ss' = ss[k := (ss ! k)\<lparr>slot_active := True, slot_name := name, slot_stats := zero_sink_stats,
      slot_msgq := mq_purge ops (slot_msgq (ss ! k))\<rparr>]"
  using assms
proof (induction ss arbitrary: i ss')
  case (Cons s ss)
  show ?case
  proof (cases "slot_active s")
    case True
    with Cons.prems obtain ss1 where ss1: "open_slot ops name ss (i + 1) = Some (j, ss1)" "ss' = s # ss1"
      by auto
    from Cons.IH[OF ss1(1)] obtain k where "k < length ss" "j = i + 1 + int k" "\<not> slot_active (ss ! k)"
        "\<forall>l < k. slot_active (ss ! l)"
        "ss1 = ss[k := (ss ! k)\<lparr>slot_active := True, slot_name := name, slot_stats := zero_sink_stats,
          slot_msgq := mq_purge ops (slot_msgq (ss ! k))\<rparr>]" by blast
    with True ss1(2) show ?thesis
      by (intro exI[of _ "Suc k"]) (auto simp: nth_Cons split: nat.splits)
  qed (use Cons.prems in \<open>auto intro!: exI[of _ 0]\<close>)
qed simp

lemma open_slot_None: "open_slot ops name ss i = None \<longleftrightarrow> (\<forall>s\<in>set ss. slot_active s)"
  by (induction ss arbitrary: i) auto

lemma subseq_prepend: "subseq xs ys \<Longrightarrow> subseq (zs @ xs) (zs @ ys)"
  by (rule list_emb_append_mono[OF subseq_order.refl])

context frame_msgq
begin

lemma event_bridge_ok:
  assumes "bridge_ok cfg view cap qinv (tr_bridge t)" and "cfg_ok cfg" and "call_ok ev"
  shows "bridge_ok cfg view cap qinv (tr_bridge (bridge_event cfg ops ev t))"
proof (cases ev)
  case (Publish data len)
  then have "\<And>bytes. data = Some bytes \<Longrightarrow> len \<le> length bytes" using assms(3) by auto
  from publish_ok[where data = data, OF assms(1,2) this] Publish show ?thesis
    by (auto split: prod.splits)
next
  case Dispatch
  then show ?thesis using dispatcher_round_ok[OF assms(1)] assms(1) by (auto split: option.splits)
next
  case (SinkOpen h name)
  then show ?thesis using sink_open_ok[OF assms(1), of h name] by (auto split: prod.splits)
next
  case (SinkClose h)
  then show ?thesis using sink_close_ok[OF assms(1)] by simp
next
  case (SinkTake h hf timeout)
  then show ?thesis
    using sink_take_ok[OF assms(1), of h hf timeout] by (auto simp: Let_def split: prod.splits sum.splits)
qed

lemma publish_frame_view:
  assumes "bridge_ok cfg view cap qinv br" and "cfg_ok cfg"
    and "data = Some bytes" and "0 < len" and "len \<le> frame_max_len cfg"
  shows "\<exists>q. nmea_bridge_publish_frame cfg ops br data len =
      (0, br\<lparr>ingest_msgq := q, bridge_stats := (bridge_stats br)
        \<lparr>frames_in := frames_in (bridge_stats br) + 1,
         ingest_dropped_oldest := ingest_dropped_oldest (bridge_stats br) +
           (if length (view (ingest_msgq br)) = ingest_queue_depth cfg then 1 else 0)\<rparr>\<rparr>) \<and>
      view q = lossy_append (ingest_queue_depth cfg) (view (ingest_msgq br))
        \<lparr>flen = of_nat len, fdata = take len bytes\<rparr>"
proof -
  have "unat (of_nat len :: u16) = len"
    using assms(2,5) by (intro unat_of_nat_small) (auto simp: cfg_ok_def)
  moreover obtain q where "put_drop_oldest ops (ingest_msgq br) \<lparr>flen = of_nat len, fdata = take len bytes\<rparr>
        (ingest_dropped_oldest (bridge_stats br)) =
        (q, ingest_dropped_oldest (bridge_stats br) +
          (if length (view (ingest_msgq br)) = cap (ingest_msgq br) then 1 else 0))"
      "view q = lossy_append (cap (ingest_msgq br)) (view (ingest_msgq br))
        \<lparr>flen = of_nat len, fdata = take len bytes\<rparr>"
    using put_drop_oldest_view[of "ingest_msgq br"] assms(1) by (fastforce simp: bridge_ok_def)
  ultimately show ?thesis
    using assms by (auto simp: nmea_bridge_publish_frame_def Let_def bridge_ok_def)
qed

lemma publish_in_order:
  assumes "bridge_ok cfg view cap qinv (tr_bridge t)" and "cfg_ok cfg" and "in_order view t"
  shows "in_order view (bridge_event cfg ops (Publish data len) t)"
proof (cases "data = None \<or> len = 0 \<or> len > frame_max_len cfg")
  case True
  then show ?thesis
    using assms(3) by (auto simp: nmea_bridge_publish_frame_def Let_def in_order_def errno_defs)
next
  case False
  let ?f = "\<lparr>flen = of_nat len, fdata = take len (the data)\<rparr>" and ?br = "tr_bridge t"
  obtain q st where q: "nmea_bridge_publish_frame cfg ops ?br data len =
        (0, ?br\<lparr>ingest_msgq := q, bridge_stats := st\<rparr>)"
      "view q = lossy_append (ingest_queue_depth cfg) (view (ingest_msgq ?br)) ?f"
    using publish_frame_view[OF assms(1,2), of data "the data" len] False by auto
  have "subseq (xs @ view q) (tr_published t @ [?f])"
    if "subseq (xs @ view (ingest_msgq ?br)) (tr_published t)" for xs
  proof -
    have "subseq (xs @ view q) ((xs @ view (ingest_msgq ?br)) @ [?f])"
      unfolding q(2) append_assoc by (intro subseq_prepend subseq_lossy_append)
    also have "subseq \<dots> (tr_published t @ [?f])" using that by (intro list_emb_append_mono) auto
    finally show ?thesis .
  qed
  from this[of "[]"] this[of "tr_taken t ! i @ view (slot_msgq (sinks ?br ! i))" for i] assms(3) q(1)
  show ?thesis
    by (auto simp: in_order_def Let_def)
qed

lemma dispatch_in_order:
  assumes "bridge_ok cfg view cap qinv (tr_bridge t)" and "in_order view t"
  shows "in_order view (bridge_event cfg ops Dispatch t)"
proof (cases "view (ingest_msgq (tr_bridge t))")
  case Nil
  then have "dispatcher_round ops (tr_bridge t) = None"
    using assms(1) get_empty[of "ingest_msgq (tr_bridge t)" K_FOREVER]
    by (auto simp: bridge_ok_def dispatcher_round_def)
  then show ?thesis using assms(2) by simp
next
  case (Cons f rest)
  let ?br = "tr_bridge t"
  obtain br where br: "dispatcher_round ops ?br = Some br" "view (ingest_msgq br) = rest"
      "list_all2 (slot_delivered view cap f) (sinks ?br) (sinks br)"
    using dispatcher_round_view[OF assms(1) Cons] by blast
  have "subseq (tr_taken t ! i @ view (slot_msgq (sinks br ! i)) @ rest) (tr_published t)"
    if i: "i < length (sinks br)" "slot_active (sinks br ! i)" for i
  proof -
    let ?s = "sinks ?br ! i"
    have d: "slot_delivered view cap f ?s (sinks br ! i)" and "slot_active ?s" "i < length (sinks ?br)"
      using br(3) i by (auto simp: list_all2_conv_all_nth slot_delivered_def split: if_splits)
    then have "subseq (view (slot_msgq (sinks br ! i))) (view (slot_msgq ?s) @ [f])"
      using subseq_lossy_append by (simp add: slot_delivered_def)
    then have "subseq (view (slot_msgq (sinks br ! i)) @ rest) (view (slot_msgq ?s) @ f # rest)"
      using list_emb_append_mono[OF _ subseq_order.refl[of rest]] by fastforce
    then have "subseq (tr_taken t ! i @ view (slot_msgq (sinks br ! i)) @ rest)
        (tr_taken t ! i @ view (slot_msgq ?s) @ f # rest)"
      by (rule subseq_prepend)
    also have "subseq \<dots> (tr_published t)"
      using assms(2) \<open>slot_active ?s\<close> \<open>i < length (sinks ?br)\<close> by (auto simp: in_order_def Let_def Cons)
    finally show ?thesis .
  qed
  moreover have "subseq rest (tr_published t)"
    using assms(2) by (auto simp: in_order_def Let_def Cons dest: subseq_Cons')
  moreover have "length (sinks br) = length (sinks ?br)"
    using br(3) by (simp add: list_all2_lengthD)
  ultimately show ?thesis
    using assms(2) br by (simp add: in_order_def Let_def)
qed

lemma open_in_order:
  assumes "bridge_ok cfg view cap qinv (tr_bridge t)" and "in_order view t"
  shows "in_order view (bridge_event cfg ops (SinkOpen h name) t)"
proof (cases "h = None \<or> open_slot ops name (sinks (tr_bridge t)) 0 = None")
  case True
  then show ?thesis
    using assms(2) by (auto simp: nmea_bridge_sink_open_def in_order_def errno_defs split: option.splits)
next
  case False
  let ?ss = "sinks (tr_bridge t)"
  obtain j ss where o: "open_slot ops name ?ss 0 = Some (j, ss)" using False by auto
  obtain k where k: "k < length ?ss" "j = int k" "ss = ?ss[k := (?ss ! k)\<lparr>slot_active := True,
      slot_name := name, slot_stats := zero_sink_stats, slot_msgq := mq_purge ops (slot_msgq (?ss ! k))\<rparr>]"
    using open_slot_nth[OF o] by auto
  have "view (mq_purge ops (slot_msgq (?ss ! k))) = []"
    using assms(1) k(1) purge by (auto simp: bridge_ok_def list_all_length slot_ok_def)
  with assms(2) k o False show ?thesis
    by (auto simp: nmea_bridge_sink_open_def in_order_def Let_def nth_list_update)
qed

lemma close_in_order:
  assumes "in_order view t"
  shows "in_order view (bridge_event cfg ops (SinkClose h) t)"
  using assms
  by (auto simp: nmea_bridge_sink_close_def in_order_def Let_def nth_list_update valid_id_def
      split: option.splits if_splits)

lemma take_in_order:
  assumes "bridge_ok cfg view cap qinv (tr_bridge t)" and "in_order view t"
  shows "in_order view (bridge_event cfg ops (SinkTake h hf timeout) t)"
proof (cases "\<exists>h'. h = Some h' \<and> hf \<and> valid_id (tr_bridge t) (sink_id h') \<and>
    slot_active (sinks (tr_bridge t) ! nat (sink_id h'))")
  case False
  from sink_take_closed[OF this] obtain e where
    "nmea_bridge_sink_take ops (tr_bridge t) h hf timeout = (Inl e, tr_bridge t)" by blast
  then show ?thesis using assms(2) by (simp add: in_order_def)
next
  case True
  let ?br = "tr_bridge t"
  obtain h' where h: "h = Some h'" "hf" "valid_id ?br (sink_id h')" using True by blast
  define s where "s = sinks ?br ! nat (sink_id h')"
  have act: "slot_active s" using True h s_def by simp
  note op = sink_take_open[OF assms(1) h(3) s_def act, of timeout]
  show ?thesis
  proof (cases "view (slot_msgq s)")
    case Nil
    then show ?thesis using op h assms(2) by (auto simp: in_order_def)
  next
    case (Cons m ms)
    have "subseq (tr_taken t ! nat (sink_id h') @ (m # ms) @ view (ingest_msgq ?br)) (tr_published t)"
      using assms(2) h(3) act by (auto simp: in_order_def Let_def valid_id_def s_def simp flip: Cons)
    with Cons show ?thesis
      using op h assms(2) act
      by (auto simp: in_order_def Let_def nth_list_update valid_id_def s_def)
  qed
qed

lemma event_in_order:
  assumes "bridge_ok cfg view cap qinv (tr_bridge t)" and "cfg_ok cfg" and "in_order view t"
  shows "in_order view (bridge_event cfg ops ev t)"
proof (cases ev)
  case Publish
  then show ?thesis using publish_in_order[OF assms] by metis
next
  case Dispatch
  then show ?thesis using dispatch_in_order[OF assms(1,3)] by metis
next
  case SinkOpen
  then show ?thesis using open_in_order[OF assms(1,3)] by metis
next
  case SinkClose
  then show ?thesis using close_in_order[OF assms(3)] by metis
next
  case SinkTake
  then show ?thesis using take_in_order[OF assms(1,3)] by metis
qed

lemma run_ok:
  assumes "bridge_ok cfg view cap qinv (tr_bridge t)" and "cfg_ok cfg" and "in_order view t"
    and "list_all call_ok evs"
  shows "bridge_ok cfg view cap qinv (tr_bridge (run_calls cfg ops evs t)) \<and>
    in_order view (run_calls cfg ops evs t)"
  using assms
proof (induction evs arbitrary: t)
  case (Cons ev evs)
  have "bridge_ok cfg view cap qinv (tr_bridge (bridge_event cfg ops ev t))"
    "in_order view (bridge_event cfg ops ev t)"
    using Cons.prems event_bridge_ok event_in_order by auto
  from Cons.IH[OF this(1) Cons.prems(2) this(2)] Cons.prems(4) show ?case
    by (simp add: run_calls_def)
qed (simp add: run_calls_def)

lemma run_from_init:
  assumes "cfg_ok cfg" and "list_all call_ok evs"
  shows "bridge_ok cfg view cap qinv (tr_bridge (run_calls cfg ops evs (traced_init cfg ops)))"
    and "in_order view (run_calls cfg ops evs (traced_init cfg ops))"
proof -
  have b: "bridge_ok cfg view cap qinv (tr_bridge (traced_init cfg ops))"
    using init_ok[OF assms(1)] by (simp add: traced_init_def)
  have "in_order view (traced_init cfg ops)"
    using init[of "ingest_queue_depth cfg"] assms(1)
    by (auto simp: in_order_def traced_init_def nmea_bridge_init_def cfg_ok_def Let_def)
  from run_ok[OF b assms(1) this assms(2)]
  show "bridge_ok cfg view cap qinv (tr_bridge (run_calls cfg ops evs (traced_init cfg ops)))"
    and "in_order view (run_calls cfg ops evs (traced_init cfg ops))" by simp_all
qed

end

interpretation frq: frame_msgq ring_ops ring_view ring_max ring_inv
  by unfold_locales

section \<open>Properties\<close>

text \<open>The smallest configuration of the Kconfig ranges, with two sinks, for the witnesses.\<close>

definition small_cfg :: nmea_cfg where
  "small_cfg = \<lparr>frame_max_len = 32, ingest_queue_depth = 2, sink_queue_depth = 2, sinks_max = 2\<rparr>"

definition frame1 :: "byte \<Rightarrow> nmea_frame" where
  "frame1 b = \<lparr>flen = 1, fdata = [b]\<rparr>"

lemma two_eval: "replicate 2 x = [x, x]" "[0..<2] = [0, 1]" "[0..<Suc (Suc 0)] = [0, 1]" "[0..<Suc 0] = [0]"
  by (simp_all add: numeral_2_eq_2)

lemmas bridge_eval =
  small_cfg_def frame1_def cfg_ok_def run_calls_def traced_init_def nmea_bridge_init_def
  nmea_bridge_publish_frame_def nmea_bridge_sink_open_def nmea_bridge_sink_close_def
  nmea_bridge_sink_take_def dispatcher_round_def put_drop_oldest_def
  zero_bridge_stats_def zero_sink_stats_def valid_id_def
  ring_init_def ring_put_def ring_get_def ring_purge_def ring_max_def ring_view_def ring_slot_def
  ring_inv_def errno_defs Let_def two_eval

text \<open>C2. For every message queue that keeps the kernel's contract and every sequence of
  publishes, dispatcher rounds, opens, closes and takes from boot: what an open sink has
  delivered since it was opened, followed by its queue and by the ingest queue, is a
  subsequence of the accepted frames. Frames reach a sink in order, at most once and
  unaltered; the only loss is that of whole frames.\<close>

theorem bridge_delivers_in_order:
  assumes "frame_msgq ops view cap qinv" and "cfg_ok cfg" and "list_all call_ok evs"
    and "t = run_calls cfg ops evs (traced_init cfg ops)"
    and "i < sinks_max cfg" and "slot_active (sinks (tr_bridge t) ! i)"
  shows "subseq (tr_taken t ! i @ view (slot_msgq (sinks (tr_bridge t) ! i)) @
      view (ingest_msgq (tr_bridge t))) (tr_published t)"
proof -
  have "bridge_ok cfg view cap qinv (tr_bridge t)" "in_order view t"
    using frame_msgq.run_from_init[OF assms(1-3)] assms(4) by simp_all
  then show ?thesis using assms(5,6) by (auto simp: in_order_def bridge_ok_def Let_def)
qed

definition demo_calls :: "bridge_call list" where
  "demo_calls = [SinkOpen (Some \<lparr>sink_id = 9\<rparr>) None, Publish (Some [65]) 1, Publish (Some [66]) 1,
     Publish (Some [67]) 1, Dispatch, SinkTake (Some \<lparr>sink_id = 0\<rparr>) True K_NO_WAIT]"

lemma demo_run:
  "run_calls small_cfg ring_ops demo_calls (traced_init small_cfg ring_ops) =
     \<lparr>tr_bridge = \<lparr>ingest_msgq = \<lparr>ring_slots = [Some (frame1 67), Some (frame1 66)], ring_read = 0, ring_used = 1\<rparr>,
        sinks = [\<lparr>slot_active = True, slot_name = None,
                  slot_msgq = \<lparr>ring_slots = [Some (frame1 66), None], ring_read = 1, ring_used = 0\<rparr>,
                  slot_stats = \<lparr>queued = 1, dropped_oldest = 0, consumed = 1\<rparr>\<rparr>,
                 \<lparr>slot_active = False, slot_name = None, slot_msgq = ring_init 2, slot_stats = zero_sink_stats\<rparr>],
        bridge_stats = zero_bridge_stats\<lparr>frames_in := 3, ingest_dropped_oldest := 1\<rparr>\<rparr>,
      tr_published = [frame1 65, frame1 66, frame1 67], tr_taken = [[frame1 66], []]\<rparr>"
  unfolding demo_calls_def by (simp add: bridge_eval)

theorem bridge_delivers_in_order_witness:
  "subseq ([frame1 66] @ [] @ [frame1 67]) [frame1 65, frame1 66, frame1 67]"
  using bridge_delivers_in_order[OF frq.frame_msgq_axioms _ _ demo_run[symmetric], of 0]
  by (simp add: small_cfg_def cfg_ok_def demo_calls_def ring_view_def ring_slot_def ring_max_def)

text \<open>After every sequence of calls, each open sink accounts for every frame it was
  given: its counter of queued frames is the number of consumed ones plus the number of
  dropped ones plus those still in the queue (modulo 2 ^ 32, as the counters wrap), and
  every frame in it is non-empty, at most the configured maximum long, and as long as its
  length field says.\<close>

theorem sink_counters_account:
  assumes "frame_msgq ops view cap qinv" and "cfg_ok cfg" and "list_all call_ok evs"
    and "s \<in> set (sinks (tr_bridge (run_calls cfg ops evs (traced_init cfg ops))))"
    and "slot_active s"
  shows "queued (slot_stats s) =
      consumed (slot_stats s) + dropped_oldest (slot_stats s) + of_nat (length (view (slot_msgq s))) \<and>
    length (view (slot_msgq s)) \<le> sink_queue_depth cfg \<and>
    (\<forall>f\<in>set (view (slot_msgq s)). 0 < unat (flen f) \<and> unat (flen f) \<le> frame_max_len cfg \<and>
      length (fdata f) = unat (flen f))"
proof -
  have "slot_ok cfg view cap qinv s"
    using frame_msgq.run_from_init(1)[OF assms(1-3)] assms(4) by (auto simp: bridge_ok_def list_all_iff)
  then show ?thesis
    using assms(5) msgq.bound[OF frame_msgq.axioms[OF assms(1)], of "slot_msgq s"]
    by (auto simp: slot_ok_def list_all_iff frame_ok_def simp flip: length_greater_0_conv)
qed

text \<open>Here three frames went through a queue of two: one was dropped, one consumed.\<close>

definition busy_calls :: "bridge_call list" where
  "busy_calls = [SinkOpen (Some \<lparr>sink_id = 9\<rparr>) None, Publish (Some [65]) 1, Dispatch,
     Publish (Some [66]) 1, Dispatch, Publish (Some [67]) 1, Dispatch,
     SinkTake (Some \<lparr>sink_id = 0\<rparr>) True K_NO_WAIT]"

definition busy_slot :: "nmea_frame ring sink_slot" where
  "busy_slot = \<lparr>slot_active = True, slot_name = None,
     slot_msgq = \<lparr>ring_slots = [Some (frame1 67), Some (frame1 66)], ring_read = 0, ring_used = 1\<rparr>,
     slot_stats = \<lparr>queued = 3, dropped_oldest = 1, consumed = 1\<rparr>\<rparr>"

lemma busy_run:
  "hd (sinks (tr_bridge (run_calls small_cfg ring_ops busy_calls (traced_init small_cfg ring_ops)))) =
     busy_slot"
  unfolding busy_calls_def busy_slot_def by (simp add: bridge_eval)

theorem sink_counters_account_witness:
  "slot_active busy_slot \<and> queued (slot_stats busy_slot) = consumed (slot_stats busy_slot) +
      dropped_oldest (slot_stats busy_slot) + of_nat (length (ring_view (slot_msgq busy_slot)))"
proof -
  have c: "cfg_ok small_cfg" "list_all call_ok busy_calls"
    by (simp_all add: small_cfg_def cfg_ok_def busy_calls_def)
  have "length (sinks (tr_bridge (run_calls small_cfg ring_ops busy_calls
      (traced_init small_cfg ring_ops)))) = 2"
    using frq.run_from_init(1)[OF c] by (simp add: bridge_ok_def small_cfg_def)
  then have m: "busy_slot \<in> set (sinks (tr_bridge (run_calls small_cfg ring_ops busy_calls
      (traced_init small_cfg ring_ops))))"
    unfolding busy_run[symmetric] by (intro hd_in_set) auto
  have a: "slot_active busy_slot" by (simp add: busy_slot_def)
  show ?thesis using sink_counters_account[OF frq.frame_msgq_axioms c m a] a by blast
qed

text \<open>One put that drops the oldest: with the queue to itself the new frame always
  ends up in the queue, the oldest frame goes if and only if the queue was full, and the
  drop counter rises by exactly the number of frames lost.\<close>

theorem put_drop_oldest_keeps_newest:
  assumes "msgq ops view cap qinv" and "qinv q"
  shows "\<exists>q'. put_drop_oldest ops q frame dropped =
      (q', dropped + of_nat (Suc (length (view q)) - length (view q'))) \<and> qinv q' \<and>
    view q' = (if length (view q) < cap q then view q else tl (view q)) @ [frame]"
proof -
  note b = msgq.bound[OF assms]
  obtain q' where q': "put_drop_oldest ops q frame dropped =
      (q', dropped + (if length (view q) = cap q then 1 else 0))" "qinv q'"
      "view q' = lossy_append (cap q) (view q) frame"
    using msgq.put_drop_oldest_view[OF assms] by blast
  show ?thesis
  proof (cases "length (view q) = cap q")
    case True
    then have "view q' = tl (view q) @ [frame]" using q'(3) b by (simp add: lossy_append_full)
    moreover have "length (view q) \<noteq> 0" using True b by simp
    ultimately show ?thesis using q' True by simp
  next
    case False
    then have "view q' = view q @ [frame]" using q'(3) b by (simp add: lossy_append_room)
    then show ?thesis using q' False b by simp
  qed
qed

definition full_ring :: "nat ring" where
  "full_ring = \<lparr>ring_slots = [Some 11, Some 10], ring_read = 1, ring_used = 2\<rparr>"

theorem put_drop_oldest_keeps_newest_witness:
  "\<exists>q'. put_drop_oldest ring_ops full_ring 12 7 = (q', 8) \<and> ring_view q' = [11, 12]"
proof -
  have r: "ring_inv full_ring" "ring_view full_ring = [10, 11]" "ring_max full_ring = 2"
    by (auto simp: full_ring_def ring_inv_def ring_view_def ring_slot_def ring_max_def numeral_2_eq_2
        less_Suc_eq)
  from put_drop_oldest_keeps_newest[OF rq.msgq_axioms r(1), of 12 7] obtain q' where
    "put_drop_oldest ring_ops full_ring 12 7 =
       (q', 7 + of_nat (Suc (length (ring_view full_ring)) - length (ring_view q')))"
    "ring_view q' = [11, 12]" using r by (auto simp del: length_ring_view)
  then show ?thesis using r(2) by (simp del: length_ring_view)
qed

text \<open>C27. One round of the dispatcher takes the oldest ingested frame and gives it to every
  active sink and to no other: each active sink gets it at its end (losing its oldest
  frame if it was full) with \<open>queued\<close> raised by one, inactive slots are untouched, the total
  drop counter rises by the number of full active sinks, and a frame nobody
  wanted is counted in \<open>publish_no_sinks\<close>.\<close>

theorem dispatcher_round_fans_out:
  assumes "frame_msgq ops view cap qinv" and "bridge_ok cfg view cap qinv br"
    and "view (ingest_msgq br) = frame # rest"
  shows "\<exists>br'. dispatcher_round ops br = Some br' \<and> view (ingest_msgq br') = rest \<and>
    length (sinks br') = length (sinks br) \<and>
    (\<forall>i < length (sinks br). \<not> slot_active (sinks br ! i) \<longrightarrow> sinks br' ! i = sinks br ! i) \<and>
    (\<forall>i < length (sinks br). slot_active (sinks br ! i) \<longrightarrow>
       slot_active (sinks br' ! i) \<and>
       queued (slot_stats (sinks br' ! i)) = queued (slot_stats (sinks br ! i)) + 1 \<and>
       (let xs = view (slot_msgq (sinks br ! i)) in
        view (slot_msgq (sinks br' ! i)) =
          (if length xs < sink_queue_depth cfg then xs else tl xs) @ [frame])) \<and>
    sink_dropped_oldest (bridge_stats br') = sink_dropped_oldest (bridge_stats br) +
      of_nat (length [s \<leftarrow> sinks br. slot_active s \<and> length (view (slot_msgq s)) = sink_queue_depth cfg]) \<and>
    publish_no_sinks (bridge_stats br') = publish_no_sinks (bridge_stats br) +
      (if \<exists>s\<in>set (sinks br). slot_active s then 0 else 1)"
proof -
  obtain br' where br': "dispatcher_round ops br = Some br'" "view (ingest_msgq br') = rest"
      "list_all2 (slot_delivered view cap frame) (sinks br) (sinks br')"
      "bridge_stats br' = (bridge_stats br)
        \<lparr>sink_dropped_oldest := sink_dropped_oldest (bridge_stats br) +
            of_nat (length (filter (overflows view cap) (sinks br))),
         publish_no_sinks := publish_no_sinks (bridge_stats br) +
            (if \<exists>s\<in>set (sinks br). slot_active s then 0 else 1)\<rparr>"
    using frame_msgq.dispatcher_round_view[OF assms] by blast
  have slot: "qinv (slot_msgq s) \<and> cap (slot_msgq s) = sink_queue_depth cfg" if "s \<in> set (sinks br)" for s
    using assms(2) that by (auto simp: bridge_ok_def slot_ok_def list_all_iff)
  have "lossy_append (cap (slot_msgq s)) (view (slot_msgq s)) frame =
      (if length (view (slot_msgq s)) < sink_queue_depth cfg then view (slot_msgq s)
       else tl (view (slot_msgq s))) @ [frame]" if "s \<in> set (sinks br)" for s
    using slot[OF that] msgq.bound[OF frame_msgq.axioms[OF assms(1)], of "slot_msgq s"]
    by (simp add: lossy_append_room lossy_append_full)
  moreover have "filter (overflows view cap) (sinks br) =
      [s \<leftarrow> sinks br. slot_active s \<and> length (view (slot_msgq s)) = sink_queue_depth cfg]"
    using slot by (intro filter_cong) (auto simp: overflows_def)
  ultimately show ?thesis
    using br' by (auto simp: list_all2_conv_all_nth slot_delivered_def Let_def)
qed

text \<open>Two frames are waiting; slot 0 is open and full, slot 1 is closed.\<close>

definition fan_slot :: "bool \<Rightarrow> nmea_frame option list \<Rightarrow> nat \<Rightarrow> u32 \<Rightarrow> nmea_frame ring sink_slot" where
  "fan_slot a slots used n = \<lparr>slot_active = a, slot_name = None,
     slot_msgq = \<lparr>ring_slots = slots, ring_read = 0, ring_used = used\<rparr>,
     slot_stats = \<lparr>queued = n, dropped_oldest = 0, consumed = 0\<rparr>\<rparr>"

definition fan_bridge :: "nmea_frame ring bridge" where
  "fan_bridge = \<lparr>ingest_msgq = \<lparr>ring_slots = [Some (frame1 3), Some (frame1 4)], ring_read = 0, ring_used = 2\<rparr>,
     sinks = [fan_slot True [Some (frame1 1), Some (frame1 2)] 2 2, fan_slot False [None, None] 0 0],
     bridge_stats = zero_bridge_stats\<rparr>"

lemma fan_bridge_ok:
  "bridge_ok small_cfg ring_view ring_max ring_inv fan_bridge"
  "ring_view (ingest_msgq fan_bridge) = [frame1 3, frame1 4]"
  "ring_view (slot_msgq (sinks fan_bridge ! 0)) = [frame1 1, frame1 2]"
  by (auto simp: bridge_ok_def slot_ok_def fan_bridge_def fan_slot_def ring_inv_def ring_view_def
      ring_slot_def ring_max_def small_cfg_def frame_ok_def frame1_def numeral_2_eq_2 less_Suc_eq)

theorem dispatcher_round_fans_out_witness:
  "\<exists>br'. dispatcher_round ring_ops fan_bridge = Some br' \<and>
     ring_view (slot_msgq (sinks br' ! 0)) = [frame1 2, frame1 3] \<and>
     sinks br' ! 1 = sinks fan_bridge ! 1"
  using dispatcher_round_fans_out[OF frq.frame_msgq_axioms fan_bridge_ok(1,2)] fan_bridge_ok(3)
  by (auto simp: fan_bridge_def fan_slot_def small_cfg_def Let_def)

text \<open>Opening a sink succeeds if and only if some slot is free; it then takes the free slot
  with the lowest number, gives it an empty queue and zero counters, and touches nothing
  else. Otherwise it fails with \<open>-ENOMEM\<close>, the bridge is unchanged and the handle is
  invalid.\<close>

theorem sink_open_lowest_free:
  "case nmea_bridge_sink_open ops br (Some h) name of (r, br', h') \<Rightarrow>
     if \<forall>s\<in>set (sinks br). slot_active s then r = - ENOMEM \<and> br' = br \<and> h' = Some \<lparr>sink_id = -1\<rparr>
     else (\<exists>k < length (sinks br). r = 0 \<and> h' = Some \<lparr>sink_id = int k\<rparr> \<and>
       \<not> slot_active (sinks br ! k) \<and> (\<forall>l < k. slot_active (sinks br ! l)) \<and>
       br' = br\<lparr>sinks := (sinks br)[k := \<lparr>slot_active = True, slot_name = name,
         slot_msgq = mq_purge ops (slot_msgq (sinks br ! k)), slot_stats = zero_sink_stats\<rparr>]\<rparr>)"
proof (cases "open_slot ops name (sinks br) 0")
  case None
  then show ?thesis
    using open_slot_None[of ops name "sinks br" 0] by (simp add: nmea_bridge_sink_open_def)
next
  case (Some p)
  obtain j ss where p: "p = (j, ss)" by (cases p)
  have upd: "s\<lparr>slot_active := True, slot_name := name, slot_stats := zero_sink_stats,
      slot_msgq := mq_purge ops (slot_msgq s)\<rparr> = \<lparr>slot_active = True, slot_name = name,
         slot_msgq = mq_purge ops (slot_msgq s), slot_stats = zero_sink_stats\<rparr>" for s :: "'a sink_slot"
    by (cases s) simp
  have "\<not> (\<forall>s\<in>set (sinks br). slot_active s)"
    using Some open_slot_None[of ops name "sinks br" 0] by auto
  with open_slot_nth[OF Some[unfolded p]] Some p show ?thesis
    by (auto simp: nmea_bridge_sink_open_def upd)
qed

theorem sink_open_lowest_free_witness:
  "\<exists>br'. nmea_bridge_sink_open ring_ops fan_bridge (Some \<lparr>sink_id = 5\<rparr>) (Some ''udp'') =
     (0, br', Some \<lparr>sink_id = 1\<rparr>) \<and> slot_name (sinks br' ! 1) = Some ''udp''"
  using sink_open_lowest_free[where ops = ring_ops and br = fan_bridge and h = "\<lparr>sink_id = 5\<rparr>" and name = "Some ''udp''"]
  by (cases "nmea_bridge_sink_open ring_ops fan_bridge (Some \<lparr>sink_id = 5\<rparr>) (Some ''udp'')")
     (auto simp: fan_bridge_def fan_slot_def less_Suc_eq)

text \<open>Publishing, on every branch: a NULL or empty frame is refused with \<open>-EINVAL\<close> and a
  frame longer than a frame buffer with \<open>-EMSGSIZE\<close>, both counted and with the queue
  unchanged; every other frame is accepted, whether or not the queue is full, and enters
  the ingest queue with exactly the given bytes, at the cost of the oldest frame when the
  queue was full.\<close>

theorem publish_frame_behaviour:
  assumes "frame_msgq ops view cap qinv" and "bridge_ok cfg view cap qinv br" and "cfg_ok cfg"
    and "nmea_bridge_publish_frame cfg ops br data len = (r, br')"
  shows "sinks br' = sinks br \<and>
    (case data of
       None \<Rightarrow> r = - EINVAL \<and> ingest_msgq br' = ingest_msgq br \<and>
         bridge_stats br' = (bridge_stats br)\<lparr>publish_invalid := publish_invalid (bridge_stats br) + 1\<rparr>
     | Some bytes \<Rightarrow>
         if len = 0 then
           r = - EINVAL \<and> ingest_msgq br' = ingest_msgq br \<and>
           bridge_stats br' = (bridge_stats br)\<lparr>publish_invalid := publish_invalid (bridge_stats br) + 1\<rparr>
         else if frame_max_len cfg < len then
           r = - EMSGSIZE \<and> ingest_msgq br' = ingest_msgq br \<and>
           bridge_stats br' = (bridge_stats br)\<lparr>publish_oversize := publish_oversize (bridge_stats br) + 1\<rparr>
         else
           (let xs = view (ingest_msgq br); full = (length xs = ingest_queue_depth cfg) in
            r = 0 \<and> view (ingest_msgq br') =
              (if full then tl xs else xs) @ [\<lparr>flen = of_nat len, fdata = take len bytes\<rparr>] \<and>
            bridge_stats br' = (bridge_stats br)\<lparr>frames_in := frames_in (bridge_stats br) + 1,
              ingest_dropped_oldest := ingest_dropped_oldest (bridge_stats br) + (if full then 1 else 0)\<rparr>))"
proof (cases "data = None \<or> len = 0 \<or> len > frame_max_len cfg")
  case True
  then show ?thesis
    using assms(4) by (auto simp: nmea_bridge_publish_frame_def Let_def split: option.splits if_splits)
next
  case False
  then obtain bytes where d: "data = Some bytes" "0 < len" "len \<le> frame_max_len cfg" by auto
  have c: "cap (ingest_msgq br) = ingest_queue_depth cfg" "length (view (ingest_msgq br)) \<le> ingest_queue_depth cfg"
      "0 < ingest_queue_depth cfg"
    using assms(2) msgq.bound[OF frame_msgq.axioms[OF assms(1)], of "ingest_msgq br"] by (auto simp: bridge_ok_def)
  show ?thesis
    using frame_msgq.publish_frame_view[OF assms(1-3) d] assms(4) d c
    by (cases "length (view (ingest_msgq br)) = ingest_queue_depth cfg")
       (auto simp: Let_def lossy_append_room lossy_append_full)
qed

theorem publish_frame_behaviour_witness:
  "\<exists>br'. nmea_bridge_publish_frame small_cfg ring_ops fan_bridge (Some [9, 8, 7]) 1 = (0, br') \<and>
     ring_view (ingest_msgq br') = [frame1 4, frame1 9] \<and> ingest_dropped_oldest (bridge_stats br') = 1"
proof -
  obtain r br' where e: "nmea_bridge_publish_frame small_cfg ring_ops fan_bridge (Some [9, 8, 7]) 1 = (r, br')"
    by fastforce
  have "cfg_ok small_cfg" by (simp add: cfg_ok_def small_cfg_def)
  from publish_frame_behaviour[OF frq.frame_msgq_axioms fan_bridge_ok(1) this e] fan_bridge_ok(2) e
  show ?thesis
    by (simp add: small_cfg_def Let_def frame1_def zero_bridge_stats_def fan_bridge_def del: length_ring_view)
qed

text \<open>Taking a frame, on every branch: the error for a missing argument, a closed or
  foreign handle or an inactive slot, \<open>-ENOMSG\<close> or \<open>-EAGAIN\<close> for an empty queue, and
  otherwise the oldest frame, which leaves the queue and is counted as consumed. A failed
  take leaves the bridge as it was.\<close>

theorem sink_take_behaviour:
  assumes "frame_msgq ops view cap qinv" and "bridge_ok cfg view cap qinv br"
    and "nmea_bridge_sink_take ops br (Some h) True t = (res, br')"
  shows "if sink_id h < 0 then res = Inl (- ENOTCONN) \<and> br' = br
    else if sink_id h \<ge> int (sinks_max cfg) then res = Inl (- EINVAL) \<and> br' = br
    else (let i = nat (sink_id h); s = sinks br ! i; s' = sinks br' ! i in
      if \<not> slot_active s then res = Inl (- ENOTCONN) \<and> br' = br
      else (case view (slot_msgq s) of
        [] \<Rightarrow> (res = Inl (- ENOMSG) \<or> res = Inl (- EAGAIN)) \<and> br' = br
      | f # fs \<Rightarrow> res = Inr f \<and> view (slot_msgq s') = fs \<and>
          consumed (slot_stats s') = consumed (slot_stats s) + 1 \<and> br' = br\<lparr>sinks := (sinks br)[i := s']\<rparr>))"
proof (cases "valid_id br (sink_id h) \<and> slot_active (sinks br ! nat (sink_id h))")
  case True
  have "nat (sink_id h) < length (sinks br)" using True by (auto simp: valid_id_def)
  with frame_msgq.sink_take_open[OF assms(1,2), of h "sinks br ! nat (sink_id h)" t] True assms(2,3)
  show ?thesis
    by (auto simp: bridge_ok_def valid_id_def Let_def split: list.splits)
next
  case False
  then show ?thesis
    using assms(2,3)
    by (auto simp: bridge_ok_def valid_id_def nmea_bridge_sink_take_def Let_def split: if_splits)
qed

theorem sink_take_behaviour_witness:
  "\<exists>br'. nmea_bridge_sink_take ring_ops fan_bridge (Some \<lparr>sink_id = 0\<rparr>) True K_NO_WAIT = (Inr (frame1 1), br') \<and>
     ring_view (slot_msgq (sinks br' ! 0)) = [frame1 2]"
proof -
  obtain res br' where e: "nmea_bridge_sink_take ring_ops fan_bridge (Some \<lparr>sink_id = 0\<rparr>) True K_NO_WAIT = (res, br')"
    by fastforce
  have "slot_active (sinks fan_bridge ! 0)" by (simp add: fan_bridge_def fan_slot_def)
  with sink_take_behaviour[OF frq.frame_msgq_axioms fan_bridge_ok(1) e] fan_bridge_ok(3) e show ?thesis
    by (simp add: small_cfg_def Let_def)
qed

end
