(* ===== verification/Status_Led_Policy.thy ===== *)
theory Status_Led_Policy
  imports Bridge_Prelude
begin

text \<open>
  The colour policy of the status LED, \<open>src/src/status_led_policy.c\<close>: the number of active TCP
  sessions and the connecting flag give a base pattern, and three kinds of events each flash
  a colour for 100 ms over it. Times are 32-bit milliseconds that wrap around after 49.7
  days, compared through the signed difference.
\<close>

section \<open>Translation\<close>

record status_led_rgb =
  led_r :: byte
  led_g :: byte
  led_b :: byte

datatype status_led_base_state =
  STATUS_LED_BASE_DISCONNECTED | STATUS_LED_BASE_CONNECTING | STATUS_LED_BASE_CONNECTED

record status_led_policy_state =
  active_tcp_nmea_sessions :: u16
  outbound_tcp_nmea_client_connecting :: bool
  nmea_activity_flash_active :: bool
  nmea_forwarded_flash_active :: bool
  nmea_error_flash_active :: bool
  nmea_activity_flash_until_ms :: u32
  nmea_forwarded_flash_until_ms :: u32
  nmea_error_flash_until_ms :: u32

definition STATUS_LED_NMEA_ACTIVITY_FLASH_MS :: u32 where
  "STATUS_LED_NMEA_ACTIVITY_FLASH_MS = 100"

definition STATUS_LED_CONNECTING_PERIOD_MS :: u32 where
  "STATUS_LED_CONNECTING_PERIOD_MS = 1000"

definition flash_active_until :: "bool \<Rightarrow> u32 \<Rightarrow> u32 \<Rightarrow> bool" where
  "flash_active_until active now_ms until_ms \<longleftrightarrow> active \<and> sint (now_ms - until_ms) < 0"

definition status_led_policy_tcp_nmea_session_started ::
  "status_led_policy_state \<Rightarrow> status_led_policy_state"
where
  "status_led_policy_tcp_nmea_session_started s =
     s\<lparr>active_tcp_nmea_sessions := active_tcp_nmea_sessions s + 1\<rparr>"

definition status_led_policy_tcp_nmea_session_ended ::
  "status_led_policy_state \<Rightarrow> status_led_policy_state"
where
  "status_led_policy_tcp_nmea_session_ended s =
     (if active_tcp_nmea_sessions s > 0
      then s\<lparr>active_tcp_nmea_sessions := active_tcp_nmea_sessions s - 1\<rparr> else s)"

definition status_led_policy_tcp_nmea_client_connecting ::
  "bool \<Rightarrow> status_led_policy_state \<Rightarrow> status_led_policy_state"
where
  "status_led_policy_tcp_nmea_client_connecting connecting s =
     s\<lparr>outbound_tcp_nmea_client_connecting := connecting\<rparr>"

definition status_led_policy_nmea_frame_received ::
  "u32 \<Rightarrow> status_led_policy_state \<Rightarrow> status_led_policy_state"
where
  "status_led_policy_nmea_frame_received now_ms s =
     s\<lparr>nmea_activity_flash_active := True,
       nmea_activity_flash_until_ms := now_ms + STATUS_LED_NMEA_ACTIVITY_FLASH_MS\<rparr>"

definition status_led_policy_nmea_frame_forwarded ::
  "u32 \<Rightarrow> status_led_policy_state \<Rightarrow> status_led_policy_state"
where
  "status_led_policy_nmea_frame_forwarded now_ms s =
     s\<lparr>nmea_forwarded_flash_active := True,
       nmea_forwarded_flash_until_ms := now_ms + STATUS_LED_NMEA_ACTIVITY_FLASH_MS\<rparr>"

definition status_led_policy_nmea_send_failed ::
  "u32 \<Rightarrow> status_led_policy_state \<Rightarrow> status_led_policy_state"
where
  "status_led_policy_nmea_send_failed now_ms s =
     s\<lparr>nmea_error_flash_active := True,
       nmea_error_flash_until_ms := now_ms + STATUS_LED_NMEA_ACTIVITY_FLASH_MS\<rparr>"

definition status_led_policy_base_state :: "status_led_policy_state \<Rightarrow> status_led_base_state" where
  "status_led_policy_base_state s =
     (if active_tcp_nmea_sessions s > 0 then STATUS_LED_BASE_CONNECTED
      else if outbound_tcp_nmea_client_connecting s then STATUS_LED_BASE_CONNECTING
      else STATUS_LED_BASE_DISCONNECTED)"

definition status_led_policy_render_disconnected :: "u32 \<Rightarrow> status_led_rgb" where
  "status_led_policy_render_disconnected elapsed_ms = \<lparr>led_r = 8, led_g = 0, led_b = 0\<rparr>"

definition status_led_policy_render_connecting :: "u32 \<Rightarrow> status_led_rgb" where
  "status_led_policy_render_connecting elapsed_ms =
     (let half_period_ms = STATUS_LED_CONNECTING_PERIOD_MS div 2;
          phase_ms = elapsed_ms mod STATUS_LED_CONNECTING_PERIOD_MS;
          red_range = 8 - 2 :: u32;
          green_range = 8 - 2 :: u32;
          ramp_ms = (if phase_ms > half_period_ms then STATUS_LED_CONNECTING_PERIOD_MS - phase_ms
                     else phase_ms)
      in \<lparr>led_r = 2 + ucast (red_range * ramp_ms div half_period_ms),
          led_g = 2 + ucast (green_range * ramp_ms div half_period_ms), led_b = 0\<rparr>)"

definition status_led_policy_render_base :: "status_led_base_state \<Rightarrow> u32 \<Rightarrow> status_led_rgb" where
  "status_led_policy_render_base state elapsed_ms =
     (if state = STATUS_LED_BASE_CONNECTED then \<lparr>led_r = 0, led_g = 8, led_b = 0\<rparr>
      else if state = STATUS_LED_BASE_CONNECTING then status_led_policy_render_connecting elapsed_ms
      else status_led_policy_render_disconnected elapsed_ms)"

definition status_led_policy_render :: "status_led_policy_state \<Rightarrow> u32 \<Rightarrow> status_led_rgb" where
  "status_led_policy_render s elapsed_ms =
     (if flash_active_until (nmea_error_flash_active s) elapsed_ms (nmea_error_flash_until_ms s)
      then \<lparr>led_r = 48, led_g = 0, led_b = 0\<rparr>
      else if flash_active_until (nmea_forwarded_flash_active s) elapsed_ms (nmea_forwarded_flash_until_ms s)
      then \<lparr>led_r = 32, led_g = 32, led_b = 32\<rparr>
      else if flash_active_until (nmea_activity_flash_active s) elapsed_ms (nmea_activity_flash_until_ms s)
      then \<lparr>led_r = 0, led_g = 0, led_b = 32\<rparr>
      else status_led_policy_render_base (status_led_policy_base_state s) elapsed_ms)"

section \<open>The flash window\<close>

lemma uint_diff_100:
  "uint ((d :: u32) - 100) = (if 100 \<le> uint d then uint d - 100 else uint d + 4294967196)"
proof -
  have "uint (d - 100) = (uint d - 100) mod 4294967296" by (simp add: uint_word_ariths)
  moreover have "(uint d - 100) mod 4294967296 = uint d - 100" if "100 \<le> uint d"
    using that uint_lt2p[of d] by (intro mod_pos_pos_trivial) auto
  moreover have "(uint d - 100 + 4294967296) mod 4294967296 = uint d - 100 + 4294967296" if "uint d < 100"
    using that uint_ge_0[of d] by (intro mod_pos_pos_trivial) auto
  moreover have "(uint d - 100 + 4294967296) mod 4294967296 = (uint d - 100) mod 4294967296"
    by (rule mod_add_self2)
  ultimately show ?thesis by (cases "100 \<le> uint d") simp_all
qed

lemma sint_neg_iff: "sint (w :: u32) < 0 \<longleftrightarrow> 2147483648 \<le> uint w"
proof -
  have "sint w < 0 \<longleftrightarrow> odd (uint w div 2147483648)"
    by (simp add: sint_uint signed_take_bit_negative_iff bit_iff_odd)
  also have "\<dots> \<longleftrightarrow> 2147483648 \<le> uint w"
  proof (cases "uint w < 2147483648")
    case False
    have "uint w < 4294967296" using uint_lt2p[of w] by simp
    then have "uint w div 2147483648 = 1" using False by (intro int_div_pos_eq[where r = "uint w - 2147483648"]) auto
    then show ?thesis using False by simp
  qed simp
  finally show ?thesis .
qed

text \<open>The exact set of delays at which an event is shown.\<close>

lemma flash_window:
  "flash_active_until True (t + d) (t + STATUS_LED_NMEA_ACTIVITY_FLASH_MS) \<longleftrightarrow>
     uint d < 100 \<or> 2147483748 \<le> uint d"
proof -
  have "t + d - (t + 100) = d - 100" by simp
  then show ?thesis
    using uint_ge_0[of d]
    by (auto simp: flash_active_until_def STATUS_LED_NMEA_ACTIVITY_FLASH_MS_def sint_neg_iff uint_diff_100)
qed

section \<open>Properties\<close>


definition led_off :: status_led_policy_state where
  "led_off = \<lparr>active_tcp_nmea_sessions = 0, outbound_tcp_nmea_client_connecting = False,
     nmea_activity_flash_active = False, nmea_forwarded_flash_active = False,
     nmea_error_flash_active = False, nmea_activity_flash_until_ms = 0,
     nmea_forwarded_flash_until_ms = 0, nmea_error_flash_until_ms = 0\<rparr>"


text \<open>C36. The flags of the events are never cleared, so each event comes back: between
  \<open>2 ^ 31 + 100\<close> ms and \<open>2 ^ 32\<close> ms after the last send failure, from 24.8 to 49.7 days, the LED shows the
  failure again without a break, although nothing failed since.\<close>

theorem error_flash_comes_back:
  assumes "2147483748 \<le> uint d"
  shows "status_led_policy_render (status_led_policy_nmea_send_failed t s) (t + d) =
    \<lparr>led_r = 48, led_g = 0, led_b = 0\<rparr>"
  using flash_window[of t d] assms
  by (simp add: status_led_policy_render_def status_led_policy_nmea_send_failed_def)

theorem error_flash_comes_back_witness:
  "status_led_policy_render (status_led_policy_nmea_send_failed 1000 led_off) (1000 + 3000000000) =
     \<lparr>led_r = 48, led_g = 0, led_b = 0\<rparr>"
  by (rule error_flash_comes_back) simp

definition triangle :: "nat \<Rightarrow> nat" where
  "triangle p = (if p \<le> 500 then p else 1000 - p)"

text \<open>The connecting pulse is a triangle wave with period one second between brightness 2
  and 8 on red and green: no intermediate value overflows its type.\<close>

theorem connecting_pulse:
  "unat (led_r (status_led_policy_render_connecting e)) = 2 + 6 * triangle (unat e mod 1000) div 500 \<and>
   led_g (status_led_policy_render_connecting e) = led_r (status_led_policy_render_connecting e) \<and>
   2 \<le> unat (led_r (status_led_policy_render_connecting e)) \<and>
   unat (led_r (status_led_policy_render_connecting e)) \<le> 8"
proof -
  define p where "p = e mod 1000"
  define ramp :: u32 where "ramp = (if p > 500 then 1000 - p else p)"
  have p: "unat p = unat e mod 1000" by (simp add: p_def unat_mod)
  then have "unat p < 1000" by simp
  then have r: "unat ramp = triangle (unat p)"
    by (auto simp: ramp_def triangle_def word_less_nat_alt unat_sub word_le_nat_alt)
  have t: "triangle (unat p) \<le> 500" by (auto simp: triangle_def)
  have "unat (6 * ramp) = 6 * unat ramp"
    using t r by (simp add: unat_word_ariths)
  then have q: "unat (6 * ramp div 500) = 6 * triangle (unat p) div 500"
    using r by (simp add: unat_div)
  moreover have "6 * triangle (unat p) div 500 \<le> 6" using t by simp
  ultimately have "unat (ucast (6 * ramp div 500) :: byte) = 6 * triangle (unat p) div 500"
    by (simp add: unsigned_ucast_eq take_bit_nat_eq_self)
  then have "unat (2 + ucast (6 * ramp div 500) :: byte) = 2 + 6 * triangle (unat p) div 500"
    using t by (simp add: unat_word_ariths)
  moreover have "status_led_policy_render_connecting e =
      \<lparr>led_r = 2 + ucast (6 * ramp div 500), led_g = 2 + ucast (6 * ramp div 500), led_b = 0\<rparr>"
    by (simp add: status_led_policy_render_connecting_def STATUS_LED_CONNECTING_PERIOD_MS_def Let_def
        p_def ramp_def)
  ultimately show ?thesis using t p by simp
qed

end
