(* ===== verification/Status_Led.thy ===== *)
theory Status_Led
  imports Status_Led_Policy
begin

text \<open>
  The status LED observer, \<open>src/src/status_led.c\<close>: the notifications other components send,
  and the thread that renders the policy and updates the strip, with a growing delay
  between attempts while the strip fails. The strip driver and the clock are arguments:
  \<open>update\<close> is the return value of \<open>led_strip_update_rgb\<close> for a pixel, \<open>now_ms\<close> that of \<open>k_uptime_get\<close>. The
  record \<open>led_thread\<close> holds the locals of the thread.
\<close>

section \<open>Translation\<close>

record status_led =
  status_led_running :: bool
  status_led_started_ms :: int
  status_led_state :: status_led_policy_state

record led_thread =
  next_retry_ms :: int
  failed_attempts :: byte
  has_applied_rgb :: bool
  applied_rgb :: status_led_rgb

definition STATUS_LED_RETRY_INITIAL_MS :: u32 where "STATUS_LED_RETRY_INITIAL_MS = 1000"
definition STATUS_LED_RETRY_MAX_MS :: u32 where "STATUS_LED_RETRY_MAX_MS = 5000"

definition status_led_rgb_equal :: "status_led_rgb \<Rightarrow> status_led_rgb \<Rightarrow> bool" where
  "status_led_rgb_equal a b \<longleftrightarrow> led_r a = led_r b \<and> led_g a = led_g b \<and> led_b a = led_b b"

text \<open>The loop of \<open>status_led_retry_delay_ms\<close>.\<close>

function retry_delay_loop :: "byte \<Rightarrow> u32 \<Rightarrow> u32" where
  "retry_delay_loop failed delay_ms =
     (if failed > 1 \<and> delay_ms < STATUS_LED_RETRY_MAX_MS
      then retry_delay_loop (failed - 1) (delay_ms * 2) else delay_ms)"
  by pat_completeness auto
termination
proof (relation "measure (\<lambda>(failed, delay_ms). unat failed)")
  fix failed :: byte and delay_ms :: u32
  assume "failed > 1 \<and> delay_ms < STATUS_LED_RETRY_MAX_MS"
  then have "unat (failed - 1) < unat failed" by unat_arith
  then show "((failed - 1, delay_ms * 2), failed, delay_ms) \<in> measure (\<lambda>(failed, delay_ms). unat failed)"
    by simp
qed simp

declare retry_delay_loop.simps [simp del]

definition status_led_retry_delay_ms :: "byte \<Rightarrow> u32" where
  "status_led_retry_delay_ms failed =
     (let delay_ms = retry_delay_loop failed STATUS_LED_RETRY_INITIAL_MS in
      if delay_ms > STATUS_LED_RETRY_MAX_MS then STATUS_LED_RETRY_MAX_MS else delay_ms)"

definition led_elapsed :: "int \<Rightarrow> status_led \<Rightarrow> u32" where
  "led_elapsed now_ms led = of_int (now_ms - status_led_started_ms led)"

definition status_led_render :: "u32 \<Rightarrow> status_led \<Rightarrow> status_led_rgb" where
  "status_led_render elapsed_ms led = status_led_policy_render (status_led_state led) elapsed_ms"

text \<open>One iteration of the thread: the new locals and the pixel it tried to show, if any. The
  recovery of the bus after a failure only resets the I2S peripheral.\<close>

definition status_led_round ::
  "(status_led_rgb \<Rightarrow> rc) \<Rightarrow> int \<Rightarrow> status_led \<Rightarrow> led_thread \<Rightarrow> led_thread \<times> status_led_rgb option"
where
  "status_led_round update now_ms led th =
     (let rendered = status_led_render (led_elapsed now_ms led) led in
      if (\<not> has_applied_rgb th \<or> \<not> status_led_rgb_equal rendered (applied_rgb th)) \<and> now_ms \<ge> next_retry_ms th
      then
        (if update rendered = 0 then
           (th\<lparr>applied_rgb := rendered, has_applied_rgb := True, failed_attempts := 0, next_retry_ms := 0\<rparr>,
            Some rendered)
         else
           (let failed = (if failed_attempts th < 255 then failed_attempts th + 1 else failed_attempts th)
            in (th\<lparr>failed_attempts := failed,
                   next_retry_ms := now_ms + uint (status_led_retry_delay_ms failed)\<rparr>, Some rendered)))
      else (th, None))"

definition led_thread_start :: led_thread where
  "led_thread_start = \<lparr>next_retry_ms = 0, failed_attempts = 0, has_applied_rgb = False,
     applied_rgb = \<lparr>led_r = 0, led_g = 0, led_b = 0\<rparr>\<rparr>"

definition status_led_tcp_nmea_session_started :: "status_led \<Rightarrow> status_led" where
  "status_led_tcp_nmea_session_started led =
     led\<lparr>status_led_state := status_led_policy_tcp_nmea_session_started (status_led_state led)\<rparr>"

definition status_led_tcp_nmea_session_ended :: "status_led \<Rightarrow> status_led" where
  "status_led_tcp_nmea_session_ended led =
     led\<lparr>status_led_state := status_led_policy_tcp_nmea_session_ended (status_led_state led)\<rparr>"

definition status_led_tcp_nmea_client_connecting :: "bool \<Rightarrow> status_led \<Rightarrow> status_led" where
  "status_led_tcp_nmea_client_connecting connecting led =
     led\<lparr>status_led_state := status_led_policy_tcp_nmea_client_connecting connecting (status_led_state led)\<rparr>"

definition status_led_nmea_frame_received :: "int \<Rightarrow> status_led \<Rightarrow> status_led" where
  "status_led_nmea_frame_received now_ms led =
     led\<lparr>status_led_state :=
       status_led_policy_nmea_frame_received (led_elapsed now_ms led) (status_led_state led)\<rparr>"

definition status_led_nmea_frame_forwarded :: "int \<Rightarrow> status_led \<Rightarrow> status_led" where
  "status_led_nmea_frame_forwarded now_ms led =
     led\<lparr>status_led_state :=
       status_led_policy_nmea_frame_forwarded (led_elapsed now_ms led) (status_led_state led)\<rparr>"

definition status_led_nmea_send_failed :: "int \<Rightarrow> status_led \<Rightarrow> status_led" where
  "status_led_nmea_send_failed now_ms led =
     led\<lparr>status_led_state :=
       status_led_policy_nmea_send_failed (led_elapsed now_ms led) (status_led_state led)\<rparr>"

text \<open>The return value, the state and whether the thread is created.\<close>

definition status_led_start :: "bool \<Rightarrow> bool \<Rightarrow> int \<Rightarrow> status_led \<Rightarrow> rc \<times> status_led \<times> bool" where
  "status_led_start has_strip device_ready now_ms led =
     (if status_led_running led then (0, led, False)
      else if \<not> has_strip then (0, led, False)
      else if \<not> device_ready then (0, led, False)
      else (0, led\<lparr>status_led_started_ms := now_ms, status_led_running := True\<rparr>, True))"

section \<open>The retry delay\<close>

lemma word8_pred_gt1: "\<lbrakk>1 < (n :: byte); n \<noteq> 2; n \<noteq> 3\<rbrakk> \<Longrightarrow> 3 < n"
  by unat_arith

lemma byte_not_le_1: "\<not> (2 :: byte) \<le> 1" "\<not> (3 :: byte) \<le> 1"
  by (simp_all add: word_le_nat_alt)

lemma retry_delay_cases:
  "status_led_retry_delay_ms n =
     (if n \<le> 1 then 1000 else if n = 2 then 2000 else if n = 3 then 4000 else 5000)"
proof -
  note step = retry_delay_loop.simps[of n] retry_delay_loop.simps[of "n - 1"]
    retry_delay_loop.simps[of "n - 2"] retry_delay_loop.simps[of "n - 3"]
  consider "n \<le> 1" | "n = 2" | "n = 3" | "3 < n"
    using word8_pred_gt1 by fastforce
  then show ?thesis
  proof cases
    case 4
    then have "1 < n" "1 < n - 1" "1 < n - 2" "\<not> n \<le> 1" "n \<noteq> 2" by unat_arith+
    moreover have "n \<noteq> 3" using 4 by auto
    ultimately show ?thesis
      using step
      by (simp add: status_led_retry_delay_ms_def Let_def STATUS_LED_RETRY_INITIAL_MS_def
          STATUS_LED_RETRY_MAX_MS_def diff_diff_eq)
  qed (use step in \<open>simp_all add: status_led_retry_delay_ms_def Let_def STATUS_LED_RETRY_INITIAL_MS_def
      STATUS_LED_RETRY_MAX_MS_def byte_not_le_1\<close>)
qed

section \<open>The thread\<close>

text \<open>What the strip shows, if the thread knows it, and a bound on the next attempt.\<close>

definition led_thread_ok :: "status_led_rgb option \<Rightarrow> int \<Rightarrow> led_thread \<Rightarrow> bool" where
  "led_thread_ok shown now_ms th \<longleftrightarrow>
     (has_applied_rgb th \<longrightarrow> shown = Some (applied_rgb th)) \<and> next_retry_ms th \<le> now_ms + 5000"

lemma rgb_equal_iff [simp]: "status_led_rgb_equal a b \<longleftrightarrow> a = b"
  by (cases a, cases b) (simp add: status_led_rgb_equal_def)

text \<open>The colour on the strip after a round: a successful update shows the pixel, and a failed one
  leaves the strip as it was.\<close>

definition strip_after ::
  "(status_led_rgb \<Rightarrow> rc) \<Rightarrow> status_led_rgb option \<Rightarrow> status_led_rgb option \<Rightarrow> status_led_rgb option"
where
  "strip_after update tried shown =
     (case tried of Some p \<Rightarrow> if update p = 0 then Some p else shown | None \<Rightarrow> shown)"

lemma retry_delay_bounds: "1000 \<le> uint (status_led_retry_delay_ms n)" "uint (status_led_retry_delay_ms n) \<le> 5000"
  by (simp_all add: retry_delay_cases)

lemma led_round_ok:
  assumes "led_thread_ok shown now_ms th" and "0 \<le> now_ms" and "now_ms \<le> now'"
    and "status_led_round update now' led th = (th', tried)"
  shows "led_thread_ok (strip_after update tried shown) now' th'"
  using assms retry_delay_bounds(2)
  by (auto simp: led_thread_ok_def status_led_round_def Let_def strip_after_def split: if_splits)

section \<open>Properties\<close>

text \<open>The delay before the next attempt doubles with each failure from one second up to
  the cap of five seconds, for every one of the 256 values of the counter: the loop
  terminates and the doubling never overflows.\<close>

theorem retry_delay_doubles:
  "uint (status_led_retry_delay_ms n) = min 5000 (1000 * 2 ^ (unat n - 1))"
proof (cases "n \<le> 3")
  case True
  then have "n = 0 \<or> n = 1 \<or> n = 2 \<or> n = 3" by unat_arith
  then show ?thesis by (auto simp: retry_delay_cases byte_not_le_1)
next
  case False
  then have "\<not> n \<le> 1" "n \<noteq> 2" "n \<noteq> 3" "3 \<le> unat n - 1"
    by (auto simp: word_le_nat_alt)
  moreover have "(2::int) ^ 3 \<le> 2 ^ (unat n - 1)"
    using calculation(4) by (intro power_increasing) auto
  ultimately show ?thesis by (simp add: retry_delay_cases)
qed

text \<open>C33. The thread never loses track of the strip: starting from any state in which its record
  of the strip is true, a round keeps the record true; a round at or after the retry time with
  a working strip ends with the strip showing the rendered colour; a failed attempt puts the
  next one between one and five seconds later, so the strip is tried again for ever.\<close>

theorem led_round_shows_rendered:
  assumes "led_thread_ok shown now_ms th" and "0 \<le> now_ms" and "now_ms \<le> now'"
    and "status_led_round update now' led th = (th', tried)"
    and "rendered = status_led_render (led_elapsed now' led) led"
  shows "led_thread_ok (strip_after update tried shown) now' th' \<and>
    (update rendered = 0 \<and> next_retry_ms th \<le> now' \<longrightarrow> strip_after update tried shown = Some rendered) \<and>
    (tried \<noteq> None \<and> update rendered \<noteq> 0 \<longrightarrow>
       now' + 1000 \<le> next_retry_ms th' \<and> next_retry_ms th' \<le> now' + 5000 \<and> failed_attempts th' \<noteq> 0)"
proof (intro conjI impI)
  show "led_thread_ok (strip_after update tried shown) now' th'"
    using led_round_ok assms by blast
  show "strip_after update tried shown = Some rendered" if "update rendered = 0 \<and> next_retry_ms th \<le> now'"
    using assms(1,4,5) that
    by (auto simp: status_led_round_def Let_def strip_after_def led_thread_ok_def split: if_splits)
next
  assume t: "tried \<noteq> None \<and> update rendered \<noteq> 0"
  let ?f = "if failed_attempts th < 255 then failed_attempts th + 1 else failed_attempts th"
  have th: "th' = th\<lparr>failed_attempts := ?f, next_retry_ms := now' + uint (status_led_retry_delay_ms ?f)\<rparr>"
    using assms(4,5) t by (auto simp: status_led_round_def Let_def split: if_splits)
  show "now' + 1000 \<le> next_retry_ms th'" and "next_retry_ms th' \<le> now' + 5000"
    using retry_delay_bounds by (simp_all add: th)
  have "failed_attempts th < 255 \<Longrightarrow> failed_attempts th + 1 \<noteq> 0"
    by (auto simp: word_less_nat_alt unat_word_ariths simp flip: unat_eq_zero)
  then show "failed_attempts th' \<noteq> 0" by (auto simp: th)
qed

definition demo_led :: status_led where
  "demo_led = \<lparr>status_led_running = True, status_led_started_ms = 0, status_led_state = led_off\<rparr>"

theorem led_round_shows_rendered_witness:
  "strip_after (\<lambda>_. 0) (snd (status_led_round (\<lambda>_. 0) 10 demo_led led_thread_start)) None =
     Some \<lparr>led_r = 8, led_g = 0, led_b = 0\<rparr>"
proof -
  have r: "status_led_render (led_elapsed 10 demo_led) demo_led = \<lparr>led_r = 8, led_g = 0, led_b = 0\<rparr>"
    by (simp add: status_led_render_def status_led_policy_render_def demo_led_def led_off_def
        flash_active_until_def status_led_policy_render_base_def status_led_policy_base_state_def
        status_led_policy_render_disconnected_def)
  have "led_thread_ok None 0 led_thread_start" by (simp add: led_thread_ok_def led_thread_start_def)
  from led_round_shows_rendered[OF this, of 10 "\<lambda>_. 0" demo_led
      "fst (status_led_round (\<lambda>_. 0) 10 demo_led led_thread_start)"
      "snd (status_led_round (\<lambda>_. 0) 10 demo_led led_thread_start)", OF _ _ _ r[symmetric]]
  show ?thesis by (simp add: led_thread_start_def)
qed

end
