(* ===== verification/Tcp_Nmea_Session.thy ===== *)
theory Tcp_Nmea_Session
  imports Nmea_Bridge_Properties Status_Led
begin

text \<open>
  A TCP session, \<open>src/src/tcp_nmea_session.c\<close>: it opens a sink of the bridge, discards what
  the peer sends, forwards every frame of its sink to the socket, and closes the sink when
  the peer closes or the socket fails.

  Zephyr's sockets are not part of the repository: \<open>zsock_recv\<close> and \<open>zsock_send\<close> are the record
  \<open>sock_ops\<close> over the type of a connection, and the locale \<open>tcp_socket\<close> names what the session relies
  on. Both loops may run for ever on a peer that never stops or never accepts, so they are
  partial functions with the result \<open>None\<close> for that; the locale \<open>live_socket\<close> names the progress
  of the network under which they return.
\<close>

section \<open>Translation\<close>

datatype tcp_nmea_session_result =
    TCP_NMEA_SESSION_ENDED_PEER_CLOSED
  | TCP_NMEA_SESSION_ENDED_SEND_FAILED
  | TCP_NMEA_SESSION_ENDED_SINK_UNAVAILABLE
  | TCP_NMEA_SESSION_ENDED_RX_FAILED

text \<open>A call gives \<open>errno\<close> (\<open>Inl\<close>) when it returns \<open>-1\<close>, and otherwise the received bytes or the number
  of accepted ones.\<close>

record 'w sock_ops =
  zsock_recv :: "nat \<Rightarrow> 'w \<Rightarrow> (int + byte list) \<times> 'w"
  zsock_send :: "byte list \<Rightarrow> 'w \<Rightarrow> (int + nat) \<times> 'w"

definition TCP_NMEA_SESSION_RX_DRAIN_BUF_SIZE :: nat where
  "TCP_NMEA_SESSION_RX_DRAIN_BUF_SIZE = 128"

text \<open>The first component is \<open>None\<close> when the C function returns \<open>false\<close> and the result it stores when it
  returns \<open>true\<close>.\<close>

partial_function (option) drain_socket_rx ::
  "'w sock_ops \<Rightarrow> 'w \<Rightarrow> (tcp_nmea_session_result option \<times> 'w) option"
where
  "drain_socket_rx so w =
     (case zsock_recv so TCP_NMEA_SESSION_RX_DRAIN_BUF_SIZE w of
        (Inr received, w) \<Rightarrow>
          if received \<noteq> [] then drain_socket_rx so w
          else Some (Some TCP_NMEA_SESSION_ENDED_PEER_CLOSED, w)
      | (Inl e, w) \<Rightarrow>
          if e = EAGAIN \<or> e = EWOULDBLOCK then Some (None, w)
          else Some (Some TCP_NMEA_SESSION_ENDED_RX_FAILED, w))"

partial_function (option) send_all_from ::
  "'w sock_ops \<Rightarrow> nmea_frame \<Rightarrow> nat \<Rightarrow> 'w \<Rightarrow> (tcp_nmea_session_result option \<times> 'w) option"
where
  "send_all_from so frame sent_total w =
     (if sent_total < unat (flen frame) then
        (case zsock_send so (take (unat (flen frame) - sent_total) (drop sent_total (fdata frame))) w of
           (Inr sent, w) \<Rightarrow>
             if sent > 0 then send_all_from so frame (sent_total + sent) w
             else Some (Some TCP_NMEA_SESSION_ENDED_SEND_FAILED, w)
         | (Inl e, w) \<Rightarrow>
             if e = EAGAIN \<or> e = EWOULDBLOCK \<or> e = EINTR then send_all_from so frame sent_total w
             else Some (Some TCP_NMEA_SESSION_ENDED_SEND_FAILED, w))
      else Some (None, w))"

definition send_all ::
  "'w sock_ops \<Rightarrow> nmea_frame \<Rightarrow> 'w \<Rightarrow> (tcp_nmea_session_result option \<times> 'w) option"
where
  "send_all so frame w = send_all_from so frame 0 w"

text \<open>The body of \<open>tcp_nmea_session_run\<close> between two points at which other threads may have used the
  bridge: the position in the body, the locals and the socket.\<close>

datatype session_pc =
    At_Open
  | At_Drain
  | At_Take
  | At_Send nmea_frame
  | At_Drain_Again
  | At_End
  | Returned tcp_nmea_session_result

record 'w session =
  se_pc :: session_pc
  se_sink :: nmea_bridge_sink
  se_result :: tcp_nmea_session_result
  se_sock :: 'w

text \<open>What the sessions share: the bridge, the counter and the LED.\<close>

record 'q shared =
  sh_bridge :: "'q bridge"
  active_sessions :: u32
  sh_led :: status_led

definition session_start :: "'w \<Rightarrow> 'w session" where
  "session_start w = \<lparr>se_pc = At_Open, se_sink = \<lparr>sink_id = -1\<rparr>,
     se_result = TCP_NMEA_SESSION_ENDED_PEER_CLOSED, se_sock = w\<rparr>"

text \<open>A call of \<open>drain_socket_rx\<close> in the loop: it ends the session or goes on.\<close>

definition drain_step :: "'w sock_ops \<Rightarrow> session_pc \<Rightarrow> 'w session \<Rightarrow> 'w session option" where
  "drain_step so next s =
     (case drain_socket_rx so (se_sock s) of
        None \<Rightarrow> None
      | Some (Some r, w) \<Rightarrow> Some (s\<lparr>se_sock := w, se_result := r, se_pc := At_End\<rparr>)
      | Some (None, w) \<Rightarrow> Some (s\<lparr>se_sock := w, se_pc := next\<rparr>))"

definition session_step ::
  "('q, nmea_frame) msgq_ops \<Rightarrow> 'w sock_ops \<Rightarrow> string option \<Rightarrow> int \<Rightarrow> 'w session \<Rightarrow> 'q shared
    \<Rightarrow> ('w session \<times> 'q shared) option"
where
  "session_step ops so sink_name now_ms s sh =
     (case se_pc s of
        At_Open \<Rightarrow>
          (case nmea_bridge_sink_open ops (sh_bridge sh) (Some (se_sink s)) sink_name of
             (r, br, h) \<Rightarrow>
               let s = s\<lparr>se_sink := the h\<rparr>; sh = sh\<lparr>sh_bridge := br\<rparr> in
               if r \<noteq> 0 then Some (s\<lparr>se_pc := Returned TCP_NMEA_SESSION_ENDED_SINK_UNAVAILABLE\<rparr>, sh)
               else Some (s\<lparr>se_pc := At_Drain\<rparr>,
                 sh\<lparr>active_sessions := active_sessions sh + 1,
                    sh_led := status_led_tcp_nmea_session_started (sh_led sh)\<rparr>))
      | At_Drain \<Rightarrow> map_option (\<lambda>s. (s, sh)) (drain_step so At_Take s)
      | At_Take \<Rightarrow>
          (case nmea_bridge_sink_take ops (sh_bridge sh) (Some (se_sink s)) True (K_MSEC 250) of
             (Inl ret, br) \<Rightarrow>
               Some (s\<lparr>se_pc := if ret = - ENOTCONN then At_End else At_Drain\<rparr>, sh\<lparr>sh_bridge := br\<rparr>)
           | (Inr frame, br) \<Rightarrow> Some (s\<lparr>se_pc := At_Send frame\<rparr>, sh\<lparr>sh_bridge := br\<rparr>))
      | At_Send frame \<Rightarrow>
          (case send_all so frame (se_sock s) of
             None \<Rightarrow> None
           | Some (Some r, w) \<Rightarrow>
               Some (s\<lparr>se_sock := w, se_result := r, se_pc := At_End\<rparr>,
                 sh\<lparr>sh_led := status_led_nmea_send_failed now_ms (sh_led sh)\<rparr>)
           | Some (None, w) \<Rightarrow>
               Some (s\<lparr>se_sock := w, se_pc := At_Drain_Again\<rparr>,
                 sh\<lparr>sh_led := status_led_nmea_frame_forwarded now_ms (sh_led sh)\<rparr>))
      | At_Drain_Again \<Rightarrow> map_option (\<lambda>s. (s, sh)) (drain_step so At_Drain s)
      | At_End \<Rightarrow>
          (case nmea_bridge_sink_close ops (sh_bridge sh) (Some (se_sink s)) of
             (br, h) \<Rightarrow>
               Some (s\<lparr>se_sink := the h, se_pc := Returned (se_result s)\<rparr>,
                 sh\<lparr>sh_led := status_led_tcp_nmea_session_ended (sh_led sh),
                    active_sessions := active_sessions sh - 1, sh_bridge := br\<rparr>))
      | Returned _ \<Rightarrow> None)"

text \<open>The statistics; \<open>stats\<close> is not NULL.\<close>

record tcp_nmea_session_stats =
  stats_active_sessions :: u32

definition tcp_nmea_session_get_stats :: "'q shared \<Rightarrow> tcp_nmea_session_stats" where
  "tcp_nmea_session_get_stats sh = \<lparr>stats_active_sessions = active_sessions sh\<rparr>"

section \<open>What the session relies on\<close>

text \<open>\<open>wire\<close> is what the connection has accepted for the peer: a send that accepts \<open>n\<close> bytes adds the
  first \<open>n\<close> bytes of its argument, and nothing else changes it.\<close>

locale tcp_socket =
  fixes so :: "'w sock_ops"
    and wire :: "'w \<Rightarrow> byte list"
  assumes send_accepts: "zsock_send so bs w = (Inr n, w') \<Longrightarrow> n \<le> length bs \<and> wire w' = wire w @ take n bs"
    and send_fails: "zsock_send so bs w = (Inl e, w') \<Longrightarrow> wire w' = wire w"
    and recv_silent: "zsock_recv so n w = (r, w') \<Longrightarrow> wire w' = wire w"

text \<open>Progress: a refusal to accept bytes for now uses up \<open>stalls\<close>, received bytes use up \<open>pending\<close>.\<close>

locale live_socket = tcp_socket so wire
  for so :: "'w sock_ops" and wire :: "'w \<Rightarrow> byte list" +
  fixes stalls :: "'w \<Rightarrow> nat" and pending :: "'w \<Rightarrow> nat"
  assumes send_progress: "zsock_send so bs w = (Inl e, w') \<Longrightarrow>
      e = EAGAIN \<or> e = EWOULDBLOCK \<or> e = EINTR \<Longrightarrow> stalls w' < stalls w"
    and recv_progress: "zsock_recv so n w = (Inr bs, w') \<Longrightarrow> bs \<noteq> [] \<Longrightarrow> pending w' < pending w"

text \<open>Induction over the rounds of the two loops.\<close>

lemma drain_socket_rx_induct [consumes 1, case_names more closed idle failed]:
  assumes "drain_socket_rx so w = Some (r, w')"
    and more: "\<And>w bs w1 r w'. zsock_recv so TCP_NMEA_SESSION_RX_DRAIN_BUF_SIZE w = (Inr bs, w1) \<Longrightarrow> bs \<noteq> [] \<Longrightarrow>
      P w1 r w' \<Longrightarrow> P w r w'"
    and closed: "\<And>w w1. zsock_recv so TCP_NMEA_SESSION_RX_DRAIN_BUF_SIZE w = (Inr [], w1) \<Longrightarrow>
      P w (Some TCP_NMEA_SESSION_ENDED_PEER_CLOSED) w1"
    and idle: "\<And>w e w1. zsock_recv so TCP_NMEA_SESSION_RX_DRAIN_BUF_SIZE w = (Inl e, w1) \<Longrightarrow>
      e = EAGAIN \<or> e = EWOULDBLOCK \<Longrightarrow> P w None w1"
    and failed: "\<And>w e w1. zsock_recv so TCP_NMEA_SESSION_RX_DRAIN_BUF_SIZE w = (Inl e, w1) \<Longrightarrow>
      e \<noteq> EAGAIN \<and> e \<noteq> EWOULDBLOCK \<Longrightarrow> P w (Some TCP_NMEA_SESSION_ENDED_RX_FAILED) w1"
  shows "P w r w'"
proof -
  have "so = so \<longrightarrow> P w (fst (r, w')) (snd (r, w'))"
  proof (rule drain_socket_rx.raw_induct[where P = "\<lambda>so' w y. so' = so \<longrightarrow> P w (fst y) (snd y)", OF _ assms(1)])
    fix f so' w y
    assume IH: "\<And>so' w y. f so' w = Some y \<Longrightarrow> so' = so \<longrightarrow> P w (fst y) (snd y)"
      and *: "(case zsock_recv so' TCP_NMEA_SESSION_RX_DRAIN_BUF_SIZE w of
        (Inl e, w) \<Rightarrow> if e = EAGAIN \<or> e = EWOULDBLOCK then Some (None, w)
            else Some (Some TCP_NMEA_SESSION_ENDED_RX_FAILED, w)
      | (Inr received, w) \<Rightarrow> if received \<noteq> [] then f so' w
          else Some (Some TCP_NMEA_SESSION_ENDED_PEER_CLOSED, w)) = Some y"
    show "so' = so \<longrightarrow> P w (fst y) (snd y)"
      using * IH more closed idle failed
      by (cases y) (auto split: prod.splits sum.splits if_splits)
  qed
  then show ?thesis by simp
qed

lemma send_all_from_induct [consumes 1, case_names complete accepted refused stuck failed]:
  assumes "send_all_from so frame n w = Some (r, w')"
    and don: "\<And>n w. unat (flen frame) \<le> n \<Longrightarrow> P n w None w"
    and accepted: "\<And>n w k w1 r w'. n < unat (flen frame) \<Longrightarrow>
      zsock_send so (take (unat (flen frame) - n) (drop n (fdata frame))) w = (Inr k, w1) \<Longrightarrow> 0 < k \<Longrightarrow>
      P (n + k) w1 r w' \<Longrightarrow> P n w r w'"
    and refused: "\<And>n w e w1 r w'. n < unat (flen frame) \<Longrightarrow>
      zsock_send so (take (unat (flen frame) - n) (drop n (fdata frame))) w = (Inl e, w1) \<Longrightarrow>
      P n w1 r w' \<Longrightarrow> P n w r w'"
    and stuck: "\<And>n w w1. n < unat (flen frame) \<Longrightarrow>
      zsock_send so (take (unat (flen frame) - n) (drop n (fdata frame))) w = (Inr 0, w1) \<Longrightarrow>
      P n w (Some TCP_NMEA_SESSION_ENDED_SEND_FAILED) w1"
    and failed: "\<And>n w e w1. n < unat (flen frame) \<Longrightarrow>
      zsock_send so (take (unat (flen frame) - n) (drop n (fdata frame))) w = (Inl e, w1) \<Longrightarrow>
      P n w (Some TCP_NMEA_SESSION_ENDED_SEND_FAILED) w1"
  shows "P n w r w'"
proof -
  have "so = so \<and> frame = frame \<longrightarrow> P n w (fst (r, w')) (snd (r, w'))"
  proof (rule send_all_from.raw_induct[where P =
      "\<lambda>so' fr n w y. so' = so \<and> fr = frame \<longrightarrow> P n w (fst y) (snd y)", OF _ assms(1)])
    fix f so' fr n w y
    assume IH: "\<And>so' fr n w y. f so' fr n w = Some y \<Longrightarrow> so' = so \<and> fr = frame \<longrightarrow> P n w (fst y) (snd y)"
      and *: "(if n < unat (flen fr)
         then case zsock_send so' (take (unat (flen fr) - n) (drop n (fdata fr))) w of
           (Inl e, w) \<Rightarrow> if e = EAGAIN \<or> e = EWOULDBLOCK \<or> e = EINTR then f so' fr n w
             else Some (Some TCP_NMEA_SESSION_ENDED_SEND_FAILED, w)
         | (Inr sent, w) \<Rightarrow> if 0 < sent then f so' fr (n + sent) w
             else Some (Some TCP_NMEA_SESSION_ENDED_SEND_FAILED, w)
         else Some (None, w)) = Some y"
    show "so' = so \<and> fr = frame \<longrightarrow> P n w (fst y) (snd y)"
      using * IH don accepted refused stuck failed
      by (cases y) (auto split: prod.splits sum.splits if_splits)
  qed
  then show ?thesis by simp
qed

lemma drop_take_split:
  assumes "n + k \<le> m"
  shows "drop n (take (n + k) xs) @ drop (n + k) (take m xs) = drop n (take m xs)"
proof -
  have "drop n (take (n + k) xs) = take k (drop n (take m xs))"
    using assms by (simp add: drop_take)
  moreover have "drop (n + k) (take m xs) = drop k (drop n (take m xs))" by (simp add: add.commute)
  ultimately show ?thesis by (simp only: append_take_drop_id)
qed

context tcp_socket
begin

lemma drain_wire:
  assumes "drain_socket_rx so w = Some (r, w')"
  shows "wire w' = wire w \<and> r \<noteq> Some TCP_NMEA_SESSION_ENDED_SEND_FAILED \<and>
    r \<noteq> Some TCP_NMEA_SESSION_ENDED_SINK_UNAVAILABLE"
  using assms by (induction rule: drain_socket_rx_induct) (auto dest: recv_silent)

text \<open>Whatever \<open>send_all\<close> returns, the wire got a prefix of the frame: all of it on success, less on
  failure.\<close>

lemma send_all_from_wire:
  assumes "send_all_from so frame n w = Some (r, w')" and "n \<le> unat (flen frame)"
    and "length (fdata frame) = unat (flen frame)"
  shows "\<exists>m \<ge> n. m \<le> unat (flen frame) \<and> wire w' = wire w @ drop n (take m (fdata frame)) \<and>
    (if r = None then m = unat (flen frame)
     else r = Some TCP_NMEA_SESSION_ENDED_SEND_FAILED \<and> m < unat (flen frame))"
  using assms(1,2)
proof (induction rule: send_all_from_induct)
  case (accepted n w k w1 r w')
  have k: "k \<le> unat (flen frame) - n" "wire w1 = wire w @ drop n (take (n + k) (fdata frame))"
    using send_accepts[OF accepted(2)] assms(3) by (auto simp: take_drop add.commute)
  have nk: "n + k \<le> unat (flen frame)" using k(1) accepted(1) by simp
  obtain m where m: "n + k \<le> m" "m \<le> unat (flen frame)" "wire w' = wire w1 @ drop (n + k) (take m (fdata frame))"
      "if r = None then m = unat (flen frame)
       else r = Some TCP_NMEA_SESSION_ENDED_SEND_FAILED \<and> m < unat (flen frame)"
    using accepted.IH nk by blast
  with k m drop_take_split[OF m(1), of "fdata frame"] show ?case by (intro exI[of _ m]) auto
next
  case (complete n w)
  then show ?case by (intro exI[of _ "unat (flen frame)"]) (simp add: assms(3))
next
  case (refused n w e w1 r w')
  then show ?case using send_fails[OF refused(2)] by simp
next
  case (stuck n w w1)
  then show ?case using send_accepts[OF stuck(2)] by (intro exI[of _ n]) simp
next
  case (failed n w e w1)
  then show ?case using send_fails[OF failed(2)] by (intro exI[of _ n]) simp
qed

lemma send_all_wire:
  assumes "send_all so frame w = Some (r, w')" and "length (fdata frame) = unat (flen frame)"
  shows "if r = None then wire w' = wire w @ fdata frame
    else r = Some TCP_NMEA_SESSION_ENDED_SEND_FAILED \<and>
      (\<exists>m < length (fdata frame). wire w' = wire w @ take m (fdata frame))"
proof -
  obtain m where "m \<le> unat (flen frame)" "wire w' = wire w @ take m (fdata frame)"
      "if r = None then m = unat (flen frame)
       else r = Some TCP_NMEA_SESSION_ENDED_SEND_FAILED \<and> m < unat (flen frame)"
    using send_all_from_wire[OF assms(1)[unfolded send_all_def] _ assms(2)] by auto
  then show ?thesis using assms(2) by (auto split: if_splits)
qed

end

context live_socket
begin

lemma drain_returns: "\<exists>y. drain_socket_rx so w = Some y"
proof (induction "pending w" arbitrary: w rule: less_induct)
  case less
  show ?case
  proof (cases "zsock_recv so TCP_NMEA_SESSION_RX_DRAIN_BUF_SIZE w")
    case (Pair x w1)
    then show ?thesis
      using less recv_progress by (subst drain_socket_rx.simps) (auto split: sum.splits)
  qed
qed

lemma send_all_from_returns: "\<exists>y. send_all_from so frame n w = Some y"
proof (induction "unat (flen frame) - n" arbitrary: n w rule: less_induct)
  case (less n)
  note shorter = less
  show ?case
  proof (induction "stalls w" arbitrary: w rule: less_induct)
    case (less w)
    note stalled = less
    obtain x w1 where x: "zsock_send so (take (unat (flen frame) - n) (drop n (fdata frame))) w = (x, w1)"
      by fastforce
    show ?case
    proof (cases x)
      case (Inl e)
      then show ?thesis
        using x stalled[of w1] send_progress[OF x[unfolded Inl]] by (subst send_all_from.simps) auto
    next
      case (Inr k)
      then show ?thesis
        using x shorter[of "n + k" w1] by (subst send_all_from.simps) auto
    qed
  qed
qed

end

section \<open>A scripted connection\<close>

text \<open>A connection that answers the calls in a given order: every send takes the next answer (a refusal,
  or the most bytes it accepts) and accepts everything when there is none left; every receive
  takes the next answer and has nothing when there is none left.\<close>

record script =
  sc_wire :: "byte list"
  sc_send :: "(int + nat) list"
  sc_recv :: "(int + byte list) list"

definition script_send :: "byte list \<Rightarrow> script \<Rightarrow> (int + nat) \<times> script" where
  "script_send bs w =
     (case sc_send w of
        [] \<Rightarrow> (Inr (length bs), w\<lparr>sc_wire := sc_wire w @ bs\<rparr>)
      | Inl e # rest \<Rightarrow> (Inl e, w\<lparr>sc_send := rest\<rparr>)
      | Inr n # rest \<Rightarrow> (Inr (min n (length bs)), w\<lparr>sc_wire := sc_wire w @ take n bs, sc_send := rest\<rparr>))"

definition script_recv :: "nat \<Rightarrow> script \<Rightarrow> (int + byte list) \<times> script" where
  "script_recv n w =
     (case sc_recv w of
        [] \<Rightarrow> (Inl EAGAIN, w)
      | Inl e # rest \<Rightarrow> (Inl e, w\<lparr>sc_recv := rest\<rparr>)
      | Inr bs # rest \<Rightarrow> (Inr (take n bs), w\<lparr>sc_recv := rest\<rparr>))"

definition script_ops :: "script sock_ops" where
  "script_ops = \<lparr>zsock_recv = script_recv, zsock_send = script_send\<rparr>"

lemma script_ops_simps [simp]: "zsock_recv script_ops = script_recv" "zsock_send script_ops = script_send"
  by (simp_all add: script_ops_def)

interpretation scripted: live_socket script_ops sc_wire "\<lambda>w. length (sc_send w)" "\<lambda>w. length (sc_recv w)"
  by unfold_locales
    (auto simp: script_send_def script_recv_def min_def split: list.splits sum.splits)

section \<open>Properties\<close>

text \<open>C20. Sending a frame ends on every connection that makes progress, however many partial sends and
  refusals come before: on success the peer got exactly the bytes of the frame, on failure a
  proper prefix of them and nothing after it.\<close>

theorem send_all_returns:
  assumes "live_socket so wire stalls pending" and "frame_ok cfg frame"
  shows "\<exists>r w'. send_all so frame w = Some (r, w') \<and>
    (case r of None \<Rightarrow> wire w' = wire w @ fdata frame
     | Some e \<Rightarrow> e = TCP_NMEA_SESSION_ENDED_SEND_FAILED \<and>
         (\<exists>m < length (fdata frame). wire w' = wire w @ take m (fdata frame)))"
proof -
  obtain r w' where "send_all so frame w = Some (r, w')"
    using live_socket.send_all_from_returns[OF assms(1), of frame 0 w] by (auto simp: send_all_def)
  moreover from tcp_socket.send_all_wire[OF live_socket.axioms(1)[OF assms(1)] this] assms(2)
  have "case r of None \<Rightarrow> wire w' = wire w @ fdata frame
     | Some e \<Rightarrow> e = TCP_NMEA_SESSION_ENDED_SEND_FAILED \<and>
         (\<exists>m < length (fdata frame). wire w' = wire w @ take m (fdata frame))"
    by (auto simp: frame_ok_def split: option.splits)
  ultimately show ?thesis by blast
qed

text \<open>Three bytes of five, a refusal, the rest; and a connection that breaks after three.\<close>

definition five :: nmea_frame where
  "five = \<lparr>flen = 5, fdata = [36, 65, 66, 13, 10]\<rparr>"

definition slow_peer :: script where
  "slow_peer = \<lparr>sc_wire = [], sc_send = [Inr 3, Inl EAGAIN], sc_recv = []\<rparr>"

definition broken_peer :: script where
  "broken_peer = \<lparr>sc_wire = [], sc_send = [Inr 3, Inl ENOTCONN], sc_recv = []\<rparr>"

lemma five_ok: "frame_ok small_cfg five"
  by (simp add: frame_ok_def five_def small_cfg_def)

theorem send_all_returns_witness:
  "(\<exists>w. send_all script_ops five slow_peer = Some (None, w) \<and> sc_wire w = [36, 65, 66, 13, 10]) \<and>
   (\<exists>w. send_all script_ops five broken_peer = Some (Some TCP_NMEA_SESSION_ENDED_SEND_FAILED, w) \<and>
      (\<exists>m < 5. sc_wire w = take m [36, 65, 66, 13, 10]))"
proof -
  have "\<exists>w. send_all script_ops five slow_peer = Some (None, w)"
    by (simp add: send_all_def send_all_from.simps script_send_def five_def slow_peer_def errno_defs)
  moreover have "\<exists>w. send_all script_ops five broken_peer = Some (Some TCP_NMEA_SESSION_ENDED_SEND_FAILED, w)"
    by (simp add: send_all_def send_all_from.simps script_send_def five_def broken_peer_def errno_defs)
  moreover have "\<exists>m < 5. sc_wire w = take m [36, 65, 66, 13, 10]"
    if w: "send_all script_ops five broken_peer = Some (Some TCP_NMEA_SESSION_ENDED_SEND_FAILED, w)" for w
  proof -
    obtain m where "m < length (fdata five)" "sc_wire w = take m (fdata five)"
      using send_all_returns[OF scripted.live_socket_axioms five_ok, of broken_peer] w
      by (auto simp: broken_peer_def)
    then show ?thesis by (intro exI[of _ m]) (simp add: five_def)
  qed
  ultimately show ?thesis
    using send_all_returns[OF scripted.live_socket_axioms five_ok, of slow_peer]
    by (auto simp: slow_peer_def) (simp add: five_def)
qed

end
