(* ===== verification/Web_Http.thy ===== *)
theory Web_Http
  imports C_Format Tcp_Nmea_Session
begin

text \<open>
  The request parser of the web application, \<open>src/src/web_app.c\<close>: it receives a request into a buffer
  of 1536 bytes until the header is complete, and finds method, path, \<open>Content-Length\<close> and body in it.

  A pointer into the buffer is its index. Every read is checked, \<open>None\<close> says that it left the buffer; the parser
  writes NULs over line ends, so it gives the buffer back. The receiving loop is a partial function because a
  receive may be interrupted for ever. The property at the end puts all of it together: whatever pieces a
  well-formed request arrives in, the parser finds exactly what the client wrote.
\<close>

section \<open>Translation\<close>

definition WEB_APP_RX_BUF_SIZE :: nat where "WEB_APP_RX_BUF_SIZE = 1536"

record http_request =
  rq_method :: nat
  method_len :: nat
  rq_path :: nat
  path_len :: nat
  content_length :: u32
  has_content_length :: bool
  rq_body :: nat
  body_len :: nat

text \<open>\<open>strstr(&buf[i], "\r\n")\<close>, \<open>memchr(&buf[i], c, n)\<close> and \<open>strchr(&buf[i], c)\<close>.\<close>

function find_crlf :: "byte list \<Rightarrow> nat \<Rightarrow> nat option option" where
  "find_crlf buf i =
     (case rd buf i of
        None \<Rightarrow> None
      | Some c \<Rightarrow>
          if c = 0 then Some None
          else if c = 13 then
            (case rd buf (Suc i) of
               None \<Rightarrow> None
             | Some d \<Rightarrow> if d = 10 then Some (Some i) else find_crlf buf (Suc i))
          else find_crlf buf (Suc i))"
  by pat_completeness auto
termination
  by (relation "measure (\<lambda>(buf, i). length buf - i)") (auto simp: rd_def split: if_splits)

fun memchr_at :: "byte list \<Rightarrow> nat \<Rightarrow> byte \<Rightarrow> nat \<Rightarrow> nat option option" where
  "memchr_at buf i c 0 = Some None"
| "memchr_at buf i c (Suc n) =
     do { x \<leftarrow> rd buf i; if x = c then Some (Some i) else memchr_at buf (Suc i) c n }"

function strchr_at :: "byte list \<Rightarrow> nat \<Rightarrow> byte \<Rightarrow> nat option option" where
  "strchr_at buf i c =
     (case rd buf i of
        None \<Rightarrow> None
      | Some x \<Rightarrow> if x = c then Some (Some i) else if x = 0 then Some None else strchr_at buf (Suc i) c)"
  by pat_completeness auto
termination
  by (relation "measure (\<lambda>(buf, i, c). length buf - i)") (auto simp: rd_def split: if_splits)

declare find_crlf.simps [simp del] strchr_at.simps [simp del]

text \<open>\<open>token_equals(&buf[i], n, expected)\<close>.\<close>

definition token_equals :: "byte list \<Rightarrow> nat \<Rightarrow> nat \<Rightarrow> string \<Rightarrow> bool option" where
  "token_equals buf i token_len expected =
     (if length expected = token_len then strncmp_eq buf i (bytes_of expected @ [0]) 0 token_len else Some False)"

definition ascii_lower :: "byte \<Rightarrow> byte" where
  "ascii_lower c = (if 65 \<le> c \<and> c \<le> 90 then c - 65 + 97 else c)"

fun header_name_loop :: "byte list \<Rightarrow> nat \<Rightarrow> byte list \<Rightarrow> bool option" where
  "header_name_loop buf i [] = Some True"
| "header_name_loop buf i (want # ws) =
     do { got \<leftarrow> rd buf i;
          if ascii_lower got \<noteq> ascii_lower want then Some False else header_name_loop buf (Suc i) ws }"

definition header_name_equals :: "byte list \<Rightarrow> nat \<Rightarrow> nat \<Rightarrow> string \<Rightarrow> bool option" where
  "header_name_equals buf i name_len expected =
     (if length expected \<noteq> name_len then Some False else header_name_loop buf i (bytes_of expected))"

definition header_end_at :: "byte list \<Rightarrow> nat \<Rightarrow> bool option" where
  "header_end_at request i =
     do { a \<leftarrow> rd request i;
          if a \<noteq> 13 then Some False
          else do { b \<leftarrow> rd request (i + 1);
                    if b \<noteq> 10 then Some False
                    else do { c \<leftarrow> rd request (i + 2);
                              if c \<noteq> 13 then Some False
                              else do { d \<leftarrow> rd request (i + 3); Some (d = 10) } } } }"

text \<open>The loop with \<open>n\<close> rounds left.\<close>

fun find_header_end_from :: "byte list \<Rightarrow> nat \<Rightarrow> nat \<Rightarrow> nat option option" where
  "find_header_end_from request i 0 = Some None"
| "find_header_end_from request i (Suc n) =
     do { found \<leftarrow> header_end_at request i;
          if found then Some (Some i) else find_header_end_from request (Suc i) n }"

definition find_header_end :: "byte list \<Rightarrow> nat \<Rightarrow> nat option option" where
  "find_header_end request len =
     (if len < 4 then Some None else find_header_end_from request 0 (Suc (len - 4)))"

function skip_blanks :: "byte list \<Rightarrow> nat \<Rightarrow> nat option" where
  "skip_blanks buf i =
     (case rd buf i of
        None \<Rightarrow> None
      | Some c \<Rightarrow> if c = 32 \<or> c = 9 then skip_blanks buf (Suc i) else Some i)"
  by pat_completeness auto
termination
  by (relation "measure (\<lambda>(buf, i). length buf - i)") (auto simp: rd_def split: if_splits)

text \<open>The loop over the digits: \<open>Inl\<close> is the early return, \<open>Inr\<close> the pointer, the value and \<open>saw_digit\<close>.
  \<open>max_word\<close> is \<open>SIZE_MAX\<close>.\<close>

function content_digits :: "byte list \<Rightarrow> nat \<Rightarrow> u32 \<Rightarrow> bool \<Rightarrow> (rc + nat \<times> u32 \<times> bool) option" where
  "content_digits buf i parsed saw_digit =
     (case rd buf i of
        None \<Rightarrow> None
      | Some c \<Rightarrow>
          if 48 \<le> c \<and> c \<le> 57 then
            (let digit = ucast (c - 48) in
             if parsed > (- 1 - digit) div 10 then Some (Inl (- EOVERFLOW))
             else content_digits buf (Suc i) (parsed * 10 + digit) True)
          else Some (Inr (i, parsed, saw_digit)))"
  by pat_completeness auto
termination
  by (relation "measure (\<lambda>(buf, i, p, s). length buf - i)") (auto simp: rd_def split: if_splits)

declare skip_blanks.simps [simp del] content_digits.simps [simp del]

definition parse_content_length :: "byte list \<Rightarrow> nat \<Rightarrow> (rc + u32) option" where
  "parse_content_length buf i =
     do {
       i \<leftarrow> skip_blanks buf i;
       x \<leftarrow> content_digits buf i 0 False;
       (case x of
          Inl e \<Rightarrow> Some (Inl e)
        | Inr (i, parsed, saw_digit) \<Rightarrow>
            do { i \<leftarrow> skip_blanks buf i;
                 c \<leftarrow> (if saw_digit then rd buf i else Some 0);
                 Some (if \<not> saw_digit \<or> c \<noteq> 0 then Inl (- EINVAL) else Inr parsed) })
     }"

lemma find_crlf_bounds: "find_crlf buf i = Some (Some e) \<Longrightarrow> i \<le> e \<and> Suc e < length buf"
proof (induction buf i rule: find_crlf.induct)
  case (1 buf i)
  show ?case
    using 1(3) 1(1,2)
    by (subst (asm) find_crlf.simps) (fastforce simp: rd_def split: if_splits)
qed

text \<open>The loop over the header lines: the return value, the request, the buffer.\<close>

function parse_headers :: "byte list \<Rightarrow> nat \<Rightarrow> http_request \<Rightarrow> (rc \<times> http_request \<times> byte list) option" where
  "parse_headers buf line parsed =
     (case rd buf line of
        None \<Rightarrow> None
      | Some c \<Rightarrow>
          if c = 0 then Some (0, parsed, buf)
          else
            (case find_crlf buf line of
               None \<Rightarrow> None
             | Some None \<Rightarrow> Some (0, parsed, buf)
             | Some (Some line_end) \<Rightarrow>
                 if line_end = line then Some (0, parsed, buf)
                 else
                   (let buf = buf[line_end := 0] in
                    case strchr_at buf line 58 of
                      None \<Rightarrow> None
                    | Some None \<Rightarrow> parse_headers buf (line_end + 2) parsed
                    | Some (Some colon) \<Rightarrow>
                        (case header_name_equals buf line (colon - line) ''Content-Length'' of
                           None \<Rightarrow> None
                         | Some False \<Rightarrow> parse_headers buf (line_end + 2) parsed
                         | Some True \<Rightarrow>
                             (case parse_content_length buf (colon + 1) of
                                None \<Rightarrow> None
                              | Some (Inl ret) \<Rightarrow> Some (ret, parsed, buf)
                              | Some (Inr n) \<Rightarrow>
                                  parse_headers buf (line_end + 2)
                                    (parsed\<lparr>content_length := n, has_content_length := True\<rparr>))))))"
  by pat_completeness auto
termination
  by (relation "measure (\<lambda>(buf, line, p). length buf - line)") (auto dest!: find_crlf_bounds)

declare parse_headers.simps [simp del]

definition parse_http_request ::
  "byte list \<Rightarrow> nat \<Rightarrow> nat \<Rightarrow> (rc \<times> http_request \<times> byte list) option"
where
  "parse_http_request request received header_len =
     (let parsed = \<lparr>rq_method = 0, method_len = 0, rq_path = 0, path_len = 0, content_length = 0,
                    has_content_length = False, rq_body = 0, body_len = 0\<rparr>
      in do {
        x \<leftarrow> find_crlf request 0;
        (case x of
           None \<Rightarrow> Some (- EINVAL, parsed, request)
         | Some line_end \<Rightarrow>
             do {
               x \<leftarrow> memchr_at request 0 32 line_end;
               (case x of
                  None \<Rightarrow> Some (- EINVAL, parsed, request)
                | Some method_end \<Rightarrow>
                    let parsed = parsed\<lparr>rq_method := 0, method_len := method_end, rq_path := method_end + 1\<rparr> in
                    do {
                      x \<leftarrow> memchr_at request (rq_path parsed) 32 (line_end - rq_path parsed);
                      (case x of
                         None \<Rightarrow> Some (- EINVAL, parsed, request)
                       | Some path_end \<Rightarrow>
                           do {
                             (ret, parsed, request) \<leftarrow> parse_headers request (line_end + 2)
                               (parsed\<lparr>path_len := path_end - rq_path parsed\<rparr>);
                             Some (if ret \<noteq> 0 then (ret, parsed, request)
                                   else (0, parsed\<lparr>rq_body := header_len, body_len := received - header_len\<rparr>, request))
                           })
                    })
             })
      })"

partial_function (option) read_http_request ::
  "'w sock_ops \<Rightarrow> byte list \<Rightarrow> nat \<Rightarrow> nat \<Rightarrow> 'w \<Rightarrow> ((rc \<times> http_request option \<times> byte list) \<times> 'w) option"
where
  "read_http_request so request request_size received w =
     (case zsock_recv so (request_size - received) w of
        (Inl e, w) \<Rightarrow>
          if e = EINTR then read_http_request so request request_size received w
          else Some ((- ENOTCONN, None, request), w)
      | (Inr chunk, w) \<Rightarrow>
          if chunk = [] then Some ((- ENOTCONN, None, request), w)
          else
            (case memcpy request received chunk 0 (length chunk) of
               None \<Rightarrow> None
             | Some request \<Rightarrow>
                 let received = received + length chunk in
                 (case find_header_end request received of
                    None \<Rightarrow> None
                  | Some (Some header_end) \<Rightarrow>
                      let header_len = header_end + 4;
                          request = request[header_len - 2 := 0]
                      in (case parse_http_request request received header_len of
                            None \<Rightarrow> None
                          | Some (ret, parsed, request) \<Rightarrow> Some ((ret, Some parsed, request), w))
                  | Some None \<Rightarrow>
                      if received = request_size then Some ((- EOVERFLOW, None, request), w)
                      else read_http_request so request request_size received w)))"

section \<open>The scanning functions\<close>

lemma nth_append_right [simp]: "rd (pre @ x # post) (length pre) = Some x"
  by (simp add: rd_def)

lemma find_crlf_eq:
  assumes "0 \<notin> set s" and "13 \<notin> set s"
  shows "find_crlf (pre @ s @ 13 # 10 # post) (length pre) = Some (Some (length pre + length s))"
  using assms
proof (induction s arbitrary: pre)
  case Nil
  show ?case by (subst find_crlf.simps) (simp add: rd_def nth_append)
next
  case (Cons c s)
  have "find_crlf ((pre @ [c]) @ s @ 13 # 10 # post) (length (pre @ [c])) = Some (Some (length (pre @ [c]) + length s))"
    using Cons.prems by (intro Cons.IH) auto
  then show ?case using Cons.prems by (subst find_crlf.simps) simp
qed

lemma find_crlf_nul: "find_crlf (pre @ 0 # post) (length pre) = Some None"
  by (subst find_crlf.simps) simp

lemma memchr_at_eq:
  assumes "c \<notin> set s" and "length s < n"
  shows "memchr_at (pre @ s @ c # post) (length pre) c n = Some (Some (length pre + length s))"
  using assms
proof (induction s arbitrary: pre n)
  case Nil
  then show ?case by (cases n) simp_all
next
  case (Cons x s)
  obtain m where m: "n = Suc m" using Cons.prems by (cases n) auto
  have "memchr_at ((pre @ [x]) @ s @ c # post) (length (pre @ [x])) c m = Some (Some (length (pre @ [x]) + length s))"
    using Cons.prems m by (intro Cons.IH) auto
  then show ?case using Cons.prems m by auto
qed

lemma strchr_at_eq:
  assumes "0 \<notin> set s" and "c \<notin> set s"
  shows "strchr_at (pre @ s @ c # post) (length pre) c = Some (Some (length pre + length s))"
  using assms
proof (induction s arbitrary: pre)
  case Nil
  show ?case by (subst strchr_at.simps) simp
next
  case (Cons x s)
  have "strchr_at ((pre @ [x]) @ s @ c # post) (length (pre @ [x])) c = Some (Some (length (pre @ [x]) + length s))"
    using Cons.prems by (intro Cons.IH) auto
  then show ?case using Cons.prems by (subst strchr_at.simps) auto
qed

lemma header_name_loop_eq:
  "length name = length ws \<Longrightarrow>
   header_name_loop (pre @ name @ post) (length pre) ws = Some (map ascii_lower name = map ascii_lower ws)"
proof (induction ws arbitrary: pre name)
  case (Cons w ws)
  obtain c cs where c: "name = c # cs" using Cons.prems by (cases name) auto
  have "header_name_loop ((pre @ [c]) @ cs @ post) (length (pre @ [c])) ws = Some (map ascii_lower cs = map ascii_lower ws)"
    using Cons.prems c by (intro Cons.IH) simp
  then show ?case using c by simp
qed simp

lemma header_name_eq:
  "header_name_equals (pre @ name @ post) (length pre) (length name) expected =
     Some (map ascii_lower name = map ascii_lower (bytes_of expected))"
  using header_name_loop_eq[of name "bytes_of expected" pre post]
  by (auto simp: header_name_equals_def dest: map_eq_imp_length_eq)

section \<open>The value of Content-Length\<close>

definition blank :: "byte \<Rightarrow> bool" where
  "blank c \<longleftrightarrow> c = 32 \<or> c = 9"

definition digit :: "byte \<Rightarrow> bool" where
  "digit c \<longleftrightarrow> 48 \<le> c \<and> c \<le> 57"

text \<open>What the text of the value means: an error, or the number.\<close>

definition length_value :: "byte list \<Rightarrow> rc + u32" where
  "length_value v =
     (let t = dropWhile blank v; ds = takeWhile digit t in
      if nat_value ds \<ge> 2 ^ 32 then Inl (- EOVERFLOW)
      else if ds = [] \<or> dropWhile blank (dropWhile digit t) \<noteq> [] then Inl (- EINVAL)
      else Inr (of_nat (nat_value ds)))"

lemma skip_blanks_eq:
  assumes "0 \<notin> set v"
  shows "skip_blanks (pre @ v @ 0 # post) (length pre) = Some (length pre + length (takeWhile blank v))"
  using assms
proof (induction v arbitrary: pre)
  case Nil
  show ?case by (subst skip_blanks.simps) simp
next
  case (Cons c v)
  have "skip_blanks ((pre @ [c]) @ v @ 0 # post) (length (pre @ [c])) = Some (length (pre @ [c]) + length (takeWhile blank v))"
    using Cons.prems by (intro Cons.IH) auto
  then show ?case using Cons.prems by (subst skip_blanks.simps) (auto simp: blank_def)
qed

text \<open>The number before a digit, its check and the number after it.\<close>

lemma unat_digit_of: "digit c \<Longrightarrow> unat (ucast (c - 48) :: u32) = unat c - 48 \<and> unat c - 48 < 10"
proof -
  assume "digit c"
  then have c: "48 \<le> unat c" "unat c \<le> 57" by (simp_all add: digit_def word_le_nat_alt)
  then have "unat (c - 48) = unat c - 48" by (simp add: unat_sub word_le_nat_alt)
  moreover have "unat (ucast (c - 48) :: u32) = unat (c - 48)"
    unfolding unsigned_ucast_eq
    by (simp, rule take_bit_nat_eq_self, rule order_less_trans[OF unat_byte_less]) simp
  ultimately show ?thesis using c by simp
qed

lemma overflow_check:
  fixes p d :: u32
  assumes "unat d < 10"
  shows "p > (- 1 - d) div 10 \<longleftrightarrow> unat p * 10 + unat d \<ge> 2 ^ 32"
proof -
  have "unat (- 1 - d) = 2 ^ 32 - 1 - unat d"
    by (simp add: unat_sub unsigned_minus_1_eq_mask mask_eq_exp_minus_1)
  then have "unat ((- 1 - d) div 10) = (2 ^ 32 - 1 - unat d) div 10"
    by (simp add: unat_div)
  then show ?thesis using assms by (simp add: word_less_nat_alt) linarith
qed

definition value_from :: "nat \<Rightarrow> byte list \<Rightarrow> nat" where
  "value_from a ds = foldl (\<lambda>v d. v * 10 + (unat d - 48)) a ds"

lemma value_from_ge: "a \<le> value_from a ds"
proof (induction ds arbitrary: a)
  case (Cons d ds)
  show ?case using Cons[of "a * 10 + (unat d - 48)"] by (simp add: value_from_def)
qed (simp add: value_from_def)

lemma content_digits_eq:
  assumes "0 \<notin> set v"
  shows "content_digits (pre @ v @ 0 # post) (length pre) p saw =
    Some (let ds = takeWhile digit v in
          if value_from (unat p) ds \<ge> 2 ^ 32 then Inl (- EOVERFLOW)
          else Inr (length pre + length ds, of_nat (value_from (unat p) ds), saw \<or> ds \<noteq> []))"
  using assms
proof (induction v arbitrary: pre p saw)
  case Nil
  show ?case using unat_less_len[of p] by (subst content_digits.simps) (simp add: value_from_def)
next
  case (Cons c v)
  show ?case
  proof (cases "digit c")
    case False
    then show ?thesis using unat_less_len[of p]
      by (subst content_digits.simps) (auto simp: digit_def value_from_def)
  next
    case True
    define d :: u32 where "d = ucast (c - 48)"
    have d: "unat d = unat c - 48" "unat d < 10" using unat_digit_of[OF True] by (simp_all add: d_def)
    have vf: "value_from (unat p) (takeWhile digit (c # v)) =
        value_from (unat p * 10 + unat d) (takeWhile digit v)"
      using True d by (simp add: value_from_def)
    have unf: "content_digits (pre @ (c # v) @ 0 # post) (length pre) p saw =
        (if p > (- 1 - d) div 10 then Some (Inl (- EOVERFLOW))
         else content_digits ((pre @ [c]) @ v @ 0 # post) (length (pre @ [c])) (p * 10 + d) True)"
      using True by (subst content_digits.simps) (simp add: digit_def d_def Let_def)
    show ?thesis
    proof (cases "unat p * 10 + unat d \<ge> 2 ^ 32")
      case big: True
      have "value_from (unat p) (takeWhile digit (c # v)) \<ge> 2 ^ 32"
        unfolding vf by (rule order_trans[OF big value_from_ge])
      then show ?thesis using overflow_check[OF d(2), of p] big unfolding unf by (simp add: Let_def)
    next
      case small: False
      then have pd: "unat (p * 10 + d) = unat p * 10 + unat d"
        by (simp add: unat_word_ariths)
      have "content_digits (pre @ (c # v) @ 0 # post) (length pre) p saw =
          Some (let ds = takeWhile digit v in
            if value_from (unat p * 10 + unat d) ds \<ge> 2 ^ 32 then Inl (- EOVERFLOW)
            else Inr (length (pre @ [c]) + length ds, of_nat (value_from (unat p * 10 + unat d) ds), True \<or> ds \<noteq> []))"
        unfolding unf using overflow_check[OF d(2), of p] small Cons.IH[of "pre @ [c]" "p * 10 + d" True, unfolded pd] Cons.prems
        by simp
      then show ?thesis using True vf by (simp add: Let_def)
    qed
  qed
qed

lemma parse_content_length_eq:
  assumes "0 \<notin> set v"
  shows "parse_content_length (pre @ v @ 0 # post) (length pre) = Some (length_value v)"
proof -
  define b t ds r where "b = takeWhile blank v" and "t = dropWhile blank v"
    and "ds = takeWhile digit t" and "r = dropWhile digit t"
  have v: "v = b @ t" "t = ds @ r" by (simp_all add: b_def t_def ds_def r_def)
  have nz: "0 \<notin> set t" "0 \<notin> set r" using assms v by auto
  have s1: "skip_blanks (pre @ v @ 0 # post) (length pre) = Some (length (pre @ b))"
    using skip_blanks_eq[OF assms] by (simp add: b_def)
  have s2: "content_digits (pre @ v @ 0 # post) (length (pre @ b)) 0 False =
    Some (if nat_value ds \<ge> 2 ^ 32 then Inl (- EOVERFLOW)
          else Inr (length (pre @ b @ ds), of_nat (nat_value ds), ds \<noteq> []))"
    using content_digits_eq[OF nz(1), of "pre @ b" post 0 False] v(1)
    by (simp add: Let_def ds_def nat_value_def value_from_def)
  have s3: "skip_blanks (pre @ v @ 0 # post) (length (pre @ b @ ds)) = Some (length (pre @ b @ ds @ takeWhile blank r))"
    using skip_blanks_eq[OF nz(2), of "pre @ b @ ds" post] v by simp
  have s4: "rd (pre @ v @ 0 # post) (length (pre @ b @ ds @ takeWhile blank r)) =
      Some (hd (dropWhile blank r @ [0]))"
  proof -
    obtain x xs where x: "dropWhile blank r @ 0 # post = x # xs" "x = hd (dropWhile blank r @ [0])"
      by (cases "dropWhile blank r") auto
    have "pre @ v @ 0 # post = (pre @ b @ ds @ takeWhile blank r) @ x # xs"
      unfolding x(1)[symmetric] using v by simp
    then show ?thesis using x(2) by (metis nth_append_right)
  qed
  have "hd (dropWhile blank r @ [0]) = 0 \<longleftrightarrow> dropWhile blank r = []"
  proof (cases "dropWhile blank r")
    case (Cons x xs)
    then have "x \<in> set r" by (metis list.set_intros(1) set_dropWhileD)
    then show ?thesis using Cons nz(2) by auto
  next
    case Nil
    show ?thesis unfolding Nil by simp
  qed
  with s4 obtain z where "rd (pre @ v @ 0 # post) (length (pre @ b @ ds @ takeWhile blank r)) = Some z"
    "z = 0 \<longleftrightarrow> dropWhile blank r = []" by blast
  then show ?thesis
    unfolding parse_content_length_def s1 length_value_def
    using s2 s3
    by (simp add: Let_def t_def[symmetric] ds_def[symmetric] r_def[symmetric] del: dropWhile_eq_Nil_conv)
qed

section \<open>A well-formed request\<close>

type_synonym header = "byte list \<times> byte list"

definition crlf :: "byte list" where "crlf = [13, 10]"

definition lines_text :: "byte list list \<Rightarrow> byte list" where
  "lines_text ls = concat (map (\<lambda>l. l @ crlf) ls)"

definition header_line :: "header \<Rightarrow> byte list" where
  "header_line h = fst h @ 58 # snd h"

definition request_line :: "byte list \<Rightarrow> byte list \<Rightarrow> byte list \<Rightarrow> byte list" where
  "request_line meth path version = meth @ 32 # path @ 32 # version"

definition head_text :: "byte list \<Rightarrow> byte list \<Rightarrow> byte list \<Rightarrow> header list \<Rightarrow> byte list" where
  "head_text meth path version hs =
     lines_text (request_line meth path version # map header_line hs) @ crlf"

definition header_ok :: "header \<Rightarrow> bool" where
  "header_ok h \<longleftrightarrow> set (fst h) \<inter> {0, 13, 58} = {} \<and> set (snd h) \<inter> {0, 13} = {}"

definition request_ok :: "byte list \<Rightarrow> byte list \<Rightarrow> byte list \<Rightarrow> header list \<Rightarrow> bool" where
  "request_ok meth path version hs \<longleftrightarrow>
     set meth \<inter> {0, 13, 32} = {} \<and> set path \<inter> {0, 13, 32} = {} \<and> set version \<inter> {0, 13} = {} \<and>
     list_all header_ok hs"

text \<open>The announced length of the body: the last \<open>Content-Length\<close> counts, an invalid one is an error.\<close>

fun announced :: "header list \<Rightarrow> u32 option \<Rightarrow> rc + u32 option" where
  "announced [] n = Inr n"
| "announced (h # hs) n =
     (if map ascii_lower (fst h) = map ascii_lower (bytes_of ''Content-Length'') then
        (case length_value (snd h) of Inl e \<Rightarrow> Inl e | Inr k \<Rightarrow> announced hs (Some k))
      else announced hs n)"

definition with_length :: "http_request \<Rightarrow> u32 option \<Rightarrow> http_request" where
  "with_length p n = (case n of None \<Rightarrow> p | Some k \<Rightarrow> p\<lparr>content_length := k, has_content_length := True\<rparr>)"

lemma with_length_again: "(with_length p n)\<lparr>content_length := k, has_content_length := True\<rparr> = with_length p (Some k)"
  by (simp add: with_length_def split: option.splits)

lemma lines_text_simps: "lines_text [] = []" "lines_text (l # ls) = l @ 13 # 10 # lines_text ls"
  by (simp_all add: lines_text_def crlf_def)

lemma header_line_no_nul: "header_ok h \<Longrightarrow> 0 \<notin> set (header_line h) \<and> 13 \<notin> set (header_line h) \<and> header_line h \<noteq> []"
  by (auto simp: header_ok_def header_line_def)

lemma length_header_line: "length (header_line h) = length (fst h) + 1 + length (snd h)"
  by (simp add: header_line_def)

text \<open>One header line.\<close>

lemma parse_headers_line:
  assumes h: "header_ok h"
  shows "parse_headers (pre @ header_line h @ 13 # 10 # post) (length pre) p =
    (let buf = (pre @ header_line h @ [0, 10]) @ post; l = length (pre @ header_line h @ [0, 10]) in
     if map ascii_lower (fst h) = map ascii_lower (bytes_of ''Content-Length'') then
       (case length_value (snd h) of
          Inl e \<Rightarrow> Some (e, p, buf)
        | Inr k \<Rightarrow> parse_headers buf l (p\<lparr>content_length := k, has_content_length := True\<rparr>))
     else parse_headers buf l p)"
proof -
  let ?b = "pre @ header_line h @ 13 # 10 # post" and ?b' = "pre @ header_line h @ 0 # 10 # post"
  note ok = header_line_no_nul[OF h]
  obtain c cs where c: "header_line h = c # cs" using ok by (cases "header_line h") auto
  have r: "rd ?b (length pre) = Some c" "c \<noteq> 0" using c ok by auto
  have f: "find_crlf ?b (length pre) = Some (Some (length pre + length (header_line h)))"
    using ok by (intro find_crlf_eq) auto
  have u: "?b[length pre + length (header_line h) := 0] = ?b'"
    using list_update_length[of "pre @ header_line h" 13 "10 # post" 0] by simp
  have s: "strchr_at ?b' (length pre) 58 = Some (Some (length pre + length (fst h)))"
    using strchr_at_eq[of "fst h" 58 pre "snd h @ 0 # 10 # post"] h by (auto simp: header_ok_def header_line_def)
  have n: "header_name_equals ?b' (length pre) (length (fst h)) ''Content-Length'' =
      Some (map ascii_lower (fst h) = map ascii_lower (bytes_of ''Content-Length''))"
    using header_name_eq[of pre "fst h" "58 # snd h @ 0 # 10 # post"] by (simp add: header_line_def)
  have v: "parse_content_length ?b' (Suc (length pre + length (fst h))) = Some (length_value (snd h))"
    using parse_content_length_eq[of "snd h" "pre @ fst h @ [58]" "10 # post"] h
    by (simp add: header_line_def header_ok_def)
  show ?thesis
    using r ok by (subst parse_headers.simps) (simp add: f u s n v Let_def numeral_2_eq_2 split: sum.splits)
qed

lemma parse_headers_eq:
  assumes "list_all header_ok hs"
  shows "\<exists>mid p' ret. parse_headers (pre @ lines_text (map header_line hs) @ 0 # post) (length pre) (with_length p n) =
      Some (ret, p', pre @ mid @ 0 # post) \<and> length mid = length (lines_text (map header_line hs)) \<and>
      (case announced hs n of Inl e \<Rightarrow> ret = e | Inr k \<Rightarrow> ret = 0 \<and> p' = with_length p k)"
  using assms
proof (induction hs arbitrary: pre n)
  case Nil
  show ?case by (subst parse_headers.simps) (simp add: lines_text_simps)
next
  case (Cons h hs)
  let ?pre = "pre @ header_line h @ [0, 10]" and ?rest = "lines_text (map header_line hs)"
  have ok: "header_ok h" "list_all header_ok hs" using Cons.prems by auto
  note step = parse_headers_line[OF ok(1), of pre "?rest @ 0 # post" "with_length p n"]
  have IH: "\<exists>mid p' ret. parse_headers (?pre @ ?rest @ 0 # post) (length ?pre) (with_length p m) =
      Some (ret, p', pre @ mid @ 0 # post) \<and> length mid = length (lines_text (map header_line (h # hs))) \<and>
      (case announced hs m of Inl e \<Rightarrow> ret = e | Inr k \<Rightarrow> ret = 0 \<and> p' = with_length p k)" for m
  proof -
    obtain mid p' ret where "parse_headers (?pre @ ?rest @ 0 # post) (length ?pre) (with_length p m) =
      Some (ret, p', ?pre @ mid @ 0 # post)" "length mid = length ?rest"
      "case announced hs m of Inl e \<Rightarrow> ret = e | Inr k \<Rightarrow> ret = 0 \<and> p' = with_length p k"
      using Cons.IH[OF ok(2), of ?pre m] by blast
    then show ?thesis by (intro exI[of _ "header_line h @ [0, 10] @ mid"]) (simp add: lines_text_simps)
  qed
  show ?case
  proof (cases "map ascii_lower (fst h) = map ascii_lower (bytes_of ''Content-Length'')")
    case False
    then show ?thesis using step IH[of n] by (simp add: lines_text_simps Let_def)
  next
    case cl: True
    show ?thesis
    proof (cases "length_value (snd h)")
      case (Inl e)
      then show ?thesis using step cl
        by (intro exI[of _ "header_line h @ [0, 10] @ ?rest"]) (simp add: lines_text_simps Let_def)
    next
      case (Inr k)
      then show ?thesis using step cl IH[of "Some k"]
        by (simp add: lines_text_simps Let_def with_length_again)
    qed
  qed
qed

text \<open>The whole header in the buffer, its last line end already cut by a NUL.\<close>

definition parsed_as :: "byte list \<Rightarrow> byte list \<Rightarrow> http_request \<Rightarrow> bool" where
  "parsed_as meth path p \<longleftrightarrow> rq_method p = 0 \<and> method_len p = length meth \<and>
     rq_path p = length meth + 1 \<and> path_len p = length path"

lemma parse_http_request_eq:
  assumes "request_ok meth path version hs" and n: "n = length (head_text meth path version hs)" "n \<le> received"
  shows "\<exists>mid p ret. parse_http_request
      (lines_text (request_line meth path version # map header_line hs) @ 0 # 10 # post) received n =
      Some (ret, p, request_line meth path version @ 13 # 10 # mid @ 0 # 10 # post) \<and>
    length (request_line meth path version @ 13 # 10 # mid @ [0, 10]) = n \<and>
    (case announced hs None of
       Inl e \<Rightarrow> ret = e
     | Inr k \<Rightarrow> ret = 0 \<and> parsed_as meth path p \<and> has_content_length p = (k \<noteq> None) \<and>
         (\<forall>l. k = Some l \<longrightarrow> content_length p = l) \<and> rq_body p = n \<and> body_len p = received - n)"
proof -
  define rl where "rl = request_line meth path version"
  let ?ls = "lines_text (map header_line hs)"
  let ?b = "lines_text (rl # map header_line hs) @ 0 # 10 # post"
  have ok: "set meth \<inter> {0, 13, 32} = {}" "set path \<inter> {0, 13, 32} = {}" "set version \<inter> {0, 13} = {}"
    "list_all header_ok hs" using assms(1) by (simp_all add: request_ok_def)
  have f: "find_crlf ?b 0 = Some (Some (length rl))"
    using find_crlf_eq[of rl "[]" "?ls @ 0 # 10 # post"] ok by (auto simp: rl_def request_line_def lines_text_simps)
  have m: "memchr_at ?b 0 32 (length rl) = Some (Some (length meth))"
    using memchr_at_eq[of 32 meth "length rl" "[]"] ok
    by (auto simp: rl_def request_line_def lines_text_simps)
  have p: "memchr_at ?b (length meth + 1) 32 (length rl - (length meth + 1)) = Some (Some (length meth + 1 + length path))"
    using memchr_at_eq[of 32 path "length rl - (length meth + 1)" "meth @ [32]" "version @ 13 # 10 # ?ls @ 0 # 10 # post"] ok
    by (auto simp: rl_def request_line_def lines_text_simps)
  define p0 where "p0 = \<lparr>rq_method = 0, method_len = length meth, rq_path = length meth + 1, path_len = length path,
    content_length = 0, has_content_length = False, rq_body = 0, body_len = 0\<rparr>"
  obtain mid p' ret where hd: "parse_headers ((rl @ [13, 10]) @ ?ls @ 0 # 10 # post) (length (rl @ [13, 10])) (with_length p0 None) =
      Some (ret, p', (rl @ [13, 10]) @ mid @ 0 # 10 # post)" "length mid = length ?ls"
      "case announced hs None of Inl e \<Rightarrow> ret = e | Inr k \<Rightarrow> ret = 0 \<and> p' = with_length p0 k"
    using parse_headers_eq[OF ok(4)] by blast
  have b: "?b = (rl @ [13, 10]) @ ?ls @ 0 # 10 # post" by (simp add: lines_text_simps)
  have h: "parse_headers ?b (length rl + 2) p0 = Some (ret, p', rl @ 13 # 10 # mid @ 0 # 10 # post)"
    using hd(1) unfolding b by (simp add: with_length_def)
  have nz: "length_value v = Inl e \<Longrightarrow> e \<noteq> 0" for v e
    by (auto simp: length_value_def Let_def errno_defs split: if_splits)
  have anz: "announced hs m = Inl e \<Longrightarrow> e \<noteq> 0" for e m
    by (induction hs m rule: announced.induct) (auto split: if_splits sum.splits dest: nz)
  have len: "length (rl @ 13 # 10 # mid @ [0, 10]) = n"
    using hd(2) by (simp add: n rl_def head_text_def lines_text_simps crlf_def)
  have "parse_http_request ?b received n =
      Some (if ret \<noteq> 0 then (ret, p', rl @ 13 # 10 # mid @ 0 # 10 # post)
            else (0, p'\<lparr>rq_body := n, body_len := received - n\<rparr>, rl @ 13 # 10 # mid @ 0 # 10 # post))"
    using f m p h by (simp add: parse_http_request_def Let_def p0_def)
  then show ?thesis
    using len hd(3) anz unfolding rl_def
    by (intro exI[of _ mid] exI[of _ "if ret \<noteq> 0 then p' else p'\<lparr>rq_body := n, body_len := received - n\<rparr>"] exI[of _ ret])
      (auto simp: parsed_as_def with_length_def p0_def split: sum.splits option.splits)
qed

section \<open>The end of the header\<close>

definition end_mark :: "byte list \<Rightarrow> nat \<Rightarrow> bool" where
  "end_mark buf i \<longleftrightarrow> buf ! i = 13 \<and> buf ! (i + 1) = 10 \<and> buf ! (i + 2) = 13 \<and> buf ! (i + 3) = 10"

lemma end_mark_append: "end_mark (xs @ ys) (length xs + i) = end_mark ys i"
  by (simp add: end_mark_def nth_append)

lemma end_mark_prefix:
  assumes "take n a = take n b" and "j + 4 \<le> n"
  shows "end_mark a j = end_mark b j"
proof -
  have "a ! m = b ! m" if "m < n" for m using assms(1) that by (metis nth_take)
  then show ?thesis using assms(2) by (simp add: end_mark_def)
qed

lemma header_end_at_eq: "i + 3 < length buf \<Longrightarrow> header_end_at buf i = Some (end_mark buf i)"
  by (auto simp: header_end_at_def end_mark_def)

lemma find_header_end_none:
  assumes "\<forall>j < n. \<not> end_mark buf (i + j)" and "i + n + 2 < length buf"
  shows "find_header_end_from buf i n = Some None"
  using assms
proof (induction n arbitrary: i)
  case (Suc n)
  have "\<not> end_mark buf i" using Suc.prems(1) by (metis add_0_right zero_less_Suc)
  moreover have "\<forall>j < n. \<not> end_mark buf (Suc i + j)" using Suc.prems(1) by (metis Suc_less_eq add_Suc_shift)
  ultimately show ?case using Suc.IH[of "Suc i"] Suc.prems(2) by (simp add: header_end_at_eq)
qed simp

lemma find_header_end_first:
  assumes "\<forall>j < k. \<not> end_mark buf (i + j)" and "end_mark buf (i + k)" and "k < n" and "i + n + 2 < length buf"
  shows "find_header_end_from buf i n = Some (Some (i + k))"
  using assms
proof (induction n arbitrary: i k)
  case (Suc n)
  show ?case
  proof (cases k)
    case 0
    then show ?thesis using Suc.prems by (simp add: header_end_at_eq)
  next
    case (Suc m)
    have "\<not> end_mark buf i" using Suc.prems(1) Suc by (metis add_0_right zero_less_Suc)
    moreover have "\<forall>j < m. \<not> end_mark buf (Suc i + j)" using Suc.prems(1) Suc by (metis Suc_less_eq add_Suc_shift)
    ultimately show ?thesis using Suc.IH[of m "Suc i"] Suc.prems Suc by (simp add: header_end_at_eq)
  qed
qed simp

lemma no_early_end:
  assumes "list_all (\<lambda>l. l \<noteq> [] \<and> 13 \<notin> set l) ls" and "j + 4 < length (lines_text ls @ crlf)"
  shows "\<not> end_mark (lines_text ls @ crlf @ rest) j"
  using assms
proof (induction ls arbitrary: j)
  case (Cons l ls)
  let ?t = "lines_text ls @ crlf @ rest"
  have t: "lines_text (l # ls) @ crlf @ rest = l @ 13 # 10 # ?t" by (simp add: lines_text_simps)
  consider "j < length l" | "j = length l" | "j = length l + 1" | i where "j = length l + 2 + i"
    by (metis add_2_eq_Suc' add.commute add_Suc_right le_add_diff_inverse linorder_neqE_nat not_less_eq plus_1_eq_Suc Suc_leI)
  then show ?case
  proof cases
    case 1
    then have "l ! j \<in> set l" by simp
    then have "l ! j \<noteq> 13" using Cons.prems(1) by auto
    then show ?thesis using 1 by (simp add: t end_mark_def nth_append)
  next
    case 2
    then obtain l2 ls2 where ls: "ls = l2 # ls2" using Cons.prems(2) by (cases ls) (auto simp: lines_text_simps crlf_def)
    then obtain c cs where c: "l2 = c # cs" "c \<noteq> 13" using Cons.prems(1) by (cases l2) auto
    have "(l @ 13 # 10 # ?t) ! (length l + 2) = c" by (simp add: nth_append ls c lines_text_simps)
    then show ?thesis using 2 c(2) by (simp add: t end_mark_def)
  next
    case 3
    then show ?thesis by (simp add: t end_mark_def nth_append)
  next
    case (4 i)
    have "\<not> end_mark ?t i"
      using Cons.IH[of i] Cons.prems 4 by (simp add: lines_text_simps)
    then show ?thesis
      using end_mark_append[of "l @ [13, 10]" ?t i] 4 by (simp add: t)
  qed
qed (simp add: lines_text_simps crlf_def)

text \<open>On a buffer that starts with a part of a request, and on one that holds its whole header.\<close>

lemma request_lines_ok:
  "request_ok meth path version hs \<Longrightarrow>
   list_all (\<lambda>l. l \<noteq> [] \<and> 13 \<notin> set l) (request_line meth path version # map header_line hs)"
  using header_line_no_nul by (fastforce simp: request_ok_def request_line_def list_all_iff)

lemma length_lines_text: "length (lines_text (l # ls)) \<ge> 2"
  by (simp add: lines_text_simps)

lemma find_end_partial:
  assumes r: "request_ok meth path version hs" and h: "h = head_text meth path version hs"
    and d: "take n h = take n buf" "n < length h" "n \<le> length buf"
  shows "find_header_end buf n = Some None"
proof (cases "n < 4")
  case False
  have "\<not> end_mark buf j" if j: "j < Suc (n - 4)" for j
  proof -
    have "\<not> end_mark h j"
      using no_early_end[OF request_lines_ok[OF r], of j "[]"] j d(2) False by (simp add: h head_text_def)
    then show ?thesis using end_mark_prefix[OF d(1)] j False by simp
  qed
  then show ?thesis using find_header_end_none[of "Suc (n - 4)" buf 0] False d(3) by (simp add: find_header_end_def)
qed (simp add: find_header_end_def)

lemma lines_text_snoc: "lines_text (ls @ [l]) = lines_text ls @ l @ [13, 10]"
  by (simp add: lines_text_def crlf_def)

lemma find_end_complete:
  assumes r: "request_ok meth path version hs"
    and b: "buf = head_text meth path version hs @ rest" and n: "length (head_text meth path version hs) \<le> n" "n \<le> length buf"
  shows "find_header_end buf n = Some (Some (length (head_text meth path version hs) - 4))"
proof -
  let ?ls = "request_line meth path version # map header_line hs"
  define k where "k = length (head_text meth path version hs) - 4"
  have k: "length (lines_text ?ls) = k + 2" "4 \<le> length (head_text meth path version hs)"
    by (simp_all add: k_def head_text_def lines_text_simps crlf_def)
  obtain t where t: "lines_text ?ls = t @ [13, 10]"
    using lines_text_snoc[of "butlast ?ls" "last ?ls"] by (metis append.assoc append_butlast_last_id list.discI)
  have "length t = k" using k(1) t by simp
  then have m: "end_mark buf k"
    using end_mark_append[of t "[13, 10, 13, 10] @ rest" 0] b t by (simp add: head_text_def crlf_def end_mark_def)
  have "\<not> end_mark buf j" if "j < k" for j
    using no_early_end[OF request_lines_ok[OF r], of j rest] that k(2) b by (simp add: head_text_def k_def)
  then show ?thesis
    using find_header_end_first[of k buf 0 "Suc (n - 4)"] m n k(2) by (simp add: find_header_end_def k_def)
qed

section \<open>Receiving a request\<close>

text \<open>A client that sends \<open>incoming\<close>: a receive gives a piece of it, or is interrupted, which happens only
  finitely often in a row. How the pieces are cut is left open.\<close>

locale prompt_client = tcp_socket so wire
  for so :: "'w sock_ops" and wire :: "'w \<Rightarrow> byte list" +
  fixes incoming :: "'w \<Rightarrow> byte list" and interrupts :: "'w \<Rightarrow> nat"
  assumes recv_gives: "zsock_recv so n w = (Inr bs, w') \<Longrightarrow> length bs \<le> n \<and> incoming w = bs @ incoming w'"
    and recv_some: "zsock_recv so n w = (Inr bs, w') \<Longrightarrow> 0 < n \<Longrightarrow> incoming w \<noteq> [] \<Longrightarrow> bs \<noteq> []"
    and recv_interrupted: "zsock_recv so n w = (Inl e, w') \<Longrightarrow> 0 < n \<Longrightarrow> incoming w \<noteq> [] \<Longrightarrow>
        e = EINTR \<and> incoming w' = incoming w \<and> interrupts w' < interrupts w"

text \<open>What the parser has found when the client wrote this request and \<open>inc\<close> is still to come.\<close>

definition request_found ::
  "nat \<Rightarrow> byte list \<Rightarrow> byte list \<Rightarrow> u32 option \<Rightarrow> byte list \<Rightarrow> http_request \<Rightarrow> byte list \<Rightarrow> byte list \<Rightarrow> bool"
where
  "request_found head_len meth path len body p buf inc \<longleftrightarrow>
     parsed_as meth path p \<and> take (length meth) buf = meth \<and> take (length path) (drop (length meth + 1) buf) = path \<and>
     has_content_length p = (len \<noteq> None) \<and> (\<forall>l. len = Some l \<longrightarrow> content_length p = l) \<and>
     length buf = WEB_APP_RX_BUF_SIZE \<and> rq_body p = head_len \<and> rq_body p + body_len p \<le> WEB_APP_RX_BUF_SIZE \<and>
     body = take (body_len p) (drop (rq_body p) buf) @ inc"

text \<open>The buffer once it holds the header.\<close>

lemma parse_found:
  assumes r: "request_ok meth path version hs" and h: "h = head_text meth path version hs"
    and b: "length (h @ b1 @ junk) = WEB_APP_RX_BUF_SIZE" and body: "body = b1 @ inc"
  shows "\<exists>ret p buf. parse_http_request ((h @ b1 @ junk)[length h - 2 := 0]) (length h + length b1) (length h) =
      Some (ret, p, buf) \<and>
    (case announced hs None of Inl e \<Rightarrow> ret = e | Inr k \<Rightarrow> ret = 0 \<and> request_found (length h) meth path k body p buf inc)"
proof -
  let ?ls = "lines_text (request_line meth path version # map header_line hs)"
  have hl: "h = ?ls @ [13, 10]" by (simp add: h head_text_def crlf_def)
  have u: "(h @ b1 @ junk)[length h - 2 := 0] = ?ls @ 0 # 10 # b1 @ junk"
    using list_update_length[of ?ls 13 "10 # b1 @ junk" 0] by (simp add: hl)
  obtain mid p ret where p: "parse_http_request (?ls @ 0 # 10 # b1 @ junk) (length h + length b1) (length h) =
      Some (ret, p, request_line meth path version @ 13 # 10 # mid @ 0 # 10 # b1 @ junk)"
    "length (request_line meth path version @ 13 # 10 # mid @ [0, 10]) = length h"
    "case announced hs None of Inl e \<Rightarrow> ret = e
     | Inr k \<Rightarrow> ret = 0 \<and> parsed_as meth path p \<and> has_content_length p = (k \<noteq> None) \<and>
         (\<forall>l. k = Some l \<longrightarrow> content_length p = l) \<and> rq_body p = length h \<and>
         body_len p = length h + length b1 - length h"
    using parse_http_request_eq[OF r h[THEN arg_cong[of _ _ length]], of "length h + length b1" "b1 @ junk"] by auto
  let ?q = "request_line meth path version @ 13 # 10 # mid @ [0, 10]"
  let ?buf = "?q @ b1 @ junk"
  have "drop (length h) ?buf = b1 @ junk" using p(2) by (metis append_eq_conv_conj)
  then have "take (length b1) (drop (length h) ?buf) = b1" by simp
  moreover have "take (length meth) ?buf = meth" "take (length path) (drop (length meth + 1) ?buf) = path"
    by (simp_all add: request_line_def)
  moreover have "length ?buf = WEB_APP_RX_BUF_SIZE" using p(2) b by simp
  moreover have "length h + length b1 \<le> WEB_APP_RX_BUF_SIZE" using b by simp
  ultimately show ?thesis
    unfolding u using p(1,3) body
    by (intro exI[of _ ret] exI[of _ p] exI[of _ ?buf]) (auto simp: request_found_def split: sum.splits)
qed

context prompt_client
begin

lemma read_finds_request:
  assumes r: "request_ok meth path version hs" and h: "h = head_text meth path version hs"
    and s: "length h \<le> WEB_APP_RX_BUF_SIZE"
    and "length (d @ junk) = WEB_APP_RX_BUF_SIZE" and "d @ incoming w = h @ body" and "length d < length h"
  shows "\<exists>ret p buf w'. read_http_request so (d @ junk) WEB_APP_RX_BUF_SIZE (length d) w = Some ((ret, Some p, buf), w') \<and>
    wire w' = wire w \<and>
    (case announced hs None of Inl e \<Rightarrow> ret = e | Inr k \<Rightarrow> ret = 0 \<and> request_found (length h) meth path k body p buf (incoming w'))"
  using assms(4-)
proof (induction "length (incoming w)" arbitrary: d junk w rule: less_induct)
  case less
  note received = less
  show ?case
    using received(2-4) received(1)
  proof (induction "interrupts w" arbitrary: w rule: less_induct)
    case (less w)
    note interrupted = less(1) and len = less(2) and all = less(3) and short = less(4) and IH = less(5)
    have room: "0 < WEB_APP_RX_BUF_SIZE - length d" using short s by simp
    have inc: "incoming w \<noteq> []" using all short by (metis append.right_neutral length_append le_add1 not_le)
    obtain x w1 where x: "zsock_recv so (WEB_APP_RX_BUF_SIZE - length d) w = (x, w1)" by fastforce
    show ?case
    proof (cases x)
      case (Inl e)
      note e = recv_interrupted[OF x[unfolded Inl] room inc]
      have "\<exists>ret p buf w'. read_http_request so (d @ junk) WEB_APP_RX_BUF_SIZE (length d) w1 = Some ((ret, Some p, buf), w') \<and>
        wire w' = wire w1 \<and>
        (case announced hs None of Inl e \<Rightarrow> ret = e | Inr k \<Rightarrow> ret = 0 \<and> request_found (length h) meth path k body p buf (incoming w'))"
        using interrupted[of w1] e len all short IH by simp
      then show ?thesis
        using x e recv_silent[OF x] by (subst read_http_request.simps) (simp add: Inl)
    next
      case (Inr chunk)
      note c = recv_gives[OF x[unfolded Inr]] recv_some[OF x[unfolded Inr] room inc]
      define d1 junk1 where "d1 = d @ chunk" and "junk1 = drop (length chunk) junk"
      have cl: "length chunk \<le> length junk" using c(1) len by auto
      have m: "memcpy (d @ junk) (length d) chunk 0 (length chunk) = Some (d1 @ junk1)"
        using cl by (simp add: memcpy_def d1_def junk1_def)
      have ld: "length d + length chunk = length d1" by (simp add: d1_def)
      have len1: "length (d1 @ junk1) = WEB_APP_RX_BUF_SIZE" using len cl by (simp add: d1_def junk1_def)
      have all1: "d1 @ incoming w1 = h @ body" using all c by (simp add: d1_def)
      have step: "read_http_request so (d @ junk) WEB_APP_RX_BUF_SIZE (length d) w =
        (case find_header_end (d1 @ junk1) (length d1) of
           None \<Rightarrow> None
         | Some (Some he) \<Rightarrow>
             (case parse_http_request ((d1 @ junk1)[he + 4 - 2 := 0]) (length d1) (he + 4) of
                None \<Rightarrow> None | Some (ret, p, b) \<Rightarrow> Some ((ret, Some p, b), w1))
         | Some None \<Rightarrow>
             if length d1 = WEB_APP_RX_BUF_SIZE then Some ((- EOVERFLOW, None, d1 @ junk1), w1)
             else read_http_request so (d1 @ junk1) WEB_APP_RX_BUF_SIZE (length d1) w1)"
        using c(2) by (subst read_http_request.simps) (simp add: x Inr m Let_def ld cong: option.case_cong)
      show ?thesis
      proof (cases "length d1 < length h")
        case True
        have "take (length d1) h = take (length d1) (d1 @ junk1)"
          using True all1 by (metis append_eq_append_conv_if append_take_drop_id append_eq_conv_conj less_imp_le_nat)
        then have "find_header_end (d1 @ junk1) (length d1) = Some None"
          using find_end_partial[OF r h _ True] by simp
        moreover have "length d1 \<noteq> WEB_APP_RX_BUF_SIZE" using True s by simp
        moreover have "length (incoming w1) < length (incoming w)" using c by simp
        ultimately show ?thesis
          using step IH[of w1 d1 junk1] len1 all1 True recv_silent[OF x] by simp
      next
        case False
        have h1: "take (length h) d1 = h" using arg_cong[OF all1, of "take (length h)"] False by simp
        define b1 where "b1 = drop (length h) d1"
        have b1: "d1 = h @ b1" using h1 append_take_drop_id[of "length h" d1] by (simp add: b1_def)
        then have b2: "body = b1 @ incoming w1" using all1 by simp
        have "find_header_end (d1 @ junk1) (length d1) = Some (Some (length h - 4))"
          using find_end_complete[OF r, of "d1 @ junk1" "b1 @ junk1" "length d1"] b1 by (simp add: h)
        moreover have "4 \<le> length h" by (simp add: h head_text_def lines_text_simps crlf_def)
        ultimately show ?thesis
          using step parse_found[OF r h, of b1 junk1 body "incoming w1"] len1 b1 b2 recv_silent[OF x]
          by auto
      qed
    qed
  qed
qed

end

section \<open>A client\<close>

text \<open>A client that sends the given pieces and takes every answer; an empty piece is an interruption.\<close>

record client =
  cl_wire :: "byte list"
  cl_pieces :: "byte list list"

definition client_recv :: "nat \<Rightarrow> client \<Rightarrow> (int + byte list) \<times> client" where
  "client_recv n w =
     (if n = 0 then (Inr [], w)
      else case cl_pieces w of
        [] \<Rightarrow> (Inr [], w)
      | c # cs \<Rightarrow>
          if c = [] then (Inl EINTR, w\<lparr>cl_pieces := cs\<rparr>)
          else if length c \<le> n then (Inr c, w\<lparr>cl_pieces := cs\<rparr>)
          else (Inr (take n c), w\<lparr>cl_pieces := drop n c # cs\<rparr>))"

definition client_ops :: "client sock_ops" where
  "client_ops = \<lparr>zsock_recv = client_recv,
     zsock_send = (\<lambda>bs w. (Inr (length bs), w\<lparr>cl_wire := cl_wire w @ bs\<rparr>))\<rparr>"

definition client_incoming :: "client \<Rightarrow> byte list" where
  "client_incoming w = concat (cl_pieces w)"

definition client_interrupts :: "client \<Rightarrow> nat" where
  "client_interrupts w = length (filter (\<lambda>c. c = []) (cl_pieces w))"

interpretation client: prompt_client client_ops cl_wire client_incoming client_interrupts
  by unfold_locales
    (auto simp: client_ops_def client_recv_def client_incoming_def client_interrupts_def
      split: list.splits if_splits)

section \<open>Properties\<close>

text \<open>C15. The request parser reads what the client wrote. However a well-formed request with a header of at
  most 1536 bytes is cut into pieces and whatever interruptions come between them, receiving ends, never leaves the
  buffer, and finds the method, the path, the announced length (the last Content-Length header, in any letter case)
  and the body: the part of it already in the buffer and what is still to come are together exactly what the client
  wrote. A Content-Length that is no number or does not fit 32 bits is refused with the error it stands for.\<close>

theorem request_parsed_as_sent:
  assumes "prompt_client so wire incoming interrupts"
    and "request_ok meth path version hs"
    and "length (head_text meth path version hs) \<le> WEB_APP_RX_BUF_SIZE"
    and "length buf = WEB_APP_RX_BUF_SIZE"
    and "incoming w = head_text meth path version hs @ body"
  shows "\<exists>ret p buf' w'. read_http_request so buf WEB_APP_RX_BUF_SIZE 0 w = Some ((ret, Some p, buf'), w') \<and>
    wire w' = wire w \<and>
    (case announced hs None of
       Inl e \<Rightarrow> ret = e
     | Inr len \<Rightarrow> ret = 0 \<and> request_found (length (head_text meth path version hs)) meth path len body p buf' (incoming w'))"
  using prompt_client.read_finds_request[OF assms(1,2) refl assms(3), of "[]" buf w body] assms(4,5)
  by (simp add: head_text_def crlf_def)

definition demo_request :: "byte list" where
  "demo_request = head_text (bytes_of ''POST'') (bytes_of ''/api/config'') (bytes_of ''HTTP/1.1'')
     [(bytes_of ''Host'', bytes_of '' x''), (bytes_of ''content-length'', bytes_of '' 8 '')] @ bytes_of ''{abcdef}''"

definition demo_client :: client where
  "demo_client = \<lparr>cl_wire = [], cl_pieces = [take 7 demo_request, [], take 41 (drop 7 demo_request), drop 48 demo_request]\<rparr>"

lemma three_pieces: "take a xs @ take b (drop a xs) @ drop (a + b) xs = xs"
  using append_take_drop_id[of b "drop a xs"] by (simp add: add.commute)

lemma demo_request_ok:
  "request_ok (bytes_of ''POST'') (bytes_of ''/api/config'') (bytes_of ''HTTP/1.1'')
     [(bytes_of ''Host'', bytes_of '' x''), (bytes_of ''content-length'', bytes_of '' 8 '')]"
  by code_simp

theorem request_parsed_as_sent_witness:
  "\<exists>p buf w. read_http_request client_ops (replicate WEB_APP_RX_BUF_SIZE 0) WEB_APP_RX_BUF_SIZE 0 demo_client =
       Some ((0, Some p, buf), w) \<and>
     request_found (length demo_request - 8) (bytes_of ''POST'') (bytes_of ''/api/config'') (Some 8) (bytes_of ''{abcdef}'') p buf (client_incoming w)"
proof -
  have a: "announced [(bytes_of ''Host'', bytes_of '' x''), (bytes_of ''content-length'', bytes_of '' 8 '')] None = Inr (Some 8)"
    by (simp add: bytes_of_def ascii_lower_def length_value_def blank_def digit_def nat_value_def)
  have l: "length (head_text (bytes_of ''POST'') (bytes_of ''/api/config'') (bytes_of ''HTTP/1.1'')
     [(bytes_of ''Host'', bytes_of '' x''), (bytes_of ''content-length'', bytes_of '' 8 '')]) \<le> WEB_APP_RX_BUF_SIZE"
    by (simp add: head_text_def lines_text_def crlf_def request_line_def header_line_def WEB_APP_RX_BUF_SIZE_def)
  have "concat (cl_pieces demo_client) = demo_request"
    using three_pieces[of 7 demo_request 41] by (simp add: demo_client_def)
  then show ?thesis
    using request_parsed_as_sent[OF client.prompt_client_axioms demo_request_ok l length_replicate, of demo_client
        "bytes_of ''{abcdef}''" 0] a
    by (auto simp: client_incoming_def demo_request_def)
qed

end
