(* ===== verification/Web_Response.thy ===== *)
theory Web_Response
  imports Web_Http
begin

text \<open>
  The responses of the web application, \<open>src/src/web_app.c\<close>: sending, the response header, text and asset
  responses, and the escaping of strings in JSON.

  A char array is a byte list with its NUL; a result \<open>None\<close> says that the code left an object or that a
  send was interrupted for ever. \<open>web_errno\<close> is the \<open>errno\<close> a call that does not fail leaves alone.
\<close>

section \<open>Translation\<close>

record 'w web_ops =
  web_sock :: "'w sock_ops"
  web_setsockopt :: "'w \<Rightarrow> int option \<times> 'w"
  web_errno :: "'w \<Rightarrow> int"

partial_function (option) web_send_all ::
  "'w web_ops \<Rightarrow> byte list \<Rightarrow> nat \<Rightarrow> nat \<Rightarrow> 'w \<Rightarrow> (rc \<times> 'w) option"
where
  "web_send_all wo data len sent_total w =
     (if sent_total < len then
        if len > length data then None
        else
          (case zsock_send (web_sock wo) (take (len - sent_total) (drop sent_total data)) w of
             (Inr sent, w) \<Rightarrow>
               if sent > 0 then web_send_all wo data len (sent_total + sent) w
               else Some (- web_errno wo w, w)
           | (Inl e, w) \<Rightarrow>
               if e = EINTR then web_send_all wo data len sent_total w else Some (- e, w))
      else Some (0, w))"

definition header_text :: "string \<Rightarrow> string \<Rightarrow> nat \<Rightarrow> byte list" where
  "header_text status content_type content_len =
     bytes_of ''HTTP/1.1 '' @ bytes_of status @ crlf @
     bytes_of ''Content-Type: '' @ bytes_of content_type @ crlf @
     bytes_of ''Content-Length: '' @ nat_text content_len @ crlf @
     bytes_of ''Connection: close'' @ crlf @ bytes_of ''Cache-Control: no-store'' @ crlf @ crlf"

definition write_response_header ::
  "'w web_ops \<Rightarrow> string \<Rightarrow> string \<Rightarrow> nat \<Rightarrow> 'w \<Rightarrow> (rc \<times> 'w) option"
where
  "write_response_header wo status content_type content_len w =
     (case snprintk 192 (header_text status content_type content_len) of
        (header, header_len) \<Rightarrow>
          if header_len = 0 then Some (- EINVAL, w) else web_send_all wo header header_len 0 w)"

definition write_text_response ::
  "'w web_ops \<Rightarrow> string \<Rightarrow> string \<Rightarrow> byte list \<Rightarrow> 'w \<Rightarrow> (rc \<times> 'w) option"
where
  "write_text_response wo status content_type body w =
     do {
       n \<leftarrow> strlen body;
       (ret, w) \<leftarrow> write_response_header wo status content_type n w;
       if ret \<noteq> 0 then Some (ret, w) else web_send_all wo body n 0 w
     }"

text \<open>The array of a string literal.\<close>

definition c_literal :: "string \<Rightarrow> byte list" where
  "c_literal s = bytes_of s @ [0]"

record web_asset =
  asset_path :: string
  asset_type :: string
  asset_bytes :: "byte list"

definition write_asset_response :: "'w web_ops \<Rightarrow> web_asset \<Rightarrow> 'w \<Rightarrow> 'w option" where
  "write_asset_response wo asset w =
     do {
       (ret, w) \<leftarrow> write_response_header wo ''200 OK'' (asset_type asset) (length (asset_bytes asset)) w;
       if ret = 0 then map_option snd (web_send_all wo (asset_bytes asset) (length (asset_bytes asset)) 0 w)
       else Some w
     }"

text \<open>The files under \<open>src/src/web_assets\<close>, which the build turns into the symbols \<open>web_asset_*\<close>.\<close>

record asset_files =
  index_html :: "byte list"
  app_js :: "byte list"
  style_css :: "byte list"

definition web_assets :: "asset_files \<Rightarrow> web_asset list" where
  "web_assets fs =
     [\<lparr>asset_path = ''/'', asset_type = ''text/html; charset=utf-8'', asset_bytes = index_html fs\<rparr>,
      \<lparr>asset_path = ''/index.html'', asset_type = ''text/html; charset=utf-8'', asset_bytes = index_html fs\<rparr>,
      \<lparr>asset_path = ''/app.js'', asset_type = ''application/javascript'', asset_bytes = app_js fs\<rparr>,
      \<lparr>asset_path = ''/style.css'', asset_type = ''text/css; charset=utf-8'', asset_bytes = style_css fs\<rparr>]"

fun find_asset :: "web_asset list \<Rightarrow> byte list \<Rightarrow> nat \<Rightarrow> nat \<Rightarrow> web_asset option option" where
  "find_asset [] buf path len = Some None"
| "find_asset (a # as) buf path len =
     do {
       same \<leftarrow> (if length (asset_path a) = len
                then strncmp_eq buf path (c_literal (asset_path a)) 0 len else Some False);
       if same then Some (Some a) else find_asset as buf path len
     }"

text \<open>The second character of the escape sequence of a character.\<close>

definition json_escape_char :: "byte \<Rightarrow> byte option" where
  "json_escape_char c =
     (if c = 92 then Some 92 else if c = 34 then Some 34 else if c = 8 then Some (ch CHR ''b'')
      else if c = 12 then Some (ch CHR ''f'') else if c = 10 then Some (ch CHR ''n'')
      else if c = 13 then Some (ch CHR ''r'') else if c = 9 then Some (ch CHR ''t'') else None)"

text \<open>\<open>acc\<close> is what is written to \<open>dst\<close> so far.\<close>

function json_escape_loop :: "byte list \<Rightarrow> nat \<Rightarrow> byte list \<Rightarrow> nat \<Rightarrow> byte list option" where
  "json_escape_loop src i acc dst_len =
     (case rd src i of
        None \<Rightarrow> None
      | Some c \<Rightarrow>
          if c = 0 \<or> \<not> length acc + 1 < dst_len then Some acc
          else
            (case json_escape_char c of
               Some e \<Rightarrow>
                 if length acc + 2 \<ge> dst_len then Some acc
                 else json_escape_loop src (Suc i) (acc @ [92, e]) dst_len
             | None \<Rightarrow>
                 json_escape_loop src (Suc i) (if c \<ge> 0x20 then acc @ [c] else acc) dst_len))"
  by pat_completeness auto
termination
  by (relation "measure (\<lambda>(src, i, acc, n). length src - i)") (auto simp: rd_def split: if_splits)

declare json_escape_loop.simps [simp del]

text \<open>The string left in \<open>dst\<close>, with its NUL; nothing is written when the array has no room at all.\<close>

definition json_escape_string :: "byte list option \<Rightarrow> nat \<Rightarrow> byte list option" where
  "json_escape_string src dst_len =
     (if dst_len = 0 then Some []
      else case src of
        None \<Rightarrow> Some [0]
      | Some s \<Rightarrow> do { out \<leftarrow> json_escape_loop s 0 [] dst_len; Some (out @ [0]) })"

section \<open>Escaping\<close>

text \<open>A reader of JSON strings, for the escapes of the writer.\<close>

definition json_unescape_char :: "byte \<Rightarrow> byte" where
  "json_unescape_char e =
     (if e = ch CHR ''b'' then 8 else if e = ch CHR ''f'' then 12 else if e = ch CHR ''n'' then 10
      else if e = ch CHR ''r'' then 13 else if e = ch CHR ''t'' then 9 else e)"

fun json_unescape :: "byte list \<Rightarrow> byte list" where
  "json_unescape (c # e # cs) = (if c = 92 then json_unescape_char e # json_unescape cs else c # json_unescape (e # cs))"
| "json_unescape cs = cs"

text \<open>The characters JSON allows between the quotes: no control character, and quotes and backslashes only as
  escapes.\<close>

fun json_text :: "byte list \<Rightarrow> bool" where
  "json_text [] \<longleftrightarrow> True"
| "json_text [c] \<longleftrightarrow> 0x20 \<le> c \<and> c \<noteq> 34 \<and> c \<noteq> 92"
| "json_text (c # e # cs) \<longleftrightarrow>
     (if c = 92 then e \<in> {34, 92, 47, 98, 102, 110, 114, 116} \<and> json_text cs
      else 0x20 \<le> c \<and> c \<noteq> 34 \<and> json_text (e # cs))"

definition escaped :: "byte \<Rightarrow> byte list" where
  "escaped c = (case json_escape_char c of Some e \<Rightarrow> [92, e] | None \<Rightarrow> if c \<ge> 0x20 then [c] else [])"

definition json_escape :: "byte list \<Rightarrow> byte list" where
  "json_escape s = concat (map escaped s)"

text \<open>Control characters without an escape of their own are left out.\<close>

definition printable :: "byte list \<Rightarrow> byte list" where
  "printable s = filter (\<lambda>c. json_escape_char c \<noteq> None \<or> c \<ge> 0x20) s"

lemma length_escaped: "length (escaped c) \<le> 2"
  by (simp add: escaped_def split: option.splits)

lemma length_json_escape: "length (json_escape s) \<le> 2 * length s"
  by (induction s) (use length_escaped in \<open>auto simp: json_escape_def intro: order_trans add_le_mono\<close>)

lemma unescape_escaped: "json_unescape (escaped c @ cs) = printable [c] @ json_unescape cs"
  by (cases cs) (auto simp: escaped_def printable_def json_escape_char_def json_unescape_char_def split: if_splits)

lemma unescape_json_escape: "json_unescape (json_escape s) = printable s"
proof (induction s)
  case (Cons c s)
  then show ?case using unescape_escaped[of c "json_escape s"] by (simp add: json_escape_def printable_def)
qed (simp add: json_escape_def printable_def)

lemma json_text_escaped: "json_text cs \<Longrightarrow> json_text (escaped c @ cs)"
  by (cases cs) (auto simp: escaped_def json_escape_char_def split: if_splits)

lemma json_text_escape: "json_text (json_escape s)"
  by (induction s) (auto simp: json_escape_def json_text_escaped)

lemma json_escape_snoc: "json_escape (s @ [c]) = json_escape s @ escaped c"
  by (simp add: json_escape_def)

text \<open>When the array has room for the worst case, nothing is cut off.\<close>

lemma json_escape_loop_eq:
  assumes "0 \<notin> set s" and "length acc + 2 * length s < dst_len"
  shows "json_escape_loop (pre @ s @ 0 # post) (length pre) acc dst_len = Some (acc @ json_escape s)"
  using assms
proof (induction s arbitrary: pre acc)
  case Nil
  show ?case by (subst json_escape_loop.simps) (simp add: json_escape_def)
next
  case (Cons c s)
  let ?b = "pre @ (c # s) @ 0 # post"
  have IH: "json_escape_loop ((pre @ [c]) @ s @ 0 # post) (length (pre @ [c])) (acc @ e) dst_len = Some (acc @ e @ json_escape s)"
    if "length e \<le> 2" for e
    using Cons.IH[of "acc @ e" "pre @ [c]"] Cons.prems that by simp
  have "json_escape_loop ?b (length pre) acc dst_len = json_escape_loop ?b (Suc (length pre)) (acc @ escaped c) dst_len"
    using Cons.prems by (subst json_escape_loop.simps) (auto simp: escaped_def split: option.splits)
  then show ?case using IH[OF length_escaped[of c]] by (simp add: json_escape_def)
qed

lemma json_escape_string_eq:
  assumes "terminated a" and "2 * length (cstr a) < n"
  shows "json_escape_string (Some a) n = Some (json_escape (cstr a) @ [0])"
proof -
  obtain t where "a = cstr a @ 0 # t" using cstr_split_ex[OF assms(1)] by blast
  then show ?thesis
    using json_escape_loop_eq[OF cstr_no_nul, of "[]" a n "[]" t] assms(2) by (simp add: json_escape_string_def)
qed

lemma json_escape_no_nul: "0 \<notin> set (json_escape s)"
  by (induction s) (auto simp: json_escape_def escaped_def json_escape_char_def split: if_splits)

text \<open>The array is never overrun, whatever the source is.\<close>

lemma json_escape_loop_len:
  "json_escape_loop src i acc n = Some out \<Longrightarrow> length acc < n \<Longrightarrow> length out < n"
proof (induction src i acc n rule: json_escape_loop.induct)
  case (1 src i acc n)
  show ?case
    using 1(3,4) 1(1,2)
    by (subst (asm) json_escape_loop.simps) (force split: option.splits if_splits)
qed

section \<open>Sending\<close>

text \<open>A client that stays and takes everything in the end: a send accepts at least one byte, or is interrupted,
  which happens only finitely often in a row.\<close>

locale web_client = prompt_client "web_sock wo" wire incoming interrupts
  for wo :: "'w web_ops" and wire :: "'w \<Rightarrow> byte list" and incoming :: "'w \<Rightarrow> byte list" and interrupts :: "'w \<Rightarrow> nat" +
  fixes stalls :: "'w \<Rightarrow> nat"
  assumes send_some: "zsock_send (web_sock wo) bs w = (Inr n, w') \<Longrightarrow> bs \<noteq> [] \<Longrightarrow> 0 < n"
    and send_interrupted: "zsock_send (web_sock wo) bs w = (Inl e, w') \<Longrightarrow> e = EINTR \<and> stalls w' < stalls w"
    and send_keeps: "zsock_send (web_sock wo) bs w = (r, w') \<Longrightarrow> incoming w' = incoming w"
    and setsockopt_keeps: "web_setsockopt wo w = (err, w') \<Longrightarrow> wire w' = wire w \<and> incoming w' = incoming w"

context web_client
begin

lemma send_all_complete:
  assumes "len \<le> length data"
  shows "\<exists>w'. web_send_all wo data len k w = Some (0, w') \<and> wire w' = wire w @ drop k (take len data) \<and>
    incoming w' = incoming w"
proof (induction "len - k" arbitrary: k w rule: less_induct)
  case (less k)
  note shorter = less
  show ?case
  proof (induction "stalls w" arbitrary: w rule: less_induct)
    case (less w)
    note stalled = less
    show ?case
    proof (cases "k < len")
      case False
      then show ?thesis by (subst web_send_all.simps) simp
    next
      case True
      obtain x w1 where x: "zsock_send (web_sock wo) (take (len - k) (drop k data)) w = (x, w1)" by fastforce
      have ne: "take (len - k) (drop k data) \<noteq> []" using True assms by auto
      show ?thesis
      proof (cases x)
        case (Inl e)
        note e = send_interrupted[OF x[unfolded Inl]] send_fails[OF x[unfolded Inl]] send_keeps[OF x]
        then show ?thesis
          using x Inl True assms stalled[of w1] by (subst web_send_all.simps) simp
      next
        case (Inr n)
        note n = send_some[OF x[unfolded Inr] ne] send_accepts[OF x[unfolded Inr]] send_keeps[OF x]
        have dec: "len - (k + n) < len - k" using True n(1) by linarith
        obtain w' where w': "web_send_all wo data len (k + n) w1 = Some (0, w')"
          "wire w' = wire w1 @ drop (k + n) (take len data)" "incoming w' = incoming w1"
          using shorter[OF dec, of w1] by blast
        have "drop k (take len data) = take n (take (len - k) (drop k data)) @ drop (k + n) (take len data)"
          by (metis append_take_drop_id drop_drop drop_take add.commute)
        then show ?thesis
          using x Inr True assms n w' by (subst web_send_all.simps) simp
      qed
    qed
  qed
qed

end

text \<open>A response: the header that announces the body, and the body.\<close>

definition response :: "string \<Rightarrow> string \<Rightarrow> byte list \<Rightarrow> byte list" where
  "response status ct body = header_text status ct (length body) @ body"

lemma length_header_text:
  "length (header_text status ct n) = 91 + length status + length ct + length (nat_text n)"
  by (simp add: header_text_def crlf_def)

lemma header_text_no_nul:
  "0 \<notin> set (bytes_of status) \<Longrightarrow> 0 \<notin> set (bytes_of ct) \<Longrightarrow> 0 \<notin> set (header_text status ct n)"
  using nul_nat_text[of n] by (simp add: header_text_def crlf_def bytes_of_def)

text \<open>The header array is large enough: the header is sent as it is.\<close>

lemma header_fits:
  assumes "length status + length ct \<le> 90" and "n < 10 ^ 10"
  shows "\<exists>t. snprintk 192 (header_text status ct n) = (header_text status ct n @ t, length (header_text status ct n)) \<and>
    0 < length (header_text status ct n)"
  using assms length_nat_text[of n 10] by (simp add: snprintk_def length_header_text)

context web_client
begin

lemma header_sent:
  assumes "length status + length ct \<le> 90" and "n < 10 ^ 10"
  shows "\<exists>w'. write_response_header wo status ct n w = Some (0, w') \<and>
    wire w' = wire w @ header_text status ct n \<and> incoming w' = incoming w"
proof -
  obtain t where t: "snprintk 192 (header_text status ct n) = (header_text status ct n @ t, length (header_text status ct n))"
    "0 < length (header_text status ct n)" using header_fits[OF assms] by blast
  show ?thesis
    using send_all_complete[of "length (header_text status ct n)" "header_text status ct n @ t" 0 w] t
    by (auto simp: write_response_header_def)
qed

lemma text_response_sent:
  assumes "length status + length ct \<le> 90" and "terminated body" and "length (cstr body) < 10 ^ 10"
  shows "\<exists>w'. write_text_response wo status ct body w = Some (0, w') \<and>
    wire w' = wire w @ response status ct (cstr body) \<and> incoming w' = incoming w"
proof -
  obtain w1 where w1: "write_response_header wo status ct (length (cstr body)) w = Some (0, w1)"
    "wire w1 = wire w @ header_text status ct (length (cstr body))" "incoming w1 = incoming w"
    using header_sent[OF assms(1,3)] by blast
  obtain w2 where w2: "web_send_all wo body (length (cstr body)) 0 w1 = Some (0, w2)"
    "wire w2 = wire w1 @ take (length (cstr body)) body" "incoming w2 = incoming w1"
    using send_all_complete[OF length_cstr_le, of body 0 w1] by auto
  show ?thesis
    using w1 w2 assms(2) by (simp add: write_text_response_def strlen_eq response_def take_cstr)
qed

lemma literal_response_sent:
  assumes "length status + length ct \<le> 90" and "0 \<notin> set (bytes_of s)" and "length s < 10 ^ 10"
  shows "\<exists>w'. write_text_response wo status ct (c_literal s) w = Some (0, w') \<and>
    wire w' = wire w @ response status ct (bytes_of s) \<and> incoming w' = incoming w"
  using text_response_sent[OF assms(1), of "c_literal s"] assms(2,3) by (simp add: c_literal_def)

lemma asset_sent:
  assumes "length (asset_type a) \<le> 60" and "length (asset_bytes a) < 10 ^ 10"
  shows "\<exists>w'. write_asset_response wo a w = Some w' \<and>
    wire w' = wire w @ response ''200 OK'' (asset_type a) (asset_bytes a) \<and> incoming w' = incoming w"
proof -
  obtain w1 where w1: "write_response_header wo ''200 OK'' (asset_type a) (length (asset_bytes a)) w = Some (0, w1)"
    "wire w1 = wire w @ header_text ''200 OK'' (asset_type a) (length (asset_bytes a))" "incoming w1 = incoming w"
    using header_sent[of "''200 OK''" "asset_type a" "length (asset_bytes a)" w] assms by auto
  obtain w2 where w2: "web_send_all wo (asset_bytes a) (length (asset_bytes a)) 0 w1 = Some (0, w2)"
    "wire w2 = wire w1 @ asset_bytes a" "incoming w2 = incoming w1"
    using send_all_complete[of "length (asset_bytes a)" "asset_bytes a" 0 w1] by auto
  show ?thesis using w1 w2 by (simp add: write_asset_response_def response_def)
qed

end

definition client_web :: "client web_ops" where
  "client_web = \<lparr>web_sock = client_ops, web_setsockopt = (\<lambda>w. (None, w)), web_errno = (\<lambda>w. 0)\<rparr>"

lemma client_web_sock [simp]: "web_sock client_web = client_ops"
  by (simp add: client_web_def)

interpretation web_demo: web_client client_web cl_wire client_incoming client_interrupts "\<lambda>w. 0"
  by (intro web_client.intro web_client_axioms.intro)
    (use client.prompt_client_axioms in \<open>auto simp: client_ops_def client_web_def client_incoming_def\<close>)

text \<open>Escaping for JSON is right: into an array of more than twice the length of the string, nothing is cut off
  or written past its end, the result is legal between the quotes of a JSON string, and reading it back gives
  the characters of the source, without the control characters that have no escape.\<close>

theorem json_escape_roundtrip:
  assumes "terminated a" and "2 * length (cstr a) < n"
  shows "\<exists>out. json_escape_string (Some a) n = Some (out @ [0]) \<and> length (out @ [0]) \<le> n \<and> 0 \<notin> set out \<and>
    json_text out \<and> json_unescape out = printable (cstr a)"
proof (intro exI conjI)
  show "json_escape_string (Some a) n = Some (json_escape (cstr a) @ [0])"
    using assms by (rule json_escape_string_eq)
qed (use assms(2) length_json_escape[of "cstr a"] in
    \<open>simp_all add: json_escape_no_nul json_text_escape unescape_json_escape\<close>)

theorem json_escape_roundtrip_witness:
  "\<exists>out. json_escape_string (Some [97, 34, 92, 10, 2, 98, 0]) 13 = Some (out @ [0]) \<and>
     json_unescape out = [97, 34, 92, 10, 98]"
  using json_escape_roundtrip[of "[97, 34, 92, 10, 2, 98, 0]" 13]
  by (auto simp: terminated_def cstr_def printable_def json_escape_char_def)

end
