(* ===== verification/Ota_Update.thy ===== *)
theory Ota_Update
  imports C_Format
begin

text \<open>
  The over-the-air update, \<open>src/src/ota_update.c\<close>: the upload of an image into the spare slot of the flash in
  three steps (begin, write, finish), its status, and the confirmation of a new image.

  MCUboot and the flash driver are not part of the repository: their calls are the record
  \<open>flash_ops\<close> over the state of the flash, and the locale \<open>ota_flash\<close> names what the module relies on. Sizes are
  32-bit words, the \<open>size_t\<close> of the target. Every operation holds the module's mutex, so it is one step.
\<close>

section \<open>Translation\<close>

definition OTA_UPDATE_LAST_ERROR_LEN :: nat where "OTA_UPDATE_LAST_ERROR_LEN = 96"

datatype ota_update_state =
    OTA_UPDATE_STATE_DISABLED
  | OTA_UPDATE_STATE_READY
  | OTA_UPDATE_STATE_UPLOADING
  | OTA_UPDATE_STATE_PENDING_REBOOT
  | OTA_UPDATE_STATE_CONFIRMED
  | OTA_UPDATE_STATE_ERROR

record ota_update_status =
  ota_enabled :: bool
  ota_state :: ota_update_state
  expected_bytes :: u32
  uploaded_bytes :: u32
  max_upload_bytes :: u32
  ota_slot :: byte
  ota_confirmed :: bool
  last_error :: "byte list"

record 'f flash_ops =
  boot_is_img_confirmed :: "'f \<Rightarrow> bool"
  flash_img_get_upload_slot :: "'f \<Rightarrow> byte"
  flash_area_open :: "byte \<Rightarrow> 'f \<Rightarrow> rc \<times> u32 \<times> 'f"
  flash_area_close :: "'f \<Rightarrow> 'f"
  boot_erase_img_bank :: "byte \<Rightarrow> 'f \<Rightarrow> rc \<times> 'f"
  flash_img_init_id :: "byte \<Rightarrow> 'f \<Rightarrow> rc \<times> 'f"
  flash_img_buffered_write :: "byte list \<Rightarrow> bool \<Rightarrow> 'f \<Rightarrow> rc \<times> 'f"
  boot_request_upgrade :: "'f \<Rightarrow> rc \<times> 'f"
  boot_write_img_confirmed :: "'f \<Rightarrow> rc \<times> 'f"

text \<open>\<open>flash_area_open\<close> gives the size of the area with it. \<open>reboot_scheduled\<close> says that the delayed reboot
  is pending.\<close>

record 'f ota =
  ota_initialized :: bool
  status :: ota_update_status
  flash :: 'f
  reboot_scheduled :: bool

fun ota_update_state_name :: "ota_update_state \<Rightarrow> string" where
  "ota_update_state_name OTA_UPDATE_STATE_DISABLED = ''disabled''"
| "ota_update_state_name OTA_UPDATE_STATE_READY = ''ready''"
| "ota_update_state_name OTA_UPDATE_STATE_UPLOADING = ''uploading''"
| "ota_update_state_name OTA_UPDATE_STATE_PENDING_REBOOT = ''pending_reboot''"
| "ota_update_state_name OTA_UPDATE_STATE_CONFIRMED = ''confirmed''"
| "ota_update_state_name OTA_UPDATE_STATE_ERROR = ''error''"

definition ota_update_validate_upload_size :: "u32 \<Rightarrow> u32 \<Rightarrow> rc" where
  "ota_update_validate_upload_size content_length max_bytes =
     (if content_length = 0 then - EINVAL
      else if max_bytes > 0 \<and> content_length > max_bytes then - EFBIG
      else 0)"

definition set_error_locked :: "string option \<Rightarrow> rc \<Rightarrow> 'f ota \<Rightarrow> 'f ota" where
  "set_error_locked reason err o1 =
     (let text = fst (snprintk OTA_UPDATE_LAST_ERROR_LEN
         (bytes_of (case reason of None \<Rightarrow> ''OTA update failed'' | Some r \<Rightarrow> r) @ bytes_of '' ('' @
          int_text err @ bytes_of '')''))
      in o1\<lparr>status := (status o1)\<lparr>ota_state := OTA_UPDATE_STATE_ERROR,
           last_error := text @ drop (length text) (last_error (status o1))\<rparr>\<rparr>)"

text \<open>\<open>limit\<close> is \<open>CONFIG_ESP_NMEA_BRIDGE_OTA_MAX_UPLOAD_BYTES\<close>.\<close>

definition configured_limit_or_slot_size :: "int \<Rightarrow> u32 option \<Rightarrow> u32" where
  "configured_limit_or_slot_size limit area =
     (if limit > 0 then of_int limit else case area of Some fa_size \<Rightarrow> fa_size | None \<Rightarrow> 0)"

text \<open>\<open>en\<close> says whether the build has \<open>CONFIG_ESP_NMEA_BRIDGE_OTA_UPDATE_ENABLE\<close>.\<close>

definition init_once :: "bool \<Rightarrow> 'f flash_ops \<Rightarrow> 'f ota \<Rightarrow> 'f ota" where
  "init_once en fo o1 =
     (if ota_initialized o1 then o1
      else if en then
        o1\<lparr>ota_initialized := True, status := (status o1)\<lparr>ota_enabled := True,
          ota_state := (if boot_is_img_confirmed fo (flash o1) then OTA_UPDATE_STATE_CONFIRMED
                        else OTA_UPDATE_STATE_READY),
          ota_confirmed := boot_is_img_confirmed fo (flash o1),
          ota_slot := flash_img_get_upload_slot fo (flash o1)\<rparr>\<rparr>
      else
        o1\<lparr>ota_initialized := True, status := (status o1)\<lparr>ota_enabled := False,
          ota_state := OTA_UPDATE_STATE_DISABLED, ota_confirmed := True\<rparr>\<rparr>)"

definition ota_update_get_status :: "bool \<Rightarrow> 'f flash_ops \<Rightarrow> 'f ota \<Rightarrow> ota_update_status \<times> 'f ota" where
  "ota_update_get_status en fo o1 = (let o1 = init_once en fo o1 in (status o1, o1))"

definition ota_update_begin :: "bool \<Rightarrow> int \<Rightarrow> 'f flash_ops \<Rightarrow> u32 \<Rightarrow> 'f ota \<Rightarrow> rc \<times> 'f ota" where
  "ota_update_begin en limit fo content_length o1 =
     (let o1 = init_once en fo o1 in
      if \<not> en then (- ENOTSUP, o1)
      else
        let slot = flash_img_get_upload_slot fo (flash o1) in
        case flash_area_open fo slot (flash o1) of (ret, fa_size, f) \<Rightarrow>
          let o1 = o1\<lparr>flash := f\<rparr> in
          if ret \<noteq> 0 then (ret, set_error_locked (Some ''opening OTA upload slot failed'') ret o1)
          else
            let o1 = o1\<lparr>status := (status o1)\<lparr>max_upload_bytes := configured_limit_or_slot_size limit (Some fa_size)\<rparr>\<rparr>;
                close = (\<lambda>o1. o1\<lparr>flash := flash_area_close fo (flash o1)\<rparr>);
                ret = ota_update_validate_upload_size content_length (max_upload_bytes (status o1)) in
            if ret \<noteq> 0 then (ret, close (set_error_locked (Some ''invalid OTA upload size'') ret o1))
            else
              case boot_erase_img_bank fo slot (flash o1) of (ret, f) \<Rightarrow>
                let o1 = o1\<lparr>flash := f\<rparr> in
                if ret \<noteq> 0 then (ret, close (set_error_locked (Some ''erasing OTA upload slot failed'') ret o1))
                else
                  case flash_img_init_id fo slot (flash o1) of (ret, f) \<Rightarrow>
                    let o1 = o1\<lparr>flash := f\<rparr> in
                    if ret \<noteq> 0
                    then (ret, close (set_error_locked (Some ''initializing OTA flash writer failed'') ret o1))
                    else (0, close (o1\<lparr>status := (status o1)\<lparr>ota_enabled := True,
                      ota_state := OTA_UPDATE_STATE_UPLOADING, expected_bytes := content_length,
                      uploaded_bytes := 0, ota_slot := slot, last_error := (last_error (status o1))[0 := 0]\<rparr>\<rparr>)))"

text \<open>\<open>data\<close> is \<open>None\<close> for NULL and otherwise the bytes the caller passes, \<open>len\<close> of them.\<close>

definition ota_update_write :: "bool \<Rightarrow> 'f flash_ops \<Rightarrow> byte list option \<Rightarrow> u32 \<Rightarrow> 'f ota \<Rightarrow> rc \<times> 'f ota" where
  "ota_update_write en fo data len o1 =
     (if \<not> en then (- ENOTSUP, init_once en fo o1)
      else if data = None \<and> len > 0 then (- EINVAL, o1)
      else
        let o1 = init_once en fo o1 in
        if ota_state (status o1) \<noteq> OTA_UPDATE_STATE_UPLOADING then (- EALREADY, o1)
        else if uploaded_bytes (status o1) + len > expected_bytes (status o1) then
          (- EFBIG, set_error_locked (Some ''OTA upload exceeded Content-Length'') (- EFBIG) o1)
        else
          case flash_img_buffered_write fo (take (unat len) (case data of None \<Rightarrow> [] | Some d \<Rightarrow> d)) False (flash o1) of
            (ret, f) \<Rightarrow>
              let o1 = o1\<lparr>flash := f\<rparr> in
              if ret = 0
              then (ret, o1\<lparr>status := (status o1)\<lparr>uploaded_bytes := uploaded_bytes (status o1) + len\<rparr>\<rparr>)
              else (ret, set_error_locked (Some ''writing OTA image failed'') ret o1))"

definition ota_update_finish :: "bool \<Rightarrow> 'f flash_ops \<Rightarrow> 'f ota \<Rightarrow> rc \<times> 'f ota" where
  "ota_update_finish en fo o1 =
     (let o1 = init_once en fo o1 in
      if \<not> en then (- ENOTSUP, o1)
      else if ota_state (status o1) \<noteq> OTA_UPDATE_STATE_UPLOADING then (- EALREADY, o1)
      else if uploaded_bytes (status o1) \<noteq> expected_bytes (status o1) then
        (- EMSGSIZE, set_error_locked (Some ''OTA upload ended before Content-Length'') (- EMSGSIZE) o1)
      else
        case flash_img_buffered_write fo [] True (flash o1) of (ret, f) \<Rightarrow>
          let o1 = o1\<lparr>flash := f\<rparr> in
          if ret \<noteq> 0 then (ret, set_error_locked (Some ''flushing OTA image failed'') ret o1)
          else
            case boot_request_upgrade fo (flash o1) of (ret, f) \<Rightarrow>
              let o1 = o1\<lparr>flash := f\<rparr> in
              if ret \<noteq> 0 then (ret, set_error_locked (Some ''requesting OTA test boot failed'') ret o1)
              else (0, o1\<lparr>status := (status o1)\<lparr>ota_state := OTA_UPDATE_STATE_PENDING_REBOOT,
                last_error := (last_error (status o1))[0 := 0]\<rparr>\<rparr>))"

definition ota_update_schedule_reboot :: "bool \<Rightarrow> 'f flash_ops \<Rightarrow> 'f ota \<Rightarrow> 'f ota" where
  "ota_update_schedule_reboot en fo o1 =
     (let o1 = init_once en fo o1 in if en then o1\<lparr>reboot_scheduled := True\<rparr> else o1)"

definition ota_update_abort :: "bool \<Rightarrow> 'f flash_ops \<Rightarrow> string option \<Rightarrow> 'f ota \<Rightarrow> 'f ota" where
  "ota_update_abort en fo reason o1 =
     (let o1 = init_once en fo o1 in
      if en then set_error_locked (Some (case reason of None \<Rightarrow> ''OTA upload aborted'' | Some r \<Rightarrow> r)) (- ECANCELED) o1
      else o1)"

definition ota_update_self_check_web_reachable :: "bool \<Rightarrow> 'f flash_ops \<Rightarrow> 'f ota \<Rightarrow> 'f ota" where
  "ota_update_self_check_web_reachable en fo o1 =
     (let o1 = init_once en fo o1 in
      if \<not> en then o1
      else if boot_is_img_confirmed fo (flash o1) then
        o1\<lparr>status := (status o1)\<lparr>ota_confirmed := True, ota_state := OTA_UPDATE_STATE_CONFIRMED\<rparr>\<rparr>
      else
        case boot_write_img_confirmed fo (flash o1) of (ret, f) \<Rightarrow>
          let o1 = o1\<lparr>flash := f\<rparr> in
          if ret = 0 then
            o1\<lparr>status := (status o1)\<lparr>ota_confirmed := True, ota_state := OTA_UPDATE_STATE_CONFIRMED,
              last_error := (last_error (status o1))[0 := 0]\<rparr>\<rparr>
          else set_error_locked (Some ''confirming OTA image failed'') ret o1)"

text \<open>The static at boot: all zero, which is the first state of the enumeration.\<close>

definition ota_boot :: "'f \<Rightarrow> 'f ota" where
  "ota_boot f = \<lparr>ota_initialized = False,
     status = \<lparr>ota_enabled = False, ota_state = OTA_UPDATE_STATE_DISABLED, expected_bytes = 0, uploaded_bytes = 0,
       max_upload_bytes = 0, ota_slot = 0, ota_confirmed = False, last_error = replicate OTA_UPDATE_LAST_ERROR_LEN 0\<rparr>,
     flash = f, reboot_scheduled = False\<rparr>"

section \<open>The flash\<close>

text \<open>What the module relies on: \<open>img\<close> is the image in the upload slot, \<open>flushed\<close> says that no byte of it is left
  in the writer's buffer, \<open>upgrade\<close> that a test boot of it is requested. Nothing is said of a call that fails.\<close>

locale ota_flash =
  fixes fo :: "'f flash_ops" and img :: "'f \<Rightarrow> byte list" and flushed upgrade :: "'f \<Rightarrow> bool"
  assumes erase_ok: "boot_erase_img_bank fo s f = (0, f') \<Longrightarrow> img f' = []"
    and init_ok: "flash_img_init_id fo s f = (0, f') \<Longrightarrow> img f' = img f"
    and close_ok: "img (flash_area_close fo f) = img f"
    and write_ok: "flash_img_buffered_write fo d fl f = (0, f') \<Longrightarrow> img f' = img f @ d \<and> (fl \<longrightarrow> flushed f')"
    and request_ok: "boot_request_upgrade fo f = (0, f') \<Longrightarrow> img f' = img f \<and> (flushed f \<longrightarrow> flushed f') \<and> upgrade f'"

text \<open>The calls of the module, in any order.\<close>

datatype ota_call =
    Call_get_status
  | Call_begin u32
  | Call_write "byte list"
  | Call_finish
  | Call_schedule_reboot
  | Call_abort "string option"
  | Call_self_check

fun ota_step :: "bool \<Rightarrow> int \<Rightarrow> 'f flash_ops \<Rightarrow> ota_call \<Rightarrow> 'f ota \<Rightarrow> rc \<times> 'f ota" where
  "ota_step en limit fo Call_get_status o1 = (0, snd (ota_update_get_status en fo o1))"
| "ota_step en limit fo (Call_begin n) o1 = ota_update_begin en limit fo n o1"
| "ota_step en limit fo (Call_write d) o1 = ota_update_write en fo (Some d) (of_nat (length d)) o1"
| "ota_step en limit fo Call_finish o1 = ota_update_finish en fo o1"
| "ota_step en limit fo Call_schedule_reboot o1 = (0, ota_update_schedule_reboot en fo o1)"
| "ota_step en limit fo (Call_abort r) o1 = (0, ota_update_abort en fo r o1)"
| "ota_step en limit fo Call_self_check o1 = (0, ota_update_self_check_web_reachable en fo o1)"

fun ota_run ::
  "bool \<Rightarrow> int \<Rightarrow> 'f flash_ops \<Rightarrow> ota_call list \<Rightarrow> 'f ota \<Rightarrow> (ota_call \<times> rc) list \<times> 'f ota"
where
  "ota_run en limit fo [] o1 = ([], o1)"
| "ota_run en limit fo (c # cs) o1 =
     (case ota_step en limit fo c o1 of (r, o1) \<Rightarrow>
        case ota_run en limit fo cs o1 of (tr, o1) \<Rightarrow> ((c, r) # tr, o1))"

text \<open>The abstract contract reads only the calls and what they returned: the announced size and the bytes accepted
  since the last successful begin.\<close>

fun accepted_step :: "ota_call \<times> rc \<Rightarrow> nat \<times> byte list \<Rightarrow> nat \<times> byte list" where
  "accepted_step (Call_begin n, r) g = (if r = 0 then (unat n, []) else g)"
| "accepted_step (Call_write d, r) g = (if r = 0 then (fst g, snd g @ d) else g)"
| "accepted_step (_, r) g = g"

definition accepted :: "(ota_call \<times> rc) list \<Rightarrow> nat \<times> byte list" where
  "accepted tr = fold accepted_step tr (0, [])"

text \<open>No call is so large that the 32-bit sum in \<open>ota_update_write\<close> wraps.\<close>

fun call_fits :: "ota_call \<Rightarrow> bool" where
  "call_fits (Call_begin n) \<longleftrightarrow> unat n < 2 ^ 31"
| "call_fits (Call_write d) \<longleftrightarrow> length d < 2 ^ 31"
| "call_fits _ \<longleftrightarrow> True"

section \<open>The invariant\<close>

definition ota_inv :: "('f \<Rightarrow> byte list) \<Rightarrow> ('f \<Rightarrow> bool) \<Rightarrow> ('f \<Rightarrow> bool) \<Rightarrow> 'f ota \<Rightarrow> nat \<times> byte list \<Rightarrow> bool" where
  "ota_inv img flushed upgrade o1 g \<longleftrightarrow>
     (\<not> ota_initialized o1 \<longrightarrow> ota_state (status o1) = OTA_UPDATE_STATE_DISABLED) \<and>
     (ota_state (status o1) = OTA_UPDATE_STATE_UPLOADING \<longrightarrow>
        img (flash o1) = snd g \<and> unat (expected_bytes (status o1)) = fst g \<and> fst g < 2 ^ 31 \<and>
        uploaded_bytes (status o1) = of_nat (length (snd g)) \<and> length (snd g) \<le> fst g)"

lemma init_once_uploading:
  assumes "ota_inv img flushed upgrade o1 g"
  shows "ota_inv img flushed upgrade (init_once en fo o1) g"
  using assms by (auto simp: ota_inv_def init_once_def split: if_splits)

lemma set_error_state [simp]:
  "ota_state (status (set_error_locked r e o1)) = OTA_UPDATE_STATE_ERROR"
  "flash (set_error_locked r e o1) = flash o1"
  "ota_initialized (set_error_locked r e o1) = ota_initialized o1"
  by (simp_all add: set_error_locked_def Let_def)

lemma init_once_done [simp]: "ota_initialized (init_once en fo o1)"
  by (simp add: init_once_def)

lemma init_once_id [simp]: "ota_initialized o1 \<Longrightarrow> init_once en fo o1 = o1"
  by (simp add: init_once_def)

lemma set_error_inv [simp]:
  "ota_inv img flushed upgrade (set_error_locked r e o1) g \<longleftrightarrow> ota_initialized o1"
  by (simp add: ota_inv_def)

lemma ota_inv_close:
  assumes "ota_initialized o1" and "ota_state (status o1) \<noteq> OTA_UPDATE_STATE_UPLOADING"
  shows "ota_inv img flushed upgrade o1 g"
  using assms by (simp add: ota_inv_def)

lemma begin_fails:
  assumes "ota_update_begin en limit fo n o1 = (r, o2)" and "r \<noteq> 0"
  shows "(o2 = init_once en fo o1 \<and> \<not> en) \<or>
         (ota_initialized o2 \<and> ota_state (status o2) = OTA_UPDATE_STATE_ERROR)"
  using assms by (auto simp: ota_update_begin_def Let_def split: prod.splits if_splits)

lemma write_fails:
  assumes "ota_update_write en fo d len o1 = (r, o2)" and "r \<noteq> 0"
  shows "o2 = o1 \<or> o2 = init_once en fo o1 \<or> (ota_initialized o2 \<and> ota_state (status o2) = OTA_UPDATE_STATE_ERROR)"
  using assms by (auto simp: ota_update_write_def Let_def split: prod.splits if_splits)

lemma finish_fails:
  assumes "ota_update_finish en fo o1 = (r, o2)" and "r \<noteq> 0"
  shows "o2 = init_once en fo o1 \<or> (ota_initialized o2 \<and> ota_state (status o2) = OTA_UPDATE_STATE_ERROR)"
  using assms by (auto simp: ota_update_finish_def Let_def split: prod.splits if_splits)

lemma write_ok_cases:
  assumes "ota_update_write en fo (Some d) len o1 = (0, o2)"
  defines "o3 \<equiv> init_once en fo o1"
  shows "ota_state (status o3) = OTA_UPDATE_STATE_UPLOADING \<and>
    uploaded_bytes (status o3) + len \<le> expected_bytes (status o3) \<and>
    (\<exists>f. flash_img_buffered_write fo (take (unat len) d) False (flash o3) = (0, f) \<and>
       o2 = o3\<lparr>flash := f, status := (status o3)\<lparr>uploaded_bytes := uploaded_bytes (status o3) + len\<rparr>\<rparr>)"
  using assms
  by (auto simp: ota_update_write_def Let_def errno_defs o3_def not_less split: prod.splits if_splits)

lemma finish_ok_cases:
  assumes "ota_update_finish en fo o1 = (0, o2)"
  defines "o3 \<equiv> init_once en fo o1"
  shows "ota_state (status o3) = OTA_UPDATE_STATE_UPLOADING \<and>
    uploaded_bytes (status o3) = expected_bytes (status o3) \<and>
    (\<exists>f f'. flash_img_buffered_write fo [] True (flash o3) = (0, f) \<and> boot_request_upgrade fo f = (0, f') \<and>
       flash o2 = f') \<and> ota_state (status o2) = OTA_UPDATE_STATE_PENDING_REBOOT \<and> ota_initialized o2"
  using assms
  by (auto simp: ota_update_finish_def Let_def errno_defs o3_def not_less split: prod.splits if_splits)

context ota_flash
begin

lemma begin_succeeds:
  assumes "ota_update_begin en limit fo n o1 = (0, o2)"
  shows "img (flash o2) = [] \<and> ota_state (status o2) = OTA_UPDATE_STATE_UPLOADING \<and> expected_bytes (status o2) = n \<and>
         uploaded_bytes (status o2) = 0 \<and> ota_initialized o2"
  using assms
  by (auto simp: ota_update_begin_def Let_def errno_defs close_ok split: prod.splits if_splits dest!: erase_ok init_ok)

lemma begin_inv:
  assumes "ota_inv img flushed upgrade o1 g" and n: "unat n < 2 ^ 31"
    and b: "ota_update_begin en limit fo n o1 = (r, o2)"
  shows "ota_inv img flushed upgrade o2 (accepted_step (Call_begin n, r) g)"
proof (cases "r = 0")
  case True
  then show ?thesis using begin_succeeds[OF b[unfolded True]] n by (simp add: ota_inv_def)
next
  case False
  then show ?thesis
    using begin_fails[OF b False] init_once_uploading[OF assms(1), of en fo] by (auto simp: ota_inv_close)
qed

lemma write_inv:
  assumes "ota_inv img flushed upgrade o1 g" and d: "length d < 2 ^ 31"
    and b: "ota_update_write en fo (Some d) (of_nat (length d)) o1 = (r, o2)"
  shows "ota_inv img flushed upgrade o2 (accepted_step (Call_write d, r) g)"
proof (cases "r = 0")
  case True
  define o3 where "o3 = init_once en fo o1"
  have i: "ota_inv img flushed upgrade o3 g" using init_once_uploading[OF assms(1)] by (simp add: o3_def)
  have ld: "unat (of_nat (length d) :: u32) = length d" using d by (simp add: unat_of_nat_small)
  from write_ok_cases[OF b[unfolded True], folded o3_def] obtain f where
    s: "ota_state (status o3) = OTA_UPDATE_STATE_UPLOADING"
    and le: "uploaded_bytes (status o3) + of_nat (length d) \<le> expected_bytes (status o3)"
    and w: "flash_img_buffered_write fo d False (flash o3) = (0, f)"
    and o2: "o2 = o3\<lparr>flash := f, status := (status o3)\<lparr>uploaded_bytes := uploaded_bytes (status o3) + of_nat (length d)\<rparr>\<rparr>"
    using ld by auto
  have j: "img (flash o3) = snd g" "unat (expected_bytes (status o3)) = fst g" "fst g < 2 ^ 31"
    "uploaded_bytes (status o3) = of_nat (length (snd g))" "length (snd g) \<le> fst g"
    using i s by (auto simp: ota_inv_def)
  have "length (snd g) + length d < 2 ^ LENGTH(32)" using j(3,5) d by simp
  then have "unat (of_nat (length (snd g) + length d) :: u32) = length (snd g) + length d"
    by (rule unat_of_nat_small)
  then have "length (snd g) + length d \<le> fst g"
    using le j by (simp add: word_le_nat_alt)
  moreover have "img f = snd g @ d" using write_ok[OF w] j by simp
  ultimately show ?thesis using True i j by (simp add: o2 ota_inv_def o3_def)
next
  case False
  then show ?thesis
    using write_fails[OF b False] init_once_uploading[OF assms(1), of en fo] assms(1) by (auto simp: ota_inv_close)
qed

lemma finish_inv:
  assumes "ota_inv img flushed upgrade o1 g"
    and b: "ota_update_finish en fo o1 = (r, o2)"
  shows "ota_inv img flushed upgrade o2 g"
proof (cases "r = 0")
  case True
  then show ?thesis using finish_ok_cases[OF b[unfolded True]] by (simp add: ota_inv_close)
next
  case False
  then show ?thesis
    using finish_fails[OF b False] init_once_uploading[OF assms(1), of en fo] assms(1) by (auto simp: ota_inv_close)
qed

lemma step_inv:
  assumes i: "ota_inv img flushed upgrade o1 g" and f: "call_fits c"
    and s: "ota_step en limit fo c o1 = (r, o2)"
  shows "ota_inv img flushed upgrade o2 (accepted_step (c, r) g)"
proof -
  have j: "ota_inv img flushed upgrade (init_once en fo o1) g" using init_once_uploading[OF i] .
  show ?thesis
  proof (cases c)
    case Call_self_check
    then show ?thesis using s j
      by (auto simp: ota_update_self_check_web_reachable_def Let_def ota_inv_def split: prod.splits if_splits)
  qed (use s f i j begin_inv write_inv finish_inv in \<open>auto simp: ota_update_get_status_def
      ota_update_schedule_reboot_def ota_update_abort_def Let_def ota_inv_def[of _ _ _ "_\<lparr>reboot_scheduled := _\<rparr>"]
      ota_inv_def[of _ _ _ "init_once _ _ _"]\<close>)
qed

lemma run_inv:
  assumes "ota_inv img flushed upgrade o1 g" and "list_all call_fits cs"
    and "ota_run en limit fo cs o1 = (tr, o2)"
  shows "ota_inv img flushed upgrade o2 (fold accepted_step tr g)"
  using assms
proof (induction cs arbitrary: o1 g tr)
  case (Cons c cs)
  obtain r o3 where s: "ota_step en limit fo c o1 = (r, o3)" by fastforce
  obtain tr' where t: "ota_run en limit fo cs o3 = (tr', o2)" "tr = (c, r) # tr'"
    using Cons.prems(3) s by (auto split: prod.splits)
  have "ota_inv img flushed upgrade o3 (accepted_step (c, r) g)"
    using step_inv[OF Cons.prems(1) _ s] Cons.prems(2) by simp
  then show ?case using Cons.IH[OF _ _ t(1)] Cons.prems(2) t(2) by simp
qed simp

lemma finish_complete:
  assumes i: "ota_inv img flushed upgrade o1 g" and b: "ota_update_finish en fo o1 = (0, o2)"
  shows "img (flash o2) = snd g \<and> length (snd g) = fst g \<and> flushed (flash o2) \<and> upgrade (flash o2) \<and>
    ota_state (status o2) = OTA_UPDATE_STATE_PENDING_REBOOT"
proof -
  define o3 where "o3 = init_once en fo o1"
  have i: "ota_inv img flushed upgrade o3 g" using init_once_uploading[OF assms(1)] by (simp add: o3_def)
  from finish_ok_cases[OF b, folded o3_def] obtain f where
    s: "ota_state (status o3) = OTA_UPDATE_STATE_UPLOADING"
    and e: "uploaded_bytes (status o3) = expected_bytes (status o3)"
    and w: "flash_img_buffered_write fo [] True (flash o3) = (0, f)" "boot_request_upgrade fo f = (0, flash o2)"
    and p: "ota_state (status o2) = OTA_UPDATE_STATE_PENDING_REBOOT" by auto
  have j: "img (flash o3) = snd g" "unat (expected_bytes (status o3)) = fst g" "fst g < 2 ^ 31"
    "uploaded_bytes (status o3) = of_nat (length (snd g))" "length (snd g) \<le> fst g"
    using i s by (auto simp: ota_inv_def)
  have "unat (of_nat (length (snd g)) :: u32) = length (snd g)" by (rule unat_of_nat_small) (use j in simp)
  then have "length (snd g) = fst g" using e j by simp
  then show ?thesis using write_ok[OF w(1)] request_ok[OF w(2)] j p by simp
qed

end

lemma boot_inv: "ota_inv img flushed upgrade (ota_boot f) g"
  by (simp add: ota_inv_def ota_boot_def)

text \<open>C8. A new firmware image is only ever booted complete. Over any sequence of calls of the OTA module, in any
  order and with any failures of the flash, when the call that ends an upload reports success, the upload slot holds
  exactly the bytes that were accepted since the last successful begin, exactly as many as that begin announced,
  nothing is left in the write buffer, and the test boot is requested.\<close>

theorem ota_finish_means_complete:
  assumes "ota_flash fo img flushed upgrade"
    and "list_all call_fits calls"
    and "ota_run en limit fo calls (ota_boot f) = (tr, o1)"
    and "ota_update_finish en fo o1 = (0, o2)"
  shows "img (flash o2) = snd (accepted tr) \<and> length (img (flash o2)) = fst (accepted tr) \<and>
    flushed (flash o2) \<and> upgrade (flash o2) \<and> ota_state (status o2) = OTA_UPDATE_STATE_PENDING_REBOOT"
  using ota_flash.finish_complete[OF assms(1) ota_flash.run_inv[OF assms(1) boot_inv[of _ _ _ f "(0, [])"] assms(2,3)] assms(4)]
  by (simp add: accepted_def)

text \<open>A flash that keeps the laws: a slot of \<open>nor_size\<close> bytes.\<close>

record nor_flash =
  nor_size :: nat
  nor_image :: "byte list"
  nor_flushed :: bool
  nor_upgrade :: bool
  nor_confirmed :: bool

definition nor_ops :: "nor_flash flash_ops" where
  "nor_ops = \<lparr>boot_is_img_confirmed = nor_confirmed, flash_img_get_upload_slot = (\<lambda>f. 1),
     flash_area_open = (\<lambda>s f. (0, of_nat (nor_size f), f)), flash_area_close = (\<lambda>f. f),
     boot_erase_img_bank = (\<lambda>s f. (0, f\<lparr>nor_image := [], nor_upgrade := False\<rparr>)),
     flash_img_init_id = (\<lambda>s f. (0, f\<lparr>nor_flushed := False\<rparr>)),
     flash_img_buffered_write = (\<lambda>d fl f.
       if length (nor_image f) + length d > nor_size f then (- ENOMEM, f)
       else (0, f\<lparr>nor_image := nor_image f @ d, nor_flushed := fl\<rparr>)),
     boot_request_upgrade = (\<lambda>f. (0, f\<lparr>nor_upgrade := True\<rparr>)),
     boot_write_img_confirmed = (\<lambda>f. (0, f\<lparr>nor_confirmed := True\<rparr>))\<rparr>"

interpretation nor: ota_flash nor_ops nor_image nor_flushed nor_upgrade
  by unfold_locales (auto simp: nor_ops_def errno_defs split: if_splits)

definition nor_blank :: nor_flash where
  "nor_blank = \<lparr>nor_size = 64, nor_image = [], nor_flushed = False, nor_upgrade = False, nor_confirmed = True\<rparr>"

definition demo_upload :: "ota_call list" where
  "demo_upload = [Call_begin 3, Call_write [1], Call_abort None, Call_begin 5, Call_write [7, 8], Call_write [9, 10, 11]]"

lemma demo_upload_run:
  "\<exists>o1. ota_run True 0 nor_ops demo_upload (ota_boot nor_blank) =
     ([(Call_begin 3, 0), (Call_write [1], 0), (Call_abort None, 0), (Call_begin 5, 0), (Call_write [7, 8], 0),
       (Call_write [9, 10, 11], 0)], o1) \<and> fst (ota_update_finish True nor_ops o1) = 0"
  by (simp add: demo_upload_def ota_boot_def nor_blank_def nor_ops_def ota_update_begin_def init_once_def Let_def
      ota_update_validate_upload_size_def configured_limit_or_slot_size_def ota_update_write_def ota_update_abort_def
      ota_update_finish_def set_error_locked_def)

theorem ota_finish_means_complete_witness:
  "\<exists>tr o1 o2. ota_run True 0 nor_ops demo_upload (ota_boot nor_blank) = (tr, o1) \<and>
     ota_update_finish True nor_ops o1 = (0, o2) \<and> nor_image (flash o2) = [7, 8, 9, 10, 11] \<and> nor_upgrade (flash o2)"
proof -
  obtain o1 where r: "ota_run True 0 nor_ops demo_upload (ota_boot nor_blank) =
     ([(Call_begin 3, 0), (Call_write [1], 0), (Call_abort None, 0), (Call_begin 5, 0), (Call_write [7, 8], 0),
       (Call_write [9, 10, 11], 0)], o1)" and z: "fst (ota_update_finish True nor_ops o1) = 0"
    using demo_upload_run by blast
  obtain o2 where f: "ota_update_finish True nor_ops o1 = (0, o2)" using z by (metis prod.collapse)
  have "list_all call_fits demo_upload" by (simp add: demo_upload_def)
  from ota_finish_means_complete[OF nor.ota_flash_axioms this r f] r f show ?thesis
    by (auto simp: accepted_def)
qed

end
