(* ===== verification/Web_Ota.thy ===== *)
theory Web_Ota
  imports Web_Response Ota_Update
begin

text \<open>
  The firmware upload of the web application, \<open>src/src/web_app.c\<close>: \<open>POST /api/ota/upload\<close> streams the body of
  the request into the upload slot through the OTA module.

  \<open>wb_ota\<close>, \<open>wb_ota_trusted\<close> and \<open>wb_ota_limit\<close> are the Kconfig options. The receiving loop is a partial function
  because a receive may be interrupted for ever; the property shows that it ends for a client that sends
  what it announced.
\<close>

section \<open>Translation\<close>

record web_build =
  wb_ota :: bool
  wb_ota_trusted :: bool
  wb_ota_limit :: int
  wb_version :: string

definition ota_upload_allowed :: "web_build \<Rightarrow> bool" where
  "ota_upload_allowed bld \<longleftrightarrow> wb_ota bld \<and> wb_ota_trusted bld"

definition ota_error_text :: "string \<Rightarrow> byte list" where
  "ota_error_text message = bytes_of ''{\"ok\":false,\"error\":\"'' @ bytes_of message @ bytes_of ''\"}'' @ [10]"

definition write_ota_error_response :: "'w web_ops \<Rightarrow> string \<Rightarrow> string \<Rightarrow> 'w \<Rightarrow> (rc \<times> 'w) option" where
  "write_ota_error_response wo state message w =
     write_text_response wo state ''application/json'' (fst (snprintk 160 (ota_error_text message))) w"

definition ota_success_text :: "byte list" where
  "ota_success_text = bytes_of ''{\"ok\":true,\"state\":\"pending_reboot\"}'' @ [10]"

definition write_ota_success_response :: "'w web_ops \<Rightarrow> 'w \<Rightarrow> (rc \<times> 'w) option" where
  "write_ota_success_response wo w = write_text_response wo ''200 OK'' ''application/json'' (ota_success_text @ [0]) w"

text \<open>The return value, \<open>*uploaded\<close> and the module.\<close>

definition write_ota_body_chunk ::
  "bool \<Rightarrow> 'f flash_ops \<Rightarrow> byte list \<Rightarrow> nat \<Rightarrow> 'f ota \<Rightarrow> rc \<times> nat \<times> 'f ota"
where
  "write_ota_body_chunk en fo data uploaded o1 =
     (if length data = 0 then (0, uploaded, o1)
      else case ota_update_write en fo (Some data) (of_nat (length data)) o1 of
        (ret, o1) \<Rightarrow> (ret, if ret = 0 then uploaded + length data else uploaded, o1))"

text \<open>The loop of the handler: \<open>None\<close> for a connection that ended early, \<open>Some ret\<close> otherwise.\<close>

partial_function (option) ota_receive ::
  "'w web_ops \<Rightarrow> 'f flash_ops \<Rightarrow> nat \<Rightarrow> rc \<Rightarrow> nat \<Rightarrow> 'f ota \<Rightarrow> 'w \<Rightarrow> (rc option \<times> 'f ota \<times> 'w) option"
where
  "ota_receive wo fo total_len ret uploaded o1 w =
     (if ret = 0 \<and> uploaded < total_len then
        (case zsock_recv (web_sock wo) (min WEB_APP_RX_BUF_SIZE (total_len - uploaded)) w of
           (Inl e, w) \<Rightarrow>
             if e = EINTR then ota_receive wo fo total_len ret uploaded o1 w else Some (None, o1, w)
         | (Inr received, w) \<Rightarrow>
             if received = [] then Some (None, o1, w)
             else
               (case write_ota_body_chunk True fo received uploaded o1 of
                  (ret, uploaded, o1) \<Rightarrow> ota_receive wo fo total_len ret uploaded o1 w))
      else Some (Some ret, o1, w))"

definition handle_ota_upload ::
  "'w web_ops \<Rightarrow> web_build \<Rightarrow> 'f flash_ops \<Rightarrow> byte list \<Rightarrow> http_request \<Rightarrow> 'f ota \<Rightarrow> 'w \<Rightarrow> ('f ota \<times> 'w) option"
where
  "handle_ota_upload wo bld fo buf request o1 w =
     (let refuse = (\<lambda>status message o1 w.
            do { (ret, w) \<leftarrow> write_ota_error_response wo status message w; Some (o1, w) })
      in
      if \<not> ota_upload_allowed bld then refuse ''403 Forbidden'' ''OTA uploads are disabled'' o1 w
      else if \<not> has_content_length request
      then refuse ''411 Length Required'' ''Content-Length required'' o1 w
      else if body_len request > unat (content_length request)
      then refuse ''400 Bad Request'' ''body exceeds Content-Length'' o1 w
      else
        (case ota_update_begin True (wb_ota_limit bld) fo (content_length request) o1 of
           (ret, o1) \<Rightarrow>
             if ret \<noteq> 0
             then refuse (if ret = - EFBIG then ''413 Payload Too Large'' else ''400 Bad Request'')
               ''invalid OTA upload size'' o1 w
             else
               (case write_ota_body_chunk True fo (take (body_len request) (drop (rq_body request) buf)) 0 o1 of
                  (ret, uploaded, o1) \<Rightarrow>
                    do {
                      (x, o1, w) \<leftarrow> ota_receive wo fo (unat (content_length request)) ret uploaded o1 w;
                      (case x of
                         None \<Rightarrow>
                           refuse ''400 Bad Request'' ''upload ended early''
                             (ota_update_abort True fo (Some ''OTA upload connection closed early'') o1) w
                       | Some ret \<Rightarrow>
                           if ret \<noteq> 0
                           then refuse ''500 Internal Server Error'' ''writing OTA image failed''
                             (ota_update_abort True fo (Some ''OTA image write failed'') o1) w
                           else
                             (case ota_update_finish True fo o1 of
                                (ret, o1) \<Rightarrow>
                                  if ret \<noteq> 0
                                  then refuse ''500 Internal Server Error'' ''finishing OTA image failed''
                                    (ota_update_abort True fo (Some ''OTA image finish failed'') o1) w
                                  else
                                    do {
                                      (ret, w) \<leftarrow> write_ota_success_response wo w;
                                      Some (ota_update_schedule_reboot True fo o1, w)
                                    }))
                    })))"

section \<open>The upload\<close>

text \<open>The texts fit their arrays.\<close>

lemma snprintk_fits: "length t < n \<Longrightarrow> fst (snprintk n t) = t @ [0]"
  by (simp add: snprintk_def)

lemma ota_error_text_no_nul: "0 \<notin> set (bytes_of message) \<Longrightarrow> 0 \<notin> set (ota_error_text message)"
  by (simp add: ota_error_text_def bytes_of_def)

context web_client
begin

lemma ota_error_sent:
  assumes "length st \<le> 60" and "length message < 100" and "0 \<notin> set (bytes_of message)"
  shows "\<exists>w'. write_ota_error_response wo st message w = Some (0, w') \<and>
    wire w' = wire w @ response st ''application/json'' (ota_error_text message) \<and> incoming w' = incoming w"
proof -
  have "length (ota_error_text message) < 160" using assms(2) by (simp add: ota_error_text_def)
  then show ?thesis
    using text_response_sent[of st "''application/json''" "ota_error_text message @ [0]" w] assms
    by (simp add: write_ota_error_response_def snprintk_fits ota_error_text_no_nul)
qed

lemma ota_success_sent:
  "\<exists>w'. write_ota_success_response wo w = Some (0, w') \<and>
    wire w' = wire w @ response ''200 OK'' ''application/json'' ota_success_text \<and> incoming w' = incoming w"
proof -
  have "0 \<notin> set ota_success_text" "length ota_success_text < 10 ^ 10"
    by (simp_all add: ota_success_text_def bytes_of_def)
  then show ?thesis
    using text_response_sent[of "''200 OK''" "''application/json''" "ota_success_text @ [0]" w]
    by (simp add: write_ota_success_response_def)
qed

end

text \<open>What an operation leaves alone.\<close>

lemma set_error_keeps [simp]:
  "reboot_scheduled (set_error_locked r e o1) = reboot_scheduled o1"
  by (simp add: set_error_locked_def Let_def)

lemma init_once_keeps [simp]: "reboot_scheduled (init_once en fo o1) = reboot_scheduled o1"
  by (simp add: init_once_def)

lemma abort_state [simp]:
  "ota_state (status (ota_update_abort True fo r o1)) = OTA_UPDATE_STATE_ERROR"
  "reboot_scheduled (ota_update_abort True fo r o1) = reboot_scheduled o1"
  by (simp_all add: ota_update_abort_def Let_def)

lemma begin_keeps: "ota_update_begin en limit fo n o1 = (r, o2) \<Longrightarrow> reboot_scheduled o2 = reboot_scheduled o1"
  by (auto simp: ota_update_begin_def Let_def split: prod.splits if_splits)

lemma write_keeps: "ota_update_write en fo d n o1 = (r, o2) \<Longrightarrow> reboot_scheduled o2 = reboot_scheduled o1"
  by (auto simp: ota_update_write_def Let_def split: prod.splits if_splits)

lemma finish_keeps: "ota_update_finish en fo o1 = (r, o2) \<Longrightarrow> reboot_scheduled o2 = reboot_scheduled o1"
  by (auto simp: ota_update_finish_def Let_def split: prod.splits if_splits)

text \<open>The invariant of the loop: the module is uploading and has accepted \<open>b\<close> of \<open>n\<close> bytes.\<close>

locale ota_client = web_client wo wire incoming interrupts stalls + ota_flash fo img flushed upgrade
  for wo :: "'w web_ops" and wire incoming :: "'w \<Rightarrow> byte list" and interrupts stalls :: "'w \<Rightarrow> nat"
    and fo :: "'f flash_ops" and img :: "'f \<Rightarrow> byte list" and flushed upgrade :: "'f \<Rightarrow> bool"
begin

lemma chunk_accepted:
  assumes i: "ota_inv img flushed upgrade o1 (n, b)" "ota_state (status o1) = OTA_UPDATE_STATE_UPLOADING" "ota_initialized o1"
    and d: "length d < 2 ^ 31" and w: "write_ota_body_chunk True fo d (length b) o1 = (ret, u, o2)"
  shows "ota_initialized o2 \<and> reboot_scheduled o2 = reboot_scheduled o1 \<and>
    (ret = 0 \<longrightarrow> u = length (b @ d) \<and> ota_inv img flushed upgrade o2 (n, b @ d) \<and>
       ota_state (status o2) = OTA_UPDATE_STATE_UPLOADING)"
proof (cases "d = []")
  case True
  then show ?thesis using w i by (simp add: write_ota_body_chunk_def)
next
  case False
  obtain r where r: "ota_update_write True fo (Some d) (of_nat (length d)) o1 = (r, o2)" "ret = r"
      "r = 0 \<Longrightarrow> u = length b + length d"
    using w False by (auto simp: write_ota_body_chunk_def split: prod.splits)
  have "ota_initialized o2"
    using r(1) i(3) by (auto simp: ota_update_write_def Let_def split: prod.splits if_splits)
  moreover have "ota_inv img flushed upgrade o2 (n, b @ d) \<and> ota_state (status o2) = OTA_UPDATE_STATE_UPLOADING" if "r = 0"
    using write_inv[OF i(1) d r(1)] write_ok_cases[OF r(1)[unfolded that]] i(3) that by auto
  ultimately show ?thesis using r write_keeps[OF r(1)] by auto
qed

lemma receive_body:
  assumes "ret = 0 \<longrightarrow> u = length b \<and> ota_inv img flushed upgrade o1 (n, b) \<and>
      ota_state (status o1) = OTA_UPDATE_STATE_UPLOADING"
    and "ota_initialized o1" and "length b \<le> n" and "n \<le> length b + length (incoming w)" and "n < 2 ^ 31"
  shows "\<exists>ret' o2 w'. ota_receive wo fo n ret u o1 w = Some (Some ret', o2, w') \<and>
    wire w' = wire w \<and> ota_initialized o2 \<and> reboot_scheduled o2 = reboot_scheduled o1 \<and>
    (ret' = 0 \<longrightarrow> ota_inv img flushed upgrade o2 (n, b @ take (n - length b) (incoming w)) \<and>
       ota_state (status o2) = OTA_UPDATE_STATE_UPLOADING)"
  using assms
proof (induction "length (incoming w)" arbitrary: b ret u o1 w rule: less_induct)
  case less
  note received = less
  show ?case
    using received(2-6) received(1)
  proof (induction "interrupts w" arbitrary: w rule: less_induct)
    case (less w)
    note interrupted = less(1) and st = less(2) and rest = less(3-6) and IH = less(7)
    show ?case
    proof (cases "ret = 0 \<and> u < n")
      case False
      then have "length b = n" if "ret = 0" using st rest(2) that by auto
      then show ?thesis using False st rest by (subst ota_receive.simps) auto
    next
      case True
      then have s: "u = length b" "ota_inv img flushed upgrade o1 (n, b)" "ota_state (status o1) = OTA_UPDATE_STATE_UPLOADING"
        using st by auto
      let ?want = "min WEB_APP_RX_BUF_SIZE (n - length b)"
      have room: "0 < ?want" using True s(1) by (simp add: WEB_APP_RX_BUF_SIZE_def)
      have inc: "incoming w \<noteq> []" using rest(3) True s(1) by auto
      obtain x w1 where x: "zsock_recv (web_sock wo) ?want w = (x, w1)" by fastforce
      show ?thesis
      proof (cases x)
        case (Inl e)
        note e = recv_interrupted[OF x[unfolded Inl] room inc]
        have "\<exists>ret' o2 w'. ota_receive wo fo n ret u o1 w1 = Some (Some ret', o2, w') \<and>
          wire w' = wire w1 \<and> ota_initialized o2 \<and> reboot_scheduled o2 = reboot_scheduled o1 \<and>
          (ret' = 0 \<longrightarrow> ota_inv img flushed upgrade o2 (n, b @ take (n - length b) (incoming w1)) \<and>
             ota_state (status o2) = OTA_UPDATE_STATE_UPLOADING)"
          using interrupted[of w1] e st rest IH by simp
        then show ?thesis
          using x e True s(1) recv_silent[OF x] by (subst ota_receive.simps) (simp add: Inl)
      next
        case (Inr chunk)
        note c = recv_gives[OF x[unfolded Inr]] recv_some[OF x[unfolded Inr] room inc]
        obtain ret2 u2 o2 where k: "write_ota_body_chunk True fo chunk u o1 = (ret2, u2, o2)" by (metis prod_cases3)
        have len: "length chunk < 2 ^ 31" using c by (simp add: WEB_APP_RX_BUF_SIZE_def)
        have nb: "length (b @ chunk) \<le> n" using c rest(2) by auto
        note a = chunk_accepted[OF s(2,3) rest(1) len k[unfolded s(1)]]
        have smaller: "length (incoming w1) < length (incoming w)" using c by simp
        have step: "ota_receive wo fo n ret u o1 w = ota_receive wo fo n ret2 u2 o2 w1"
          using x c True k s(1) by (subst ota_receive.simps) (simp add: Inr)
        have tk: "take (n - length b) (incoming w) = chunk @ take (n - length (b @ chunk)) (incoming w1)"
          using c nb by simp
        have "\<exists>ret' o3 w'. ota_receive wo fo n ret2 u2 o2 w1 = Some (Some ret', o3, w') \<and>
          wire w' = wire w1 \<and> ota_initialized o3 \<and> reboot_scheduled o3 = reboot_scheduled o2 \<and>
          (ret' = 0 \<longrightarrow> ota_inv img flushed upgrade o3 (n, (b @ chunk) @ take (n - length (b @ chunk)) (incoming w1)) \<and>
             ota_state (status o3) = OTA_UPDATE_STATE_UPLOADING)"
          by (rule IH[OF smaller]) (use a nb rest(3,4) c in auto)
        then show ?thesis using step tk recv_silent[OF x] a by simp
      qed
    qed
  qed
qed

end

text \<open>The two outcomes: refused, or the whole body in the slot.\<close>

definition upload_refused :: "('w \<Rightarrow> byte list) \<Rightarrow> 'f ota \<Rightarrow> 'w \<Rightarrow> 'f ota \<Rightarrow> 'w \<Rightarrow> bool" where
  "upload_refused wire o1 w o2 w' \<longleftrightarrow>
     (\<exists>st m. take 3 st \<noteq> ''200'' \<and> wire w' = wire w @ response st ''application/json'' (ota_error_text m)) \<and>
     (o2 = o1 \<or> ota_state (status o2) = OTA_UPDATE_STATE_ERROR) \<and> reboot_scheduled o2 = reboot_scheduled o1"

definition upload_complete ::
  "('w \<Rightarrow> byte list) \<Rightarrow> ('f \<Rightarrow> byte list) \<Rightarrow> ('f \<Rightarrow> bool) \<Rightarrow> ('f \<Rightarrow> bool) \<Rightarrow> byte list \<Rightarrow> 'w \<Rightarrow> 'f ota \<Rightarrow> 'w \<Rightarrow> bool"
where
  "upload_complete wire img flushed upgrade bytes w o2 w' \<longleftrightarrow>
     wire w' = wire w @ response ''200 OK'' ''application/json'' ota_success_text \<and>
     img (flash o2) = bytes \<and> flushed (flash o2) \<and> upgrade (flash o2) \<and>
     ota_state (status o2) = OTA_UPDATE_STATE_PENDING_REBOOT \<and> reboot_scheduled o2"

lemma schedule_reboot_ready: "ota_initialized o1 \<Longrightarrow> ota_update_schedule_reboot True fo o1 = o1\<lparr>reboot_scheduled := True\<rparr>"
  by (simp add: ota_update_schedule_reboot_def Let_def)

context ota_client
begin

lemma refusal:
  assumes "length st \<le> 60" and "length m < 100" and "0 \<notin> set (bytes_of m)" and "take 3 st \<noteq> ''200''"
    and "o2 = o1 \<or> ota_state (status o2) = OTA_UPDATE_STATE_ERROR" and "reboot_scheduled o2 = reboot_scheduled o1"
    and "wire w1 = wire w"
  shows "\<exists>w'. (do { (ret, w) \<leftarrow> write_ota_error_response wo st m w1; Some (o2, w) }) = Some (o2, w') \<and>
    upload_refused wire o1 w o2 w'"
proof -
  obtain w' where "write_ota_error_response wo st m w1 = Some (0, w')"
    "wire w' = wire w1 @ response st ''application/json'' (ota_error_text m)"
    using ota_error_sent[OF assms(1-3), of w1] by blast
  then show ?thesis using assms(4-) by (auto simp: upload_refused_def)
qed

lemma upload_result:
  assumes n: "n = unat (content_length p)" "n < 2 ^ 31"
    and body: "body = take (body_len p) (drop (rq_body p) buf) @ incoming w"
    and len: "has_content_length p \<longrightarrow> n \<le> length body" and fits: "rq_body p + body_len p \<le> length buf"
  shows "\<exists>o2 w'. handle_ota_upload wo bld fo buf p o1 w = Some (o2, w') \<and>
    (upload_refused wire o1 w o2 w' \<or> upload_complete wire img flushed upgrade (take n body) w o2 w' \<and> n \<le> length body)"
proof (cases "ota_upload_allowed bld \<and> has_content_length p \<and> body_len p \<le> n")
  case False
  let ?e = "\<lambda>st m. \<exists>w'. (do { (ret, w) \<leftarrow> write_ota_error_response wo st m w; Some (o1, w) }) = Some (o1, w') \<and>
    upload_refused wire o1 w o1 w'"
  have "?e ''403 Forbidden'' ''OTA uploads are disabled''" "?e ''411 Length Required'' ''Content-Length required''"
    "?e ''400 Bad Request'' ''body exceeds Content-Length''"
    by (rule refusal; simp add: bytes_of_def)+
  then show ?thesis using False n(1) by (auto simp: handle_ota_upload_def Let_def)
next
  case ok: True
  define d where "d = take (body_len p) (drop (rq_body p) buf)"
  have dl: "length d = body_len p" using fits by (simp add: d_def)
  have handle: "handle_ota_upload wo bld fo buf p o1 w =
    (case ota_update_begin True (wb_ota_limit bld) fo (content_length p) o1 of (ret, o2) \<Rightarrow>
       if ret \<noteq> 0 then do { (r, w) \<leftarrow> write_ota_error_response wo
           (if ret = - EFBIG then ''413 Payload Too Large'' else ''400 Bad Request'') ''invalid OTA upload size'' w; Some (o2, w) }
       else case write_ota_body_chunk True fo d 0 o2 of (ret, uploaded, o2) \<Rightarrow>
         do {
           (x, o2, w) \<leftarrow> ota_receive wo fo n ret uploaded o2 w;
           (case x of
              None \<Rightarrow> do { (r, w) \<leftarrow> write_ota_error_response wo ''400 Bad Request'' ''upload ended early'' w;
                           Some (ota_update_abort True fo (Some ''OTA upload connection closed early'') o2, w) }
            | Some ret \<Rightarrow>
                if ret \<noteq> 0 then do { (r, w) \<leftarrow> write_ota_error_response wo ''500 Internal Server Error'' ''writing OTA image failed'' w;
                           Some (ota_update_abort True fo (Some ''OTA image write failed'') o2, w) }
                else case ota_update_finish True fo o2 of (ret, o2) \<Rightarrow>
                  if ret \<noteq> 0 then do { (r, w) \<leftarrow> write_ota_error_response wo ''500 Internal Server Error'' ''finishing OTA image failed'' w;
                           Some (ota_update_abort True fo (Some ''OTA image finish failed'') o2, w) }
                  else do { (r, w) \<leftarrow> write_ota_success_response wo w; Some (ota_update_schedule_reboot True fo o2, w) })
         })"
    using ok unfolding d_def n(1) by (simp add: handle_ota_upload_def Let_def)
  obtain r1 o2 where b: "ota_update_begin True (wb_ota_limit bld) fo (content_length p) o1 = (r1, o2)" by fastforce
  note kept = begin_keeps[OF b]
  show ?thesis
  proof (cases "r1 = 0")
    case False
    have "\<exists>w'. (do { (r, w) \<leftarrow> write_ota_error_response wo (if r1 = - EFBIG then ''413 Payload Too Large'' else ''400 Bad Request'')
        ''invalid OTA upload size'' w; Some (o2, w) }) = Some (o2, w') \<and> upload_refused wire o1 w o2 w'"
      by (rule refusal) (use begin_fails[OF b False] kept in \<open>auto simp: bytes_of_def\<close>)
    then show ?thesis using handle b False by auto
  next
    case True
    note s = begin_succeeds[OF b[unfolded True]]
    have i2: "ota_inv img flushed upgrade o2 (n, [])" using s n by (simp add: ota_inv_def)
    obtain r2 u o3 where c: "write_ota_body_chunk True fo d 0 o2 = (r2, u, o3)" by (metis prod_cases3)
    have d31: "length d < 2 ^ 31" using dl ok n by simp
    note ch = chunk_accepted[where b = "[]", simplified, OF i2 _ _ d31[simplified] c]
    have pre: "r2 = 0 \<longrightarrow> u = length d \<and> ota_inv img flushed upgrade o3 (n, d) \<and> ota_state (status o3) = OTA_UPDATE_STATE_UPLOADING"
      "ota_initialized o3" "reboot_scheduled o3 = reboot_scheduled o1"
      using ch s kept by auto
    have "length d \<le> n" "n \<le> length d + length (incoming w)" using ok dl len body by (auto simp: d_def)
    from receive_body[OF pre(1,2) this n(2)] obtain r3 o4 w1 where
      rv: "ota_receive wo fo n r2 u o3 w = Some (Some r3, o4, w1)" "wire w1 = wire w" "ota_initialized o4"
      "reboot_scheduled o4 = reboot_scheduled o3"
      "r3 = 0 \<longrightarrow> ota_inv img flushed upgrade o4 (n, d @ take (n - length d) (incoming w)) \<and>
         ota_state (status o4) = OTA_UPDATE_STATE_UPLOADING" by blast
    have tk: "d @ take (n - length d) (incoming w) = take n body" using ok dl body by (simp add: d_def)
    show ?thesis
    proof (cases "r3 = 0")
      case False
      have "\<exists>w'. (do { (r, w) \<leftarrow> write_ota_error_response wo ''500 Internal Server Error'' ''writing OTA image failed'' w1;
            Some (ota_update_abort True fo (Some ''OTA image write failed'') o4, w) }) =
            Some (ota_update_abort True fo (Some ''OTA image write failed'') o4, w') \<and>
          upload_refused wire o1 w (ota_update_abort True fo (Some ''OTA image write failed'') o4) w'"
        by (rule refusal) (use pre rv in \<open>simp_all add: bytes_of_def\<close>)
      then show ?thesis using handle b True c rv(1) False by auto
    next
      case r3: True
      obtain r4 o5 where f: "ota_update_finish True fo o4 = (r4, o5)" by fastforce
      show ?thesis
      proof (cases "r4 = 0")
        case False
        have "\<exists>w'. (do { (r, w) \<leftarrow> write_ota_error_response wo ''500 Internal Server Error'' ''finishing OTA image failed'' w1;
              Some (ota_update_abort True fo (Some ''OTA image finish failed'') o5, w) }) =
              Some (ota_update_abort True fo (Some ''OTA image finish failed'') o5, w') \<and>
            upload_refused wire o1 w (ota_update_abort True fo (Some ''OTA image finish failed'') o5) w'"
          by (rule refusal) (use pre rv finish_keeps[OF f] in \<open>simp_all add: bytes_of_def\<close>)
        then show ?thesis using handle b True c rv(1) r3 f False by auto
      next
        case r4: True
        have inv: "ota_inv img flushed upgrade o4 (n, take n body)" using rv(5) r3 tk by simp
        note fc = finish_complete[OF inv f[unfolded r4]]
        have o5: "ota_initialized o5" using finish_ok_cases[OF f[unfolded r4]] by blast
        obtain w2 where w2: "write_ota_success_response wo w1 = Some (0, w2)"
          "wire w2 = wire w1 @ response ''200 OK'' ''application/json'' ota_success_text"
          using ota_success_sent[of w1] by blast
        have "upload_complete wire img flushed upgrade (take n body) w (ota_update_schedule_reboot True fo o5) w2"
          using fc w2 rv(2) by (simp add: upload_complete_def schedule_reboot_ready[OF o5])
        moreover have "n \<le> length body" using len ok by simp
        ultimately show ?thesis using handle b True c rv(1) r3 f r4 w2(1) by simp
      qed
    qed
  qed
qed

end

section \<open>Properties\<close>


interpretation upload_demo: ota_client client_web cl_wire client_incoming client_interrupts "\<lambda>w. 0"
    nor_ops nor_image nor_flushed nor_upgrade
  by (rule ota_client.intro[OF web_demo.web_client_axioms nor.ota_flash_axioms])

definition demo_build :: web_build where
  "demo_build = \<lparr>wb_ota = True, wb_ota_trusted = True, wb_ota_limit = 0, wb_version = ''1.0.0''\<rparr>"

definition upload_request :: "http_request" where
  "upload_request = \<lparr>rq_method = 0, method_len = 4, rq_path = 5, path_len = 15, content_length = 5, has_content_length = True,
     rq_body = 20, body_len = 2\<rparr>"

definition upload_client :: client where
  "upload_client = \<lparr>cl_wire = [], cl_pieces = [[3], [], [4, 5, 6]]\<rparr>"

definition upload_buf :: "byte list" where
  "upload_buf = replicate 20 0 @ [1, 2] @ replicate 10 0"

lemma demo_received:
  "\<exists>o1 o2 o3. ota_update_begin True 0 nor_ops 5 (ota_boot nor_blank) = (0, o1) \<and>
     write_ota_body_chunk True nor_ops [1, 2] 0 o1 = (0, 2, o2) \<and>
     ota_receive client_web nor_ops 5 0 2 o2 upload_client = Some (Some 0, o3, upload_client\<lparr>cl_pieces := [[6]]\<rparr>) \<and>
     fst (ota_update_finish True nor_ops o3) = 0"
  by (simp add: upload_client_def ota_boot_def nor_blank_def nor_ops_def ota_update_begin_def init_once_def Let_def
      ota_update_validate_upload_size_def configured_limit_or_slot_size_def ota_update_write_def write_ota_body_chunk_def
      ota_update_finish_def set_error_locked_def ota_receive.simps client_ops_def client_recv_def WEB_APP_RX_BUF_SIZE_def)

lemma demo_not_refused:
  assumes "handle_ota_upload client_web demo_build nor_ops upload_buf upload_request (ota_boot nor_blank) upload_client = Some (o2, w')"
  shows "reboot_scheduled o2"
proof -
  obtain o1 o2 o3 where "ota_update_begin True 0 nor_ops 5 (ota_boot nor_blank) = (0, o1)"
     "write_ota_body_chunk True nor_ops [1, 2] 0 o1 = (0, 2, o2)"
     "ota_receive client_web nor_ops 5 0 2 o2 upload_client = Some (Some 0, o3, upload_client\<lparr>cl_pieces := [[6]]\<rparr>)"
     "fst (ota_update_finish True nor_ops o3) = 0" using demo_received by blast
  moreover obtain r o4 where "ota_update_finish True nor_ops o3 = (r, o4)" by fastforce
  ultimately show ?thesis
    using assms
    by (auto simp: handle_ota_upload_def Let_def ota_upload_allowed_def demo_build_def upload_request_def upload_buf_def
        ota_update_schedule_reboot_def split: bind_splits)
qed


end
