(* ===== verification/Config_Text.thy ===== *)
theory Config_Text
  imports Bridge_Prelude
begin

text \<open>
  The validators of \<open>src/src/bridge_config.h\<close>: \<open>bridge_config_tcp_client_host_valid\<close>,
  \<open>bridge_config_text_valid\<close> and \<open>bridge_config_hostname_valid\<close>. Each walks a C string in a
  char array; the translation reads the array through \<open>rd\<close>, so that the result \<open>None\<close> is a read
  past the array. For every terminated array the validators stay inside it and accept
  exactly the strings of their specification: the empty string and the canonical dotted quads;
  the UTF-8 encodings of Unicode scalar values from U+0020 on; the DNS labels of at most 32
  characters.
\<close>

section \<open>Translation\<close>

definition BRIDGE_CONFIG_HOSTNAME_MAX :: nat where "BRIDGE_CONFIG_HOSTNAME_MAX = 32"

definition dec_char :: "byte \<Rightarrow> bool" where
  "dec_char c \<longleftrightarrow> 48 \<le> c \<and> c \<le> 57"

text \<open>The inner loop over the digits of an octet: the position, the value and the number of digits.\<close>

function host_digits :: "byte list \<Rightarrow> nat \<Rightarrow> nat \<Rightarrow> nat \<Rightarrow> (nat \<times> nat \<times> nat) option" where
  "host_digits h i v digits =
     do {
       c \<leftarrow> rd h i;
       if dec_char c \<and> digits < 4
       then host_digits h (Suc i) (v * 10 + (unat c - 48)) (Suc digits)
       else Some (i, v, digits)
     }"
  by pat_completeness auto
termination
  by (relation "measure (\<lambda>(h, i, v, digits). length h - i)") (auto simp: rd_def split: if_splits)

declare host_digits.simps [simp del]

lemma host_digits_progress:
  "host_digits h i v d = Some (j, v', d') \<Longrightarrow> i + d' = j + d \<and> d \<le> d'"
proof (induction h i v d rule: host_digits.induct)
  case (1 h i v d)
  show ?case
  proof (cases "rd h i")
    case (Some c)
    show ?thesis
    proof (cases "dec_char c \<and> d < 4")
      case True
      then show ?thesis
        using 1(1)[OF Some True] 1(2) Some by (subst (asm) (2) host_digits.simps) auto
    next
      case False
      then show ?thesis using 1(2) Some by (subst (asm) host_digits.simps) auto
    qed
  qed (use 1(2) in \<open>subst (asm) host_digits.simps, simp\<close>)
qed

function host_octets :: "byte list \<Rightarrow> nat \<Rightarrow> nat \<Rightarrow> bool option" where
  "host_octets h i octets =
     do {
       c \<leftarrow> rd h i;
       if c = 0 then Some (octets = 4)
       else do {
         leading_zero \<leftarrow> (if c = 48 then do { d \<leftarrow> rd h (Suc i); Some (dec_char d) } else Some False);
         (j, v, digits) \<leftarrow> host_digits h i 0 0;
         if digits = 0 \<or> digits > 3 \<or> v > 255 \<or> leading_zero then Some False
         else do {
           e \<leftarrow> rd h j;
           if e = 46 then
             (if Suc octets = 4 then Some False else host_octets h (Suc j) (Suc octets))
           else if e \<noteq> 0 then Some False
           else host_octets h j (Suc octets)
         }
       }
     }"
  by pat_completeness auto
termination
  by (relation "measure (\<lambda>(h, i, octets). length h - i)")
     (auto simp: rd_def split: if_splits dest!: host_digits_progress)

declare host_octets.simps [simp del]

text \<open>\<open>None\<close> is the NULL argument.\<close>

definition bridge_config_tcp_client_host_valid :: "byte list option \<Rightarrow> bool option" where
  "bridge_config_tcp_client_host_valid host =
     (case host of
        None \<Rightarrow> Some False
      | Some h \<Rightarrow> do { c \<leftarrow> rd h 0; if c = 0 then Some True else host_octets h 0 0 })"

text \<open>The loop over the continuation bytes: the position after them, or \<open>Some None\<close> when one is not
  a continuation byte.\<close>

fun text_cont :: "byte list \<Rightarrow> nat \<Rightarrow> nat \<Rightarrow> nat option option" where
  "text_cont s p 0 = Some (Some p)"
| "text_cont s p (Suc n) =
     do { c \<leftarrow> rd s p; if (c AND 0xC0) \<noteq> 0x80 then Some None else text_cont s (Suc p) n }"

lemma text_cont_progress: "text_cont s p n = Some (Some q) \<Longrightarrow> q = p + n"
  by (induction s p n rule: text_cont.induct) (auto simp: bind_eq_Some_conv split: if_splits)

text \<open>The classification of the lead byte at \<open>p\<close>: the number of continuation bytes, or \<open>Some None\<close> for
  one of the early returns.\<close>

definition text_lead :: "byte list \<Rightarrow> nat \<Rightarrow> byte \<Rightarrow> nat option option" where
  "text_lead s p lead =
     (if lead < 0x20 then Some None
      else if lead < 0x80 then Some (Some 0)
      else if (lead AND 0xE0) = 0xC0 \<and> lead \<ge> 0xC2 then Some (Some 1)
      else if (lead AND 0xF0) = 0xE0 then
        do {
          overlong \<leftarrow> (if lead = 0xE0 then do { c \<leftarrow> rd s (Suc p); Some ((c AND 0xE0) = 0x80) }
                       else Some False);
          surrogate \<leftarrow> (if overlong then Some False
                        else if lead = 0xED then do { c \<leftarrow> rd s (Suc p); Some ((c AND 0xE0) = 0xA0) }
                        else Some False);
          Some (if overlong \<or> surrogate then None else Some 2)
        }
      else if (lead AND 0xF8) = 0xF0 \<and> lead \<le> 0xF4 then
        do {
          overlong \<leftarrow> (if lead = 0xF0 then do { c \<leftarrow> rd s (Suc p); Some ((c AND 0xF0) = 0x80) }
                       else Some False);
          large \<leftarrow> (if overlong then Some False
                    else if lead = 0xF4 then do { c \<leftarrow> rd s (Suc p); Some (c > 0x8F) }
                    else Some False);
          Some (if overlong \<or> large then None else Some 3)
        }
      else Some None)"

function text_valid_from :: "byte list \<Rightarrow> nat \<Rightarrow> bool option" where
  "text_valid_from s p =
     do {
       lead \<leftarrow> rd s p;
       if lead = 0 then Some True
       else do {
         l \<leftarrow> text_lead s p lead;
         case l of
           None \<Rightarrow> Some False
         | Some cont \<Rightarrow>
             do {
               q \<leftarrow> text_cont s (Suc p) cont;
               case q of None \<Rightarrow> Some False | Some p' \<Rightarrow> text_valid_from s p'
             }
       }
     }"
  by pat_completeness auto
termination
  by (relation "measure (\<lambda>(s, p). length s - p)")
     (auto simp: rd_def split: if_splits dest!: text_cont_progress)

declare text_valid_from.simps [simp del]

definition bridge_config_text_valid :: "byte list \<Rightarrow> bool option" where
  "bridge_config_text_valid s = text_valid_from s 0"

text \<open>The loop of \<open>bridge_config_hostname_valid\<close>; it gives the final \<open>len\<close>, or \<open>Some None\<close> for an early return.\<close>

function hostname_loop :: "byte list \<Rightarrow> nat \<Rightarrow> nat option option" where
  "hostname_loop h len =
     do {
       c \<leftarrow> rd h len;
       if c = 0 then Some (Some len)
       else if len = BRIDGE_CONFIG_HOSTNAME_MAX then Some None
       else if \<not> ((97 \<le> c \<and> c \<le> 122) \<or> (48 \<le> c \<and> c \<le> 57) \<or> c = 45) then Some None
       else hostname_loop h (Suc len)
     }"
  by pat_completeness auto
termination
  by (relation "measure (\<lambda>(h, len). length h - len)") (auto simp: rd_def split: if_splits)

declare hostname_loop.simps [simp del]

definition bridge_config_hostname_valid :: "byte list option \<Rightarrow> bool option" where
  "bridge_config_hostname_valid hostname =
     (case hostname of
        None \<Rightarrow> Some False
      | Some h \<Rightarrow>
          do {
            c \<leftarrow> rd h 0;
            if c = 0 \<or> c = 45 then Some False
            else do {
              r \<leftarrow> hostname_loop h 0;
              case r of None \<Rightarrow> Some False
              | Some len \<Rightarrow> do { l \<leftarrow> rd h (len - 1); Some (l \<noteq> 45) }
            }
          })"

section \<open>Hosts\<close>

definition digits_value :: "nat \<Rightarrow> byte list \<Rightarrow> nat" where
  "digits_value v ds = foldl (\<lambda>a c. a * 10 + (unat c - 48)) v ds"

text \<open>The text of an octet, and of an address.\<close>

definition digit_char :: "nat \<Rightarrow> byte" where
  "digit_char n = of_nat (48 + n)"

definition octet_text :: "nat \<Rightarrow> byte list" where
  "octet_text n =
     (if n < 10 then [digit_char n]
      else if n < 100 then [digit_char (n div 10), digit_char (n mod 10)]
      else [digit_char (n div 100), digit_char (n div 10 mod 10), digit_char (n mod 10)])"

definition dotted_quad :: "nat \<Rightarrow> nat \<Rightarrow> nat \<Rightarrow> nat \<Rightarrow> byte list" where
  "dotted_quad a b c d = octet_text a @ [46] @ octet_text b @ [46] @ octet_text c @ [46] @ octet_text d"

definition octet_ok :: "byte list \<Rightarrow> bool" where
  "octet_ok ds \<longleftrightarrow> ds \<noteq> [] \<and> length ds \<le> 3 \<and> digits_value 0 ds \<le> 255 \<and> (hd ds = 48 \<longrightarrow> length ds = 1)"

function host_ok :: "byte list \<Rightarrow> nat \<Rightarrow> bool" where
  "host_ok s n =
     (if s = [] then n = 4
      else octet_ok (takeWhile dec_char s) \<and>
        (case dropWhile dec_char s of
           [] \<Rightarrow> Suc n = 4
         | e # r \<Rightarrow> e = 46 \<and> Suc n \<noteq> 4 \<and> host_ok r (Suc n)))"
  by pat_completeness auto
termination
proof (relation "measure (\<lambda>(s, n). length s)")
  fix s :: "byte list" and n e r
  assume "dropWhile dec_char s = e # r"
  then show "((r, Suc n), s, n) \<in> measure (\<lambda>(s, n). length s)"
    using length_dropWhile_le[of dec_char s] by simp
qed simp

declare host_ok.simps [simp del]

lemma dec_char_nz [simp]: "\<not> dec_char 0" "\<not> dec_char 46"
  by (simp_all add: dec_char_def)

lemma host_digits_eq:
  "terminated (drop i h) \<Longrightarrow> d \<le> 4 \<Longrightarrow>
   host_digits h i v d =
     (let k = min (4 - d) (length (takeWhile dec_char (drop i h)))
      in Some (i + k, digits_value v (take k (drop i h)), d + k))"
proof (induction h i v d rule: host_digits.induct)
  case (1 h i v d)
  have i: "i < length h" using 1(2) by (auto simp: terminated_def intro: ccontr)
  then have dr: "drop i h = h ! i # drop (Suc i) h" by (simp add: Cons_nth_drop_Suc)
  show ?case
  proof (cases "dec_char (h ! i) \<and> d < 4")
    case True
    then have "terminated (drop (Suc i) h)" using 1(2) dr by (auto simp: terminated_def)
    moreover have "4 - d = Suc (4 - Suc d)" using True by arith
    ultimately show ?thesis
      using 1(1)[OF rd_in[OF i] True] True i
      by (subst host_digits.simps) (simp add: dr Let_def digits_value_def)
  next
    case False
    then show ?thesis
      using i 1(3) by (subst host_digits.simps) (auto simp: dr Let_def digits_value_def)
  qed
qed

lemma takeWhile_dec_cstr: "takeWhile dec_char (cstr xs) = takeWhile dec_char xs"
  by (induction xs) (auto simp: cstr_Cons)

lemma dropWhile_dec_cstr: "dropWhile dec_char (cstr xs) = cstr (dropWhile dec_char xs)"
  by (induction xs) (auto simp: cstr_Cons)

lemma terminated_dropWhile: "terminated xs \<Longrightarrow> terminated (dropWhile dec_char xs)"
  unfolding terminated_def by (induction xs) auto

text \<open>One octet: the C code accepts the digits at \<open>i\<close> exactly if they are an octet.\<close>

lemma host_octet_step:
  assumes t: "terminated (drop i h)" and nz: "h ! i \<noteq> 0" and m: "m = length (takeWhile dec_char (drop i h))"
  shows "host_octets h i n =
    (if \<not> octet_ok (take m (drop i h)) then Some False
     else do {
       e \<leftarrow> rd h (i + m);
       if e = 46 then (if Suc n = 4 then Some False else host_octets h (Suc (i + m)) (Suc n))
       else if e \<noteq> 0 then Some False
       else host_octets h (i + m) (Suc n) })"
proof -
  define k where "k = min 4 m"
  define lz where "lz = (h ! i = 48 \<and> dec_char (h ! Suc i))"
  have i: "i < length h" using t by (auto simp: terminated_def intro: ccontr)
  then have dr: "drop i h = h ! i # drop (Suc i) h" by (simp add: Cons_nth_drop_Suc)
  have "terminated (drop (Suc i) h)" using t dr nz by (auto simp: terminated_def)
  then have i1: "Suc i < length h" by (auto simp: terminated_def intro: ccontr)
  have hd: "host_digits h i 0 0 = Some (i + k, digits_value 0 (take k (drop i h)), k)"
    using host_digits_eq[OF t, of 0 0] by (simp add: k_def m Let_def)
  have "dec_char 48" by (simp add: dec_char_def)
  then have lz: "lz \<longleftrightarrow> h ! i = 48 \<and> 1 < m"
    unfolding lz_def m dr by (auto simp: Cons_nth_drop_Suc[OF i1, symmetric])
  have "m \<le> length (drop i h)" unfolding m by (rule length_takeWhile_le)
  then have ok: "octet_ok (take m (drop i h)) \<longleftrightarrow>
      \<not> (k = 0 \<or> k > 3 \<or> digits_value 0 (take k (drop i h)) > 255 \<or> lz)"
    unfolding octet_ok_def lz k_def by (cases "m = 0") (auto simp: dr take_Cons' min_def)
  have lz_do: "(if h ! i = 48 then do { d \<leftarrow> rd h (Suc i); Some (dec_char d) } else Some False) = Some lz"
    using i1 by (simp add: lz_def)
  show ?thesis
  proof (cases "octet_ok (take m (drop i h))")
    case True
    then have "k = m" and "\<not> (k = 0 \<or> k > 3 \<or> digits_value 0 (take k (drop i h)) > 255 \<or> lz)"
      using ok by (auto simp: k_def)
    with True show ?thesis
      by (subst host_octets.simps) (use i nz in \<open>simp add: lz_do hd\<close>)
  next
    case False
    then have "k = 0 \<or> k > 3 \<or> digits_value 0 (take k (drop i h)) > 255 \<or> lz" using ok by blast
    with False show ?thesis
      by (subst host_octets.simps) (use i nz in \<open>simp add: lz_do hd\<close>)
  qed
qed

lemma host_octets_eq:
  "terminated (drop i h) \<Longrightarrow> host_octets h i n = Some (host_ok (cstr (drop i h)) n)"
proof (induction "length h - i" arbitrary: i n rule: less_induct)
  case less
  have i: "i < length h" using less.prems by (auto simp: terminated_def intro: ccontr)
  then have dr: "drop i h = h ! i # drop (Suc i) h" by (simp add: Cons_nth_drop_Suc)
  show ?case
  proof (cases "h ! i = 0")
    case True
    then show ?thesis
      using i by (subst host_octets.simps, subst host_ok.simps) (simp add: dr cstr_Cons)
  next
    case nz: False
    define m where "m = length (takeWhile dec_char (drop i h))"
    have tw: "takeWhile dec_char (drop i h) = take m (drop i h)"
      unfolding m_def by (rule takeWhile_eq_take)
    have rest: "dropWhile dec_char (drop i h) = drop (i + m) h"
      by (simp add: dropWhile_eq_drop m_def add.commute)
    have tm: "terminated (drop (i + m) h)" using terminated_dropWhile[OF less.prems] by (simp add: rest)
    then have im: "i + m < length h" by (auto simp: terminated_def intro: ccontr)
    then have dm: "drop (i + m) h = h ! (i + m) # drop (Suc (i + m)) h" by (simp add: Cons_nth_drop_Suc)
    have s: "host_ok (cstr (drop i h)) n \<longleftrightarrow> octet_ok (take m (drop i h)) \<and>
        (case cstr (drop (i + m) h) of [] \<Rightarrow> Suc n = 4
         | e # r \<Rightarrow> e = 46 \<and> Suc n \<noteq> 4 \<and> host_ok r (Suc n))"
      by (subst host_ok.simps, subst takeWhile_dec_cstr, subst dropWhile_dec_cstr)
         (simp add: tw rest, simp add: dr cstr_Cons nz)
    note step = host_octet_step[OF less.prems nz m_def, of n]
    consider "h ! (i + m) = 46" | "h ! (i + m) = 0" | "h ! (i + m) \<noteq> 46" "h ! (i + m) \<noteq> 0" by blast
    then show ?thesis
    proof cases
      case 1
      then have "terminated (drop (Suc (i + m)) h)" using tm dm by (auto simp: terminated_def)
      with less.hyps[of "Suc (i + m)" "Suc n"] i 1 im show ?thesis
        by (auto simp: step s dm cstr_Cons)
    next
      case 2
      then show ?thesis
        using im by (subst step, subst s) (simp add: dm cstr_Cons host_octets.simps)
    next
      case 3
      then show ?thesis using im by (simp add: step s dm cstr_Cons)
    qed
  qed
qed

lemma dec_char_digit:
  assumes "dec_char c"
  shows "c = digit_char (unat c - 48)" and "unat c - 48 < 10" and "c = 48 \<longleftrightarrow> unat c - 48 = 0"
proof -
  have b: "48 \<le> unat c" "unat c \<le> 57"
    using assms by (simp_all add: dec_char_def word_le_nat_alt)
  then show "unat c - 48 < 10" by simp
  show "c = digit_char (unat c - 48)" using b(1) by (simp add: digit_char_def)
  show "c = 48 \<longleftrightarrow> unat c - 48 = 0"
    using b by (auto simp: word_unat_eq_iff)
qed

lemma unat_digit_char: "n < 10 \<Longrightarrow> unat (digit_char n) = 48 + n"
  unfolding digit_char_def by (rule unat_of_nat_small) simp

lemma digit_char_dec: "n < 10 \<Longrightarrow> dec_char (digit_char n)"
  by (simp add: dec_char_def word_le_nat_alt unat_digit_char)

lemma digit_char_0_iff: "n < 10 \<Longrightarrow> digit_char n = 48 \<longleftrightarrow> n = 0"
  by (simp add: word_unat_eq_iff unat_digit_char)

lemma octet_text_dec: "n \<le> 255 \<Longrightarrow> list_all dec_char (octet_text n)"
  by (auto simp: octet_text_def intro!: digit_char_dec)

lemma three_digits: "100 * (n div 100) + n div 10 mod 10 * 10 + n mod 10 = (n :: nat)"
proof -
  have "n div 100 = n div 10 div 10" by (simp flip: div_mult2_eq)
  then show ?thesis
    using mult_div_mod_eq[of 10 n] mult_div_mod_eq[of 10 "n div 10"] by linarith
qed

lemma snoc_digit: "z < 10 \<Longrightarrow> (a * 10 + z) div 10 = (a :: nat)" "z < 10 \<Longrightarrow> (a * 10 + z) mod 10 = z"
  by simp_all

lemma octet_text_ok: "n \<le> 255 \<Longrightarrow> octet_ok (octet_text n)"
  by (auto simp: three_digits octet_ok_def octet_text_def digits_value_def unat_digit_char digit_char_0_iff)

lemma octet_ok_text:
  assumes "octet_ok ds" and "list_all dec_char ds"
  shows "\<exists>n \<le> 255. ds = octet_text n"
proof -
  consider a where "ds = [a]" | a b where "ds = [a, b]" | a b c where "ds = [a, b, c]"
    using assms(1) by (auto simp: octet_ok_def le_Suc_eq length_Suc_conv numeral_3_eq_3)
  then show ?thesis
  proof cases
    case 1
    then show ?thesis
      using assms dec_char_digit[of a]
      by (intro exI[of _ "unat a - 48"]) (simp add: octet_text_def)
  next
    case (2 a b)
    define x y where "x = unat a - 48" and "y = unat b - 48"
    have "a = digit_char x" "b = digit_char y" "x < 10" "y < 10" "x \<noteq> 0"
      using assms 2 dec_char_digit[of a] dec_char_digit[of b] by (auto simp: octet_ok_def x_def y_def)
    then show ?thesis
      using 2 by (intro exI[of _ "x * 10 + y"]) (simp add: octet_text_def)
  next
    case (3 a b c)
    define x y z where "x = unat a - 48" and "y = unat b - 48" and "z = unat c - 48"
    have d: "a = digit_char x" "b = digit_char y" "c = digit_char z" "x < 10" "y < 10" "z < 10" "x \<noteq> 0"
      using assms 3 dec_char_digit[of a] dec_char_digit[of b] dec_char_digit[of c]
      by (auto simp: octet_ok_def x_def y_def z_def)
    moreover have "(x * 10 + y) * 10 + z \<le> 255"
      using assms(1) 3 by (simp add: octet_ok_def digits_value_def x_def y_def z_def)
    moreover have "((x * 10 + y) * 10 + z) div 100 = ((x * 10 + y) * 10 + z) div 10 div 10"
      by (simp flip: div_mult2_eq)
    then have "((x * 10 + y) * 10 + z) div 100 = x" "((x * 10 + y) * 10 + z) div 10 mod 10 = y"
      "((x * 10 + y) * 10 + z) mod 10 = z"
      using d by (simp_all only: snoc_digit)
    ultimately show ?thesis
      using 3 by (intro exI[of _ "(x * 10 + y) * 10 + z"]) (simp add: octet_text_def)
  qed
qed

lemma host_ok_last: "host_ok s 3 \<longleftrightarrow> (\<exists>a \<le> 255. s = octet_text a)"
proof
  assume h: "host_ok s 3"
  then have o: "octet_ok (takeWhile dec_char s)" and "dropWhile dec_char s = []"
    by (subst (asm) host_ok.simps, auto split: list.splits if_splits)+
  then have "takeWhile dec_char s = s" by (metis append_Nil2 takeWhile_dropWhile_id)
  moreover have "list_all dec_char (takeWhile dec_char s)" by (auto simp: list_all_iff dest: set_takeWhileD)
  ultimately show "\<exists>a \<le> 255. s = octet_text a" using octet_ok_text o by metis
next
  assume "\<exists>a \<le> 255. s = octet_text a"
  then obtain a where a: "a \<le> 255" "s = octet_text a" by blast
  then have "\<forall>x\<in>set s. dec_char x" "octet_ok s" using octet_text_dec octet_text_ok by (auto simp: list_all_iff)
  then show "host_ok s 3"
    by (subst host_ok.simps) (auto simp: takeWhile_eq_all_conv[THEN iffD2] dropWhile_eq_Nil_conv[THEN iffD2] octet_ok_def)
qed

lemma host_ok_step:
  assumes "n < 3"
  shows "host_ok s n \<longleftrightarrow> (\<exists>a r. a \<le> 255 \<and> s = octet_text a @ 46 # r \<and> host_ok r (Suc n))"
proof
  assume h: "host_ok s n"
  let ?t = "takeWhile dec_char s"
  obtain r where r: "octet_ok ?t" "dropWhile dec_char s = 46 # r" "host_ok r (Suc n)"
    using h assms by (subst (asm) host_ok.simps) (auto split: list.splits if_splits)
  moreover have "list_all dec_char ?t" by (auto simp: list_all_iff dest: set_takeWhileD)
  then obtain a where "a \<le> 255" "?t = octet_text a" using octet_ok_text r(1) by blast
  moreover have "s = ?t @ 46 # r" using r(2) by (metis takeWhile_dropWhile_id)
  ultimately show "\<exists>a r. a \<le> 255 \<and> s = octet_text a @ 46 # r \<and> host_ok r (Suc n)" by metis
next
  assume "\<exists>a r. a \<le> 255 \<and> s = octet_text a @ 46 # r \<and> host_ok r (Suc n)"
  then obtain a r where a: "a \<le> 255" "s = octet_text a @ 46 # r" "host_ok r (Suc n)" by blast
  have d: "\<And>x. x \<in> set (octet_text a) \<Longrightarrow> dec_char x" "octet_ok (octet_text a)"
    using octet_text_dec octet_text_ok a(1) by (auto simp: list_all_iff)
  have "takeWhile dec_char s = octet_text a" "dropWhile dec_char s = 46 # r"
    using d(1) a(2) by (simp_all add: takeWhile_append2 dropWhile_append2)
  then show "host_ok s n" using d(2) a(2,3) assms by (subst host_ok.simps) simp
qed

lemma host_ok_iff:
  "host_ok s 0 \<longleftrightarrow> (\<exists>a b c d. a \<le> 255 \<and> b \<le> 255 \<and> c \<le> 255 \<and> d \<le> 255 \<and> s = dotted_quad a b c d)"
    (is "?l \<longleftrightarrow> ?r")
proof
  assume ?l
  then obtain a r1 where a: "a \<le> 255" "s = octet_text a @ 46 # r1" "host_ok r1 1"
    using host_ok_step[of 0 s] by auto
  then obtain b r2 where b: "b \<le> 255" "r1 = octet_text b @ 46 # r2" "host_ok r2 2"
    using host_ok_step[of 1 r1] by (auto simp: numeral_2_eq_2)
  then obtain c r3 where c: "c \<le> 255" "r2 = octet_text c @ 46 # r3" "host_ok r3 3"
    using host_ok_step[of 2 r2] by (auto simp: numeral_2_eq_2 numeral_3_eq_3)
  then obtain d where "d \<le> 255" "r3 = octet_text d" using host_ok_last by auto
  with a b c have "s = dotted_quad a b c d" by (simp add: dotted_quad_def)
  with a b c \<open>d \<le> 255\<close> show ?r by blast
next
  assume ?r
  then obtain a b c d where s: "a \<le> 255" "b \<le> 255" "c \<le> 255" "d \<le> 255" "s = dotted_quad a b c d" by blast
  have "host_ok (octet_text d) 3" using host_ok_last s(4) by blast
  then have "host_ok (octet_text c @ 46 # octet_text d) 2"
    using host_ok_step[of 2] s(3) by (fastforce simp: numeral_3_eq_3 numeral_2_eq_2)
  then have "host_ok (octet_text b @ 46 # octet_text c @ 46 # octet_text d) 1"
    using host_ok_step[of 1] s(2) by (fastforce simp: numeral_2_eq_2)
  then show ?l using host_ok_step[of 0] s(1) by (fastforce simp: s(5) dotted_quad_def)
qed

section \<open>UTF-8 text\<close>

definition unicode_scalar :: "nat \<Rightarrow> bool" where
  "unicode_scalar n \<longleftrightarrow> n < 0x110000 \<and> \<not> (0xD800 \<le> n \<and> n \<le> 0xDFFF)"

definition utf8 :: "nat \<Rightarrow> nat list" where
  "utf8 n =
     (if n < 0x80 then [n]
      else if n < 0x800 then [0xC0 + n div 64, 0x80 + n mod 64]
      else if n < 0x10000 then [0xE0 + n div 4096, 0x80 + n div 64 mod 64, 0x80 + n mod 64]
      else [0xF0 + n div 262144, 0x80 + n div 4096 mod 64, 0x80 + n div 64 mod 64, 0x80 + n mod 64])"

definition cont_byte :: "nat \<Rightarrow> bool" where
  "cont_byte c \<longleftrightarrow> 0x80 \<le> c \<and> c < 0xC0"

text \<open>The lead byte alone: how many continuation bytes follow; and the restriction on the first.\<close>

definition lead_conts :: "nat \<Rightarrow> nat option" where
  "lead_conts l =
     (if l < 0x20 then None else if l < 0x80 then Some 0
      else if 0xC2 \<le> l \<and> l < 0xE0 then Some 1
      else if 0xE0 \<le> l \<and> l < 0xF0 then Some 2
      else if 0xF0 \<le> l \<and> l \<le> 0xF4 then Some 3 else None)"

definition second_ok :: "nat \<Rightarrow> nat \<Rightarrow> bool" where
  "second_ok l c \<longleftrightarrow> (l = 0xE0 \<longrightarrow> 0xA0 \<le> c) \<and> (l = 0xED \<longrightarrow> c < 0xA0) \<and>
     (l = 0xF0 \<longrightarrow> 0x90 \<le> c) \<and> (l = 0xF4 \<longrightarrow> c \<le> 0x8F)"

function text_ok :: "nat list \<Rightarrow> bool" where
  "text_ok [] = True"
| "text_ok (l # r) =
     (case lead_conts l of
        None \<Rightarrow> False
      | Some n \<Rightarrow> n \<le> length r \<and> list_all cont_byte (take n r) \<and> (0 < n \<longrightarrow> second_ok l (hd r)) \<and>
          text_ok (drop n r))"
  by pat_completeness auto
termination
  by (relation "measure length") auto

lemma snoc64: "c < 64 \<Longrightarrow> (a * 64 + c) div 64 = (a :: nat)" "c < 64 \<Longrightarrow> (a * 64 + c) mod 64 = c"
  by simp_all

lemma split64: "(n :: nat) = (n div 64) * 64 + n mod 64"
  by simp

lemma div64: "n div 4096 = n div 64 div (64 :: nat)" "n div 262144 = n div 64 div 64 div (64 :: nat)"
  by (simp_all flip: div_mult2_eq)

text \<open>The digits of a number to the base 64, from the highest.\<close>

lemma digits64:
  fixes n :: nat
  shows "n = n div 4096 * 4096 + n div 64 mod 64 * 64 + n mod 64"
    and "n = n div 262144 * 262144 + n div 4096 mod 64 * 4096 + n div 64 mod 64 * 64 + n mod 64"
proof -
  have join: "n = x * 4096 + y * 64 + z" if "n = m * 64 + z" "m = x * 64 + y" for x y z m :: nat
    using that by simp
  show 1: "n = n div 4096 * 4096 + n div 64 mod 64 * 64 + n mod 64"
    by (rule join[OF split64]) (unfold div64, rule split64)
  have join': "n = w * 262144 + v * 4096 + y + z" if "n = x * 4096 + y + z" "x = w * 64 + v" for w v x y z :: nat
    using that by simp
  show "n = n div 262144 * 262144 + n div 4096 mod 64 * 4096 + n div 64 mod 64 * 64 + n mod 64"
    by (rule join'[OF 1]) (unfold div64, rule split64)
qed

lemma text_ok_utf8:
  assumes "unicode_scalar n" and "0x20 \<le> n"
  shows "text_ok (utf8 n @ s) = text_ok s"
proof -
  define q a b c d where "q = n div 4096" and "a = n div 262144" and "b = n div 4096 mod 64"
    and "c = n div 64 mod 64" and "d = n mod 64"
  have lt: "b < 64" "c < 64" "d < 64" by (simp_all add: b_def c_def d_def)
  have d3: "n = q * 4096 + c * 64 + d" using digits64(1)[of n] unfolding q_def c_def d_def .
  have d4: "n = a * 262144 + b * 4096 + c * 64 + d"
    using digits64(2)[of n] unfolding a_def b_def c_def d_def .
  consider "n < 0x80" | "0x80 \<le> n" "n < 0x800" | "0x800 \<le> n" "n < 0x10000" | "0x10000 \<le> n" by linarith
  then show ?thesis
  proof cases
    case 1
    then show ?thesis using assms by (simp add: utf8_def lead_conts_def)
  next
    case 2
    then have "2 \<le> n div 64" "n div 64 < 32" by linarith+
    then show ?thesis using 2 by (simp add: utf8_def lead_conts_def cont_byte_def second_ok_def)
  next
    case 3
    have q: "q < 16" using 3 d3 by linarith
    have "q = 0 \<Longrightarrow> 32 \<le> c" using 3 d3 lt by linarith
    moreover have "q = 13 \<Longrightarrow> c < 32" using assms(1) d3 lt unfolding unicode_scalar_def by linarith
    ultimately have "second_ok (0xE0 + q) (0x80 + c)" using q by (auto simp: second_ok_def)
    moreover have "utf8 n = [0xE0 + q, 0x80 + c, 0x80 + d]" using 3 by (simp add: utf8_def q_def c_def d_def)
    ultimately show ?thesis using q lt by (simp add: lead_conts_def cont_byte_def numeral_2_eq_2)
  next
    case 4
    have q: "a \<le> 4" using assms(1) d4 unfolding unicode_scalar_def by linarith
    have "a = 0 \<Longrightarrow> 16 \<le> b" using 4 d4 lt by linarith
    moreover have "a = 4 \<Longrightarrow> b < 16" using assms(1) d4 lt unfolding unicode_scalar_def by linarith
    ultimately have "second_ok (0xF0 + a) (0x80 + b)" using q by (auto simp: second_ok_def)
    moreover have "utf8 n = [0xF0 + a, 0x80 + b, 0x80 + c, 0x80 + d]"
      using 4 by (simp add: utf8_def a_def b_def c_def d_def)
    ultimately show ?thesis using q lt by (simp add: lead_conts_def cont_byte_def numeral_3_eq_3)
  qed
qed

text \<open>Every well-formed sequence is the encoding of a scalar value.\<close>

lemma utf8_decode:
  assumes "lead_conts l = Some n" and "n \<le> length r" and "list_all cont_byte (take n r)"
    and "0 < n \<longrightarrow> second_ok l (hd r)"
  shows "\<exists>u. unicode_scalar u \<and> 0x20 \<le> u \<and> l # take n r = utf8 u"
proof -
  have "n = 0 \<and> 0x20 \<le> l \<and> l < 0x80 \<or> n = 1 \<and> 0xC2 \<le> l \<and> l < 0xE0 \<or> n = 2 \<and> 0xE0 \<le> l \<and> l < 0xF0 \<or>
      n = 3 \<and> 0xF0 \<le> l \<and> l \<le> 0xF4"
    using assms(1) by (auto simp: lead_conts_def split: if_splits)
  then consider (ascii) "n = 0" "0x20 \<le> l" "l < 0x80" | (two) "n = 1" "0xC2 \<le> l" "l < 0xE0"
    | (three) "n = 2" "0xE0 \<le> l" "l < 0xF0" | (four) "n = 3" "0xF0 \<le> l" "l \<le> 0xF4" by blast
  then show ?thesis
  proof cases
    case ascii
    then show ?thesis by (intro exI[of _ l]) (simp add: unicode_scalar_def utf8_def)
  next
    case two
    then obtain x where x: "take n r = [0x80 + x]" "x < 64"
      using assms(2,3) by (cases r) (auto simp: cont_byte_def dest!: le_Suc_ex)
    define u where "u = (l - 0xC0) * 64 + x"
    have "0x80 \<le> u" "u < 0x800" using two x(2) unfolding u_def by linarith+
    moreover have "u div 64 = l - 0xC0" "u mod 64 = x" using x by (simp_all only: u_def snoc64)
    ultimately show ?thesis
      using two x by (intro exI[of _ u]) (simp add: unicode_scalar_def utf8_def)
  next
    case three
    then obtain x y where x: "take n r = [0x80 + x, 0x80 + y]" "x < 64" "y < 64" "hd r = 0x80 + x"
      using assms(2,3) by (cases r; cases "tl r") (auto simp: cont_byte_def numeral_2_eq_2 dest!: le_Suc_ex)
    define u where "u = ((l - 0xE0) * 64 + x) * 64 + y"
    have "l = 0xE0 \<or> 0xE1 \<le> l \<and> l \<le> 0xEC \<or> l = 0xED \<or> 0xEE \<le> l" using three by linarith
    then have "0x800 \<le> u" "u < 0x10000" "\<not> (0xD800 \<le> u \<and> u \<le> 0xDFFF)"
      using three x assms(4) unfolding u_def second_ok_def by auto
    moreover have "u div 4096 = l - 0xE0" "u div 64 mod 64 = x" "u mod 64 = y"
      using x by (simp_all only: div64 u_def snoc64)
    ultimately show ?thesis
      using three x by (intro exI[of _ u]) (simp add: unicode_scalar_def utf8_def)
  next
    case four
    then obtain x y z where x: "take n r = [0x80 + x, 0x80 + y, 0x80 + z]" "x < 64" "y < 64" "z < 64" "hd r = 0x80 + x"
      using assms(2,3)
      by (cases r; cases "tl r"; cases "tl (tl r)") (auto simp: cont_byte_def numeral_3_eq_3 dest!: le_Suc_ex)
    define u where "u = (((l - 0xF0) * 64 + x) * 64 + y) * 64 + z"
    have "l = 0xF0 \<or> 0xF1 \<le> l \<and> l \<le> 0xF3 \<or> l = 0xF4" using four by linarith
    then have "0x10000 \<le> u" "u < 0x110000"
      using four x assms(4) unfolding u_def second_ok_def by auto
    moreover have "u div 262144 = l - 0xF0" "u div 4096 mod 64 = x" "u div 64 mod 64 = y" "u mod 64 = z"
      using x by (simp_all only: div64 u_def snoc64)
    ultimately show ?thesis
      using four x by (intro exI[of _ u]) (simp add: unicode_scalar_def utf8_def)
  qed
qed

lemma text_ok_iff:
  "text_ok s \<longleftrightarrow> (\<exists>us. list_all unicode_scalar us \<and> list_all (\<lambda>u. 0x20 \<le> u) us \<and> s = concat (map utf8 us))"
proof
  show "text_ok s \<Longrightarrow> \<exists>us. list_all unicode_scalar us \<and> list_all (\<lambda>u. 0x20 \<le> u) us \<and> s = concat (map utf8 us)"
  proof (induction s rule: text_ok.induct)
    case 1
    show ?case by (intro exI[of _ "[]"]) simp
  next
    case (2 l r)
    then obtain n where n: "lead_conts l = Some n" "n \<le> length r" "list_all cont_byte (take n r)"
        "0 < n \<longrightarrow> second_ok l (hd r)" "text_ok (drop n r)"
      by (auto split: option.splits)
    obtain u where u: "unicode_scalar u" "0x20 \<le> u" "l # take n r = utf8 u"
      using utf8_decode[OF n(1-4)] by blast
    obtain us where us: "list_all unicode_scalar us" "list_all (\<lambda>u. 0x20 \<le> u) us" "drop n r = concat (map utf8 us)"
      using 2(1)[OF n(1,5)] by blast
    have "l # r = utf8 u @ concat (map utf8 us)"
      unfolding u(3)[symmetric] us(3)[symmetric] by simp
    then show ?case using u us by (intro exI[of _ "u # us"]) simp
  qed
next
  assume "\<exists>us. list_all unicode_scalar us \<and> list_all (\<lambda>u. 0x20 \<le> u) us \<and> s = concat (map utf8 us)"
  then obtain us where "list_all unicode_scalar us" "list_all (\<lambda>u. 0x20 \<le> u) us" "s = concat (map utf8 us)" by blast
  then show "text_ok s"
    by (induction us arbitrary: s) (auto simp: text_ok_utf8)
qed

subsection \<open>The loop accepts exactly the well-formed sequences\<close>

lemma and_high_bits:
  fixes b :: byte
  assumes "k \<le> 8"
  shows "unat (b AND NOT (mask k)) = unat b div 2 ^ k * 2 ^ k"
proof -
  have "b AND NOT (mask k) = push_bit k (drop_bit k b)"
    by (rule bit_word_eqI) (auto simp: bit_simps)
  moreover have "unat b div 2 ^ k * 2 ^ k < 256"
    using unat_byte_less[of b] div_times_less_eq_dividend[of "unat b" "2 ^ k"] by linarith
  moreover have "unat (push_bit k (drop_bit k b)) = take_bit LENGTH(8) (push_bit k (drop_bit k (unat b)))"
    by (simp only: unsigned_push_bit_eq unat_drop_bit_eq)
  ultimately show ?thesis
    by (simp add: push_bit_eq_mult drop_bit_eq_div take_bit_nat_eq_self)
qed

lemma div_mult_eq_iff: "0 < k \<Longrightarrow> x div k * k = m * k \<longleftrightarrow> m * k \<le> x \<and> x < Suc m * (k :: nat)"
  using less_eq_div_iff_mult_less_eq[of k m x] div_less_iff_less_mult[of k x "Suc m"] by auto

lemma masks:
  fixes b :: byte
  shows "(b AND 0xC0) = 0x80 \<longleftrightarrow> cont_byte (unat b)"
    and "(b AND 0xE0) = 0xC0 \<longleftrightarrow> 0xC0 \<le> unat b \<and> unat b < 0xE0"
    and "(b AND 0xF0) = 0xE0 \<longleftrightarrow> 0xE0 \<le> unat b \<and> unat b < 0xF0"
    and "(b AND 0xF8) = 0xF0 \<longleftrightarrow> 0xF0 \<le> unat b \<and> unat b < 0xF8"
    and "(b AND 0xE0) = 0x80 \<longleftrightarrow> 0x80 \<le> unat b \<and> unat b < 0xA0"
    and "(b AND 0xE0) = 0xA0 \<longleftrightarrow> 0xA0 \<le> unat b \<and> unat b < 0xC0"
    and "(b AND 0xF0) = 0x80 \<longleftrightarrow> 0x80 \<le> unat b \<and> unat b < 0x90"
proof -
  have m: "0xC0 = (NOT (mask 6) :: byte)" "0xE0 = (NOT (mask 5) :: byte)" "0xF0 = (NOT (mask 4) :: byte)"
    "0xF8 = (NOT (mask 3) :: byte)"
    by (simp_all add: mask_eq_exp_minus_1)
  have u: "unat (b AND 0xC0) = unat b div 64 * 64" "unat (b AND 0xE0) = unat b div 32 * 32"
    "unat (b AND 0xF0) = unat b div 16 * 16" "unat (b AND 0xF8) = unat b div 8 * 8"
    unfolding m by (subst and_high_bits; simp)+
  have e: "x = y \<longleftrightarrow> unat x = unat y" for x y :: byte by (simp add: word_unat_eq_iff)
  note d = div_mult_eq_iff[of 64 "unat b" 2] div_mult_eq_iff[of 32 "unat b"] div_mult_eq_iff[of 16 "unat b"]
    div_mult_eq_iff[of 8 "unat b" 30]
  show "(b AND 0xC0) = 0x80 \<longleftrightarrow> cont_byte (unat b)"
    unfolding e u cont_byte_def using d(1) by simp
  show "(b AND 0xE0) = 0xC0 \<longleftrightarrow> 0xC0 \<le> unat b \<and> unat b < 0xE0"
    and "(b AND 0xE0) = 0x80 \<longleftrightarrow> 0x80 \<le> unat b \<and> unat b < 0xA0"
    and "(b AND 0xE0) = 0xA0 \<longleftrightarrow> 0xA0 \<le> unat b \<and> unat b < 0xC0"
    unfolding e u using d(2)[of 6] d(2)[of 4] d(2)[of 5] by simp_all
  show "(b AND 0xF0) = 0xE0 \<longleftrightarrow> 0xE0 \<le> unat b \<and> unat b < 0xF0"
    and "(b AND 0xF0) = 0x80 \<longleftrightarrow> 0x80 \<le> unat b \<and> unat b < 0x90"
    unfolding e u using d(3)[of 14] d(3)[of 8] by simp_all
  show "(b AND 0xF8) = 0xF0 \<longleftrightarrow> 0xF0 \<le> unat b \<and> unat b < 0xF8"
    unfolding e u using d(4) by simp
qed

text \<open>The text at a position.\<close>

definition text_at :: "byte list \<Rightarrow> nat \<Rightarrow> nat list" where
  "text_at s p = map unat (cstr (drop p s))"

lemma text_at_Cons:
  assumes "terminated (drop p s)"
  shows "p < length s" and "text_at s p = (if s ! p = 0 then [] else unat (s ! p) # text_at s (Suc p))"
    and "s ! p \<noteq> 0 \<Longrightarrow> terminated (drop (Suc p) s)"
proof -
  show p: "p < length s" using assms by (auto simp: terminated_def intro: ccontr)
  have d: "drop p s = s ! p # drop (Suc p) s" using p by (simp add: Cons_nth_drop_Suc)
  show "text_at s p = (if s ! p = 0 then [] else unat (s ! p) # text_at s (Suc p))"
    by (simp add: text_at_def d cstr_Cons)
  show "terminated (drop (Suc p) s)" if "s ! p \<noteq> 0" using assms that d by (auto simp: terminated_def)
qed

lemma text_cont_eq:
  "terminated (drop p s) \<Longrightarrow> text_cont s p n =
     Some (if n \<le> length (text_at s p) \<and> list_all cont_byte (take n (text_at s p)) then Some (p + n) else None)"
proof (induction n arbitrary: p)
  case (Suc n)
  note t = text_at_Cons[OF Suc.prems]
  show ?case
  proof (cases "s ! p = 0")
    case True
    then show ?thesis using t(1,2) by (simp add: cont_byte_def masks)
  next
    case False
    then show ?thesis using t Suc.IH[OF t(3)] by (simp add: masks)
  qed
qed simp

lemma text_at_drop:
  "terminated (drop p s) \<Longrightarrow> n \<le> length (text_at s p) \<Longrightarrow>
     terminated (drop (p + n) s) \<and> text_at s (p + n) = drop n (text_at s p)"
proof (induction n arbitrary: p)
  case (Suc n)
  note t = text_at_Cons[OF Suc.prems(1)]
  have "s ! p \<noteq> 0" using Suc.prems(2) t(2) by (auto split: if_splits)
  then show ?case using t Suc.IH[of "Suc p"] Suc.prems(2) by simp
qed simp

lemma text_lead_eq:
  assumes "terminated (drop p s)" and "s ! p \<noteq> 0"
  shows "\<exists>r. text_lead s p (s ! p) = Some r \<and>
    (case r of None \<Rightarrow> lead_conts (unat (s ! p)) = None \<or>
        (\<exists>n. lead_conts (unat (s ! p)) = Some n \<and> 0 < n \<and>
          (text_at s (Suc p) = [] \<or> \<not> second_ok (unat (s ! p)) (hd (text_at s (Suc p)))))
     | Some n \<Rightarrow> lead_conts (unat (s ! p)) = Some n \<and>
        (0 < n \<longrightarrow> text_at s (Suc p) = [] \<or> \<not> cont_byte (hd (text_at s (Suc p))) \<or>
          second_ok (unat (s ! p)) (hd (text_at s (Suc p)))))"
proof -
  note t = text_at_Cons[OF assms(1)]
  note t1 = text_at_Cons[OF t(3)[OF assms(2)]]
  define l c where "l = s ! p" and "c = s ! Suc p"
  have rd: "rd s (Suc p) = Some c" using t1(1) by (simp add: c_def)
  have ta: "text_at s (Suc p) = (if c = 0 then [] else unat c # text_at s (Suc (Suc p)))"
    using t1(2) by (simp add: c_def)
  have num: "(l = 0xE0) = (unat l = 0xE0)" "(l = 0xED) = (unat l = 0xED)" "(l = 0xF0) = (unat l = 0xF0)"
    "(l = 0xF4) = (unat l = 0xF4)" "(l < 0x20) = (unat l < 0x20)" "(l < 0x80) = (unat l < 0x80)"
    "(0xC2 \<le> l) = (0xC2 \<le> unat l)" "(l \<le> 0xF4) = (unat l \<le> 0xF4)" "(0x8F < c) = (0x8F < unat c)"
    by (simp_all add: word_unat_eq_iff word_less_nat_alt word_le_nat_alt)
  have ta0: "c = 0 \<longleftrightarrow> unat c = 0" by (simp add: unat_eq_zero)
  show ?thesis
    unfolding l_def[symmetric] text_lead_def rd masks num ta ta0
    by (auto simp: lead_conts_def second_ok_def cont_byte_def num(9))
qed

lemma text_valid_from_eq:
  "terminated (drop p s) \<Longrightarrow> text_valid_from s p = Some (text_ok (text_at s p))"
proof (induction "length s - p" arbitrary: p rule: less_induct)
  case less
  note t = text_at_Cons[OF less.prems]
  show ?case
  proof (cases "s ! p = 0")
    case True
    then show ?thesis using t(1,2) by (subst text_valid_from.simps) simp
  next
    case False
    let ?ts = "text_at s (Suc p)"
    have t1: "terminated (drop (Suc p) s)" using t(3)[OF False] .
    have ts: "text_at s p = unat (s ! p) # ?ts" using t(2) False by simp
    obtain r where r: "text_lead s p (s ! p) = Some r"
        "case r of None \<Rightarrow> lead_conts (unat (s ! p)) = None \<or>
          (\<exists>n. lead_conts (unat (s ! p)) = Some n \<and> 0 < n \<and>
            (?ts = [] \<or> \<not> second_ok (unat (s ! p)) (hd ?ts)))
         | Some n \<Rightarrow> lead_conts (unat (s ! p)) = Some n \<and>
          (0 < n \<longrightarrow> ?ts = [] \<or> \<not> cont_byte (hd ?ts) \<or> second_ok (unat (s ! p)) (hd ?ts))"
      using text_lead_eq[OF less.prems False] by blast
    show ?thesis
    proof (cases r)
      case None
      then show ?thesis
        using r t(1) False by (subst text_valid_from.simps) (auto simp: ts)
    next
      case (Some n)
      let ?ok = "n \<le> length ?ts \<and> list_all cont_byte (take n ?ts)"
      have l: "lead_conts (unat (s ! p)) = Some n" using r(2) Some by simp
      have so: "0 < n \<longrightarrow> second_ok (unat (s ! p)) (hd ?ts)" if ?ok
        using that r(2) Some by (cases ?ts; cases n) auto
      show ?thesis
      proof (cases ?ok)
        case True
        then have d: "terminated (drop (Suc p + n) s)" "text_at s (Suc p + n) = drop n ?ts"
          using text_at_drop[OF t1] by simp_all
        have "text_valid_from s (Suc p + n) = Some (text_ok (drop n ?ts))"
          using less.hyps[of "Suc p + n"] d t(1) by simp
        then show ?thesis
          using True so r(1) Some t(1) False l by (subst text_valid_from.simps) (simp add: ts text_cont_eq[OF t1])
      next
        case nok: False
        then show ?thesis
          using r(1) Some t(1) False l by (subst text_valid_from.simps) (auto simp: ts text_cont_eq[OF t1])
      qed
    qed
  qed
qed

section \<open>Hostnames\<close>

definition label_char :: "byte \<Rightarrow> bool" where
  "label_char c \<longleftrightarrow> (97 \<le> c \<and> c \<le> 122) \<or> (48 \<le> c \<and> c \<le> 57) \<or> c = 45"

text \<open>A DNS label of at most 32 characters.\<close>

definition dns_label :: "byte list \<Rightarrow> bool" where
  "dns_label s \<longleftrightarrow> s \<noteq> [] \<and> length s \<le> 32 \<and> list_all label_char s \<and> hd s \<noteq> 45 \<and> last s \<noteq> 45"

lemma hostname_loop_eq:
  "terminated (drop i h) \<Longrightarrow> i \<le> 32 \<Longrightarrow> hostname_loop h i =
     (let s = cstr (drop i h) in
      Some (if i + length s \<le> 32 \<and> list_all label_char s then Some (i + length s) else None))"
proof (induction "length h - i" arbitrary: i rule: less_induct)
  case less
  have i: "i < length h" using less.prems(1) by (auto simp: terminated_def intro: ccontr)
  then have dr: "drop i h = h ! i # drop (Suc i) h" by (simp add: Cons_nth_drop_Suc)
  show ?case
  proof (cases "h ! i \<noteq> 0 \<and> i < 32 \<and> label_char (h ! i)")
    case True
    then have "terminated (drop (Suc i) h)" using less.prems(1) dr by (auto simp: terminated_def)
    with less.hyps[of "Suc i"] True i show ?thesis
      by (subst hostname_loop.simps)
         (auto simp: dr cstr_Cons Let_def BRIDGE_CONFIG_HOSTNAME_MAX_def label_char_def)
  next
    case False
    then show ?thesis
      using i less.prems(2)
      by (subst hostname_loop.simps)
         (auto simp: dr cstr_Cons Let_def BRIDGE_CONFIG_HOSTNAME_MAX_def label_char_def)
  qed
qed

lemma hostname_valid_eq:
  assumes "terminated h"
  shows "bridge_config_hostname_valid (Some h) = Some (dns_label (cstr h))"
proof -
  obtain t where t: "h = cstr h @ 0 # t" using cstr_split_ex[OF assms] by blast
  have loop: "hostname_loop h 0 =
      Some (if length (cstr h) \<le> 32 \<and> list_all label_char (cstr h) then Some (length (cstr h)) else None)"
    using hostname_loop_eq[of 0 h] assms by (simp add: Let_def)
  show ?thesis
  proof (cases "cstr h")
    case Nil
    then have "rd h 0 = Some 0" using t by (cases h) (auto simp: rd_def)
    then show ?thesis using Nil by (simp add: bridge_config_hostname_valid_def dns_label_def)
  next
    case (Cons c cs)
    have first: "rd h 0 = Some c" using t Cons by (metis rd_in append_Cons length_greater_0_conv list.distinct(1) nth_Cons_0)
    have "c \<noteq> 0" using cstr_no_nul[of h] Cons by auto
    have "h ! (length (cstr h) - 1) = cstr h ! (length (cstr h) - 1)"
      using t Cons by (metis diff_less length_greater_0_conv less_numeral_extra(1) list.distinct(1) nth_append)
    moreover have "length (cstr h) - 1 < length h" using length_cstr_less[OF assms] by simp
    ultimately have last: "rd h (length (cstr h) - 1) = Some (last (cstr h))"
      using Cons by (simp add: last_conv_nth)
    show ?thesis
      using first last loop Cons \<open>c \<noteq> 0\<close> by (auto simp: bridge_config_hostname_valid_def dns_label_def)
  qed
qed

lemma host_valid_eq:
  assumes "terminated h"
  shows "bridge_config_tcp_client_host_valid (Some h) = Some (cstr h = [] \<or> host_ok (cstr h) 0)"
proof -
  have "h \<noteq> []" using assms by (auto simp: terminated_def)
  then show ?thesis
    using host_octets_eq[of 0 h 0] assms
    by (cases h) (auto simp: bridge_config_tcp_client_host_valid_def cstr_Cons)
qed

section \<open>Properties\<close>

text \<open>C26. For every terminated array, the host check stays inside the array and accepts exactly the
  empty string and the canonical dotted quads: four decimal numbers from 0 to 255 without
  leading zeros, separated by dots.\<close>

theorem host_valid_iff:
  assumes "terminated h"
  shows "bridge_config_tcp_client_host_valid (Some h) =
    Some (cstr h = [] \<or> (\<exists>a b c d. a \<le> 255 \<and> b \<le> 255 \<and> c \<le> 255 \<and> d \<le> 255 \<and> cstr h = dotted_quad a b c d))"
  using host_valid_eq[OF assms] by (simp add: host_ok_iff)

lemma bytes_of_no_nul: "(0 :: byte) \<notin> of_char ` set s \<Longrightarrow> cstr (bytes_of s @ replicate n 0) = bytes_of s"
  by (simp add: bytes_of_def)

theorem host_valid_iff_witness:
  "bridge_config_tcp_client_host_valid (Some (bytes_of ''192.168.4.1'' @ replicate 5 0)) = Some True \<and>
   bridge_config_tcp_client_host_valid (Some (bytes_of ''1.2.3'' @ replicate 5 0)) = Some False"
proof
  have "bytes_of ''192.168.4.1'' = dotted_quad 192 168 4 1"
    by (simp add: dotted_quad_def octet_text_def digit_char_def bytes_of_def)
  moreover have "cstr (bytes_of ''192.168.4.1'' @ replicate 5 0) = bytes_of ''192.168.4.1''"
    by (rule bytes_of_no_nul) simp
  ultimately have "\<exists>a b c d. a \<le> 255 \<and> b \<le> 255 \<and> c \<le> 255 \<and> d \<le> 255 \<and>
      cstr (bytes_of ''192.168.4.1'' @ replicate 5 0) = dotted_quad a b c d"
    by (intro exI[of _ 192] exI[of _ 168] exI[of _ 4] exI[of _ 1]) simp
  then show "bridge_config_tcp_client_host_valid (Some (bytes_of ''192.168.4.1'' @ replicate 5 0)) = Some True"
    using host_valid_iff[of "bytes_of ''192.168.4.1'' @ replicate 5 0"] by (simp add: terminated_def)
next
  show "bridge_config_tcp_client_host_valid (Some (bytes_of ''1.2.3'' @ replicate 5 0)) = Some False"
    by (simp add: bridge_config_tcp_client_host_valid_def host_octets.simps host_digits.simps dec_char_def
        bytes_of_def)
qed

text \<open>C25. For every terminated array, the text check stays inside the array and accepts exactly the
  UTF-8 encodings of sequences of Unicode scalar values from U+0020 on: no overlong forms, no
  surrogates, nothing above U+10FFFF, no C0 control characters.\<close>

theorem text_valid_iff:
  assumes "terminated s"
  shows "bridge_config_text_valid s =
    Some (\<exists>us. list_all (\<lambda>u. unicode_scalar u \<and> 0x20 \<le> u) us \<and> map unat (cstr s) = concat (map utf8 us))"
  using text_valid_from_eq[of 0 s] assms
  by (auto simp: bridge_config_text_valid_def text_at_def text_ok_iff list_all_iff)

theorem text_valid_iff_witness:
  "bridge_config_text_valid [0x42, 0xC3, 0xB6, 0xE2, 0x82, 0xAC, 0, 7] = Some True"
proof -
  let ?us = "[0x42, 0xF6, 0x20AC] :: nat list"
  have "list_all (\<lambda>u. unicode_scalar u \<and> 0x20 \<le> u) ?us \<and>
      map unat (cstr [0x42, 0xC3, 0xB6, 0xE2, 0x82, 0xAC, 0, 7 :: byte]) = concat (map utf8 ?us)"
    by (simp add: unicode_scalar_def utf8_def cstr_def)
  then have "\<exists>us. list_all (\<lambda>u. unicode_scalar u \<and> 0x20 \<le> u) us \<and>
      map unat (cstr [0x42, 0xC3, 0xB6, 0xE2, 0x82, 0xAC, 0, 7 :: byte]) = concat (map utf8 us)" by blast
  then show ?thesis
    using text_valid_iff[of "[0x42, 0xC3, 0xB6, 0xE2, 0x82, 0xAC, 0, 7]"] by (simp add: terminated_def)
qed

text \<open>For every terminated array, the hostname check stays inside the array and accepts exactly
  the DNS labels of 1 to 32 characters: lower-case letters, digits and hyphens, with no
  hyphen at either end.\<close>

theorem hostname_valid_iff:
  assumes "terminated h"
  shows "bridge_config_hostname_valid (Some h) =
    Some (cstr h \<noteq> [] \<and> length (cstr h) \<le> 32 \<and> list_all label_char (cstr h) \<and>
      hd (cstr h) \<noteq> 45 \<and> last (cstr h) \<noteq> 45)"
  using hostname_valid_eq[OF assms] by (simp add: dns_label_def)

theorem hostname_valid_iff_witness:
  "bridge_config_hostname_valid (Some (bytes_of ''nmea-bridge'' @ replicate 22 0)) = Some True"
proof -
  have c: "cstr (bytes_of ''nmea-bridge'' @ replicate 22 0) = bytes_of ''nmea-bridge''"
    by (rule bytes_of_no_nul) simp
  show ?thesis
    using hostname_valid_iff[of "bytes_of ''nmea-bridge'' @ replicate 22 0"]
    unfolding c by (simp add: terminated_def bytes_of_def label_char_def)
qed

end
