(* ===== verification/Config_Records.thy ===== *)
theory Config_Records
  imports Config_Text
begin

text \<open>
  The stored records of \<open>src/src/bridge_config.c\<close>: each group of settings travels in one
  fixed-size byte record. A configuration struct is a record whose char arrays are byte
  lists of the C size. The pack functions give \<open>None\<close> when they leave an object; the unpack
  functions give \<open>None\<close> for that, \<open>Some None\<close> when they reject the record and \<open>Some (Some c)\<close> otherwise.
\<close>

section \<open>Translation\<close>

definition BRIDGE_CONFIG_AIS_MMSI_MAX :: u32 where "BRIDGE_CONFIG_AIS_MMSI_MAX = 999999999"
definition BRIDGE_CONFIG_WIFI_SSID_MAX :: nat where [simp]: "BRIDGE_CONFIG_WIFI_SSID_MAX = 32"
definition BRIDGE_CONFIG_WIFI_PSK_MIN :: nat where [simp]: "BRIDGE_CONFIG_WIFI_PSK_MIN = 8"
definition BRIDGE_CONFIG_WIFI_PSK_MAX :: nat where [simp]: "BRIDGE_CONFIG_WIFI_PSK_MAX = 63"
definition BRIDGE_CONFIG_TCP_CLIENT_HOST_MAX :: nat where [simp]: "BRIDGE_CONFIG_TCP_CLIENT_HOST_MAX = 15"

record bridge_config_ais =
  filter_enabled :: bool
  cfg_own_mmsi :: u32

record bridge_config_sta =
  sta_enabled :: bool
  rotate_mac :: bool
  sta_ssid :: "byte list"
  sta_psk :: "byte list"

record bridge_config_ap =
  ap_ssid :: "byte list"
  ap_psk :: "byte list"

record bridge_config_system =
  hostname :: "byte list"

record bridge_config_tcp_client =
  tcp_enabled :: bool
  tcp_host :: "byte list"
  tcp_port :: u16

definition AIS_RECORD_LEN :: nat where [simp]: "AIS_RECORD_LEN = 5"
definition STA_RECORD_SSID_OFF :: nat where [simp]: "STA_RECORD_SSID_OFF = 3"
definition STA_RECORD_PSK_LEN_OFF :: nat where
  [simp]: "STA_RECORD_PSK_LEN_OFF = STA_RECORD_SSID_OFF + BRIDGE_CONFIG_WIFI_SSID_MAX"
definition STA_RECORD_PSK_OFF :: nat where [simp]: "STA_RECORD_PSK_OFF = STA_RECORD_PSK_LEN_OFF + 1"
definition STA_RECORD_LEN :: nat where
  [simp]: "STA_RECORD_LEN = STA_RECORD_PSK_OFF + BRIDGE_CONFIG_WIFI_PSK_MAX"
definition AP_RECORD_SSID_OFF :: nat where [simp]: "AP_RECORD_SSID_OFF = 1"
definition AP_RECORD_PSK_LEN_OFF :: nat where
  [simp]: "AP_RECORD_PSK_LEN_OFF = AP_RECORD_SSID_OFF + BRIDGE_CONFIG_WIFI_SSID_MAX"
definition AP_RECORD_PSK_OFF :: nat where [simp]: "AP_RECORD_PSK_OFF = AP_RECORD_PSK_LEN_OFF + 1"
definition AP_RECORD_LEN :: nat where
  [simp]: "AP_RECORD_LEN = AP_RECORD_PSK_OFF + BRIDGE_CONFIG_WIFI_PSK_MAX"
definition SYS_RECORD_HOSTNAME_OFF :: nat where [simp]: "SYS_RECORD_HOSTNAME_OFF = 1"
definition SYS_RECORD_LEN :: nat where
  [simp]: "SYS_RECORD_LEN = SYS_RECORD_HOSTNAME_OFF + BRIDGE_CONFIG_HOSTNAME_MAX"
definition TCP_RECORD_HOST_OFF :: nat where [simp]: "TCP_RECORD_HOST_OFF = 2"
definition TCP_RECORD_PORT_OFF :: nat where
  [simp]: "TCP_RECORD_PORT_OFF = TCP_RECORD_HOST_OFF + BRIDGE_CONFIG_TCP_CLIENT_HOST_MAX"
definition TCP_RECORD_LEN :: nat where [simp]: "TCP_RECORD_LEN = TCP_RECORD_PORT_OFF + 2"

definition ais_record_pack :: "bridge_config_ais \<Rightarrow> byte list option" where
  "ais_record_pack src =
     (let record = replicate AIS_RECORD_LEN 0;
          record = record[0 := if filter_enabled src then 1 else 0]
      in memcpy record 1 (le_bytes 4 (unat (cfg_own_mmsi src))) 0 4)"

definition ais_record_unpack :: "byte list \<Rightarrow> bridge_config_ais option" where
  "ais_record_unpack record =
     do {
       e \<leftarrow> rd record 0;
       m \<leftarrow> memcpy (replicate 4 0) 0 record 1 4;
       Some \<lparr>filter_enabled = (e \<noteq> 0), cfg_own_mmsi = of_nat (le_value m)\<rparr>
     }"

definition sta_record_pack :: "bridge_config_sta \<Rightarrow> byte list option" where
  "sta_record_pack src =
     do {
       let record = replicate STA_RECORD_LEN 0;
       let record = record[0 := if sta_enabled src then 1 else 0];
       let record = record[1 := if rotate_mac src then 1 else 0];
       ssid_len \<leftarrow> strlen (sta_ssid src);
       let record = record[2 := of_nat ssid_len];
       record \<leftarrow> memcpy record STA_RECORD_SSID_OFF (sta_ssid src) 0 (unat (of_nat ssid_len :: byte));
       psk_len \<leftarrow> strlen (sta_psk src);
       let record = record[STA_RECORD_PSK_LEN_OFF := of_nat psk_len];
       memcpy record STA_RECORD_PSK_OFF (sta_psk src) 0 (unat (of_nat psk_len :: byte))
     }"

definition sta_record_unpack :: "byte list \<Rightarrow> bridge_config_sta option option" where
  "sta_record_unpack record =
     do {
       e \<leftarrow> rd record 0;
       r \<leftarrow> rd record 1;
       ssid_len \<leftarrow> rd record 2;
       psk_len \<leftarrow> rd record STA_RECORD_PSK_LEN_OFF;
       let sl = unat ssid_len;
       let pl = unat psk_len;
       if sl > BRIDGE_CONFIG_WIFI_SSID_MAX \<or>
          (pl \<noteq> 0 \<and> (pl < BRIDGE_CONFIG_WIFI_PSK_MIN \<or> pl > BRIDGE_CONFIG_WIFI_PSK_MAX))
       then Some None
       else do {
         ssid \<leftarrow> memcpy (replicate (BRIDGE_CONFIG_WIFI_SSID_MAX + 1) 0) 0 record STA_RECORD_SSID_OFF sl;
         psk \<leftarrow> memcpy (replicate (BRIDGE_CONFIG_WIFI_PSK_MAX + 1) 0) 0 record STA_RECORD_PSK_OFF pl;
         sl' \<leftarrow> strlen ssid;
         pl' \<leftarrow> strlen psk;
         ok \<leftarrow> (if sl' = sl \<and> pl' = pl then bridge_config_text_valid ssid else Some False);
         Some (if ok then Some \<lparr>sta_enabled = (e \<noteq> 0), rotate_mac = (r \<noteq> 0), sta_ssid = ssid, sta_psk = psk\<rparr>
               else None)
       }
     }"

definition ap_record_pack :: "bridge_config_ap \<Rightarrow> byte list option" where
  "ap_record_pack src =
     do {
       let record = replicate AP_RECORD_LEN 0;
       ssid_len \<leftarrow> strlen (ap_ssid src);
       let record = record[0 := of_nat ssid_len];
       record \<leftarrow> memcpy record AP_RECORD_SSID_OFF (ap_ssid src) 0 (unat (of_nat ssid_len :: byte));
       psk_len \<leftarrow> strlen (ap_psk src);
       let record = record[AP_RECORD_PSK_LEN_OFF := of_nat psk_len];
       memcpy record AP_RECORD_PSK_OFF (ap_psk src) 0 (unat (of_nat psk_len :: byte))
     }"

definition ap_record_unpack :: "byte list \<Rightarrow> bridge_config_ap option option" where
  "ap_record_unpack record =
     do {
       ssid_len \<leftarrow> rd record 0;
       psk_len \<leftarrow> rd record AP_RECORD_PSK_LEN_OFF;
       let sl = unat ssid_len;
       let pl = unat psk_len;
       if sl = 0 \<or> sl > BRIDGE_CONFIG_WIFI_SSID_MAX \<or>
          (pl \<noteq> 0 \<and> (pl < BRIDGE_CONFIG_WIFI_PSK_MIN \<or> pl > BRIDGE_CONFIG_WIFI_PSK_MAX))
       then Some None
       else do {
         ssid \<leftarrow> memcpy (replicate (BRIDGE_CONFIG_WIFI_SSID_MAX + 1) 0) 0 record AP_RECORD_SSID_OFF sl;
         psk \<leftarrow> memcpy (replicate (BRIDGE_CONFIG_WIFI_PSK_MAX + 1) 0) 0 record AP_RECORD_PSK_OFF pl;
         sl' \<leftarrow> strlen ssid;
         pl' \<leftarrow> strlen psk;
         ok \<leftarrow> (if sl' = sl \<and> pl' = pl then bridge_config_text_valid ssid else Some False);
         Some (if ok then Some \<lparr>ap_ssid = ssid, ap_psk = psk\<rparr> else None)
       }
     }"

definition sys_record_pack :: "bridge_config_system \<Rightarrow> byte list option" where
  "sys_record_pack src =
     do {
       let record = replicate SYS_RECORD_LEN 0;
       n \<leftarrow> strlen (hostname src);
       let record = record[0 := of_nat n];
       memcpy record SYS_RECORD_HOSTNAME_OFF (hostname src) 0 (unat (of_nat n :: byte))
     }"

definition sys_record_unpack :: "byte list \<Rightarrow> bridge_config_system option option" where
  "sys_record_unpack record =
     do {
       hostname_len \<leftarrow> rd record 0;
       let n = unat hostname_len;
       if n > BRIDGE_CONFIG_HOSTNAME_MAX then Some None
       else do {
         h \<leftarrow> memcpy (replicate (BRIDGE_CONFIG_HOSTNAME_MAX + 1) 0) 0 record SYS_RECORD_HOSTNAME_OFF n;
         n' \<leftarrow> strlen h;
         ok \<leftarrow> (if n' = n then bridge_config_hostname_valid (Some h) else Some False);
         Some (if ok then Some \<lparr>hostname = h\<rparr> else None)
       }
     }"

definition tcp_record_pack :: "bridge_config_tcp_client \<Rightarrow> byte list option" where
  "tcp_record_pack src =
     do {
       let record = replicate TCP_RECORD_LEN 0;
       let record = record[0 := if tcp_enabled src then 1 else 0];
       n \<leftarrow> strlen (tcp_host src);
       let record = record[1 := of_nat n];
       record \<leftarrow> memcpy record TCP_RECORD_HOST_OFF (tcp_host src) 0 (unat (of_nat n :: byte));
       memcpy record TCP_RECORD_PORT_OFF (le_bytes 2 (unat (tcp_port src))) 0 2
     }"

definition tcp_record_unpack :: "byte list \<Rightarrow> bridge_config_tcp_client option option" where
  "tcp_record_unpack record =
     do {
       e \<leftarrow> rd record 0;
       host_len \<leftarrow> rd record 1;
       let n = unat host_len;
       if n > BRIDGE_CONFIG_TCP_CLIENT_HOST_MAX then Some None
       else do {
         h \<leftarrow> memcpy (replicate (BRIDGE_CONFIG_TCP_CLIENT_HOST_MAX + 1) 0) 0 record TCP_RECORD_HOST_OFF n;
         p \<leftarrow> memcpy (replicate 2 0) 0 record TCP_RECORD_PORT_OFF 2;
         let port = of_nat (le_value p);
         valid \<leftarrow> bridge_config_tcp_client_host_valid (Some h);
         Some (if valid \<and> port \<noteq> 0 then Some \<lparr>tcp_enabled = (e \<noteq> 0), tcp_host = h, tcp_port = port\<rparr>
               else None)
       }
     }"

section \<open>Well-formed configurations\<close>

definition ais_ok :: "bridge_config_ais \<Rightarrow> bool" where
  "ais_ok c \<longleftrightarrow> cfg_own_mmsi c \<le> BRIDGE_CONFIG_AIS_MMSI_MAX"

text \<open>A char array of \<open>n + 1\<close> bytes that holds a string.\<close>

definition c_array :: "nat \<Rightarrow> byte list \<Rightarrow> bool" where
  "c_array n a \<longleftrightarrow> length a = Suc n \<and> terminated a"

definition psk_ok :: "byte list \<Rightarrow> bool" where
  "psk_ok a \<longleftrightarrow> cstr a = [] \<or> 8 \<le> length (cstr a)"

definition sta_ok :: "bridge_config_sta \<Rightarrow> bool" where
  "sta_ok c \<longleftrightarrow> c_array 32 (sta_ssid c) \<and> c_array 63 (sta_psk c) \<and>
     text_ok (map unat (cstr (sta_ssid c))) \<and> psk_ok (sta_psk c)"

definition ap_ok :: "bridge_config_ap \<Rightarrow> bool" where
  "ap_ok c \<longleftrightarrow> c_array 32 (ap_ssid c) \<and> c_array 63 (ap_psk c) \<and>
     text_ok (map unat (cstr (ap_ssid c))) \<and> cstr (ap_ssid c) \<noteq> [] \<and> psk_ok (ap_psk c)"

definition system_ok :: "bridge_config_system \<Rightarrow> bool" where
  "system_ok c \<longleftrightarrow> c_array 32 (hostname c) \<and> dns_label (cstr (hostname c))"

definition tcp_ok :: "bridge_config_tcp_client \<Rightarrow> bool" where
  "tcp_ok c \<longleftrightarrow> c_array 15 (tcp_host c) \<and> (cstr (tcp_host c) = [] \<or> host_ok (cstr (tcp_host c)) 0) \<and>
     tcp_port c \<noteq> 0"

text \<open>The configuration with every array padded with NULs: what \<open>strcmp\<close> sees of it.\<close>

definition sta_norm :: "bridge_config_sta \<Rightarrow> bridge_config_sta" where
  "sta_norm c = c\<lparr>sta_ssid := zpad 33 (sta_ssid c), sta_psk := zpad 64 (sta_psk c)\<rparr>"

definition ap_norm :: "bridge_config_ap \<Rightarrow> bridge_config_ap" where
  "ap_norm c = c\<lparr>ap_ssid := zpad 33 (ap_ssid c), ap_psk := zpad 64 (ap_psk c)\<rparr>"

definition system_norm :: "bridge_config_system \<Rightarrow> bridge_config_system" where
  "system_norm c = c\<lparr>hostname := zpad 33 (hostname c)\<rparr>"

definition tcp_norm :: "bridge_config_tcp_client \<Rightarrow> bridge_config_tcp_client" where
  "tcp_norm c = c\<lparr>tcp_host := zpad 16 (tcp_host c)\<rparr>"

section \<open>Round trips\<close>

lemma c_array_len: "c_array n a \<Longrightarrow> length (cstr a) \<le> n"
  using length_cstr_less[of a] by (simp add: c_array_def)

lemma c_array_strlen: "c_array n a \<Longrightarrow> strlen a = Some (length (cstr a))"
  by (simp add: c_array_def strlen_eq)

lemma c_array_zpad: "length (cstr a) \<le> n \<Longrightarrow> c_array n (zpad (Suc n) a)"
  by (simp add: c_array_def length_zpad terminated_zpad)

lemma unat_len_byte: "c_array n a \<Longrightarrow> n < 256 \<Longrightarrow> unat (of_nat (length (cstr a)) :: byte) = length (cstr a)"
  using c_array_len[of n a] by (intro unat_of_nat_small) simp

lemma text_valid_eq: "terminated s \<Longrightarrow> bridge_config_text_valid s = Some (text_ok (map unat (cstr s)))"
  using text_valid_from_eq[of 0 s] by (simp add: bridge_config_text_valid_def text_at_def)

lemma upd_at: "i = length pre \<Longrightarrow> (pre @ x # post)[i := y] = pre @ y # post"
  by simp

text \<open>A length byte and a string put into a zeroed part of a record, and read back from it.\<close>

lemma put_string:
  assumes "c_array m a" and "i = length pre" and "j = Suc i"
  shows "memcpy ((pre @ 0 # replicate m 0 @ post)[i := x]) j a 0 (length (cstr a)) =
    Some (pre @ x # zpad m a @ post)"
  using memcpy_field[of j "pre @ [x]" a m post] assms c_array_len[OF assms(1)] by simp

lemma get_string:
  assumes "c_array m a" and "j = Suc (length pre)" and "n = Suc m"
  shows "memcpy (replicate n 0) 0 (pre @ x # zpad m a @ post) j (length (cstr a)) = Some (zpad n a)"
  using memcpy_read[of "pre @ x # zpad m a @ post" "pre @ [x]" m a post j n] assms c_array_len[OF assms(1)]
  by simp

lemma strlen_zpad: "c_array n a \<Longrightarrow> strlen (zpad (Suc n) a) = Some (length (cstr a))"
  using c_array_strlen[OF c_array_zpad[OF c_array_len]] by simp

lemma le_word: "of_nat (le_value (le_bytes 4 (unat (w :: u32)))) = w"
    "of_nat (le_value (le_bytes 2 (unat (v :: u16)))) = v"
proof -
  have "unat w < 256 ^ 4" "unat v < 256 ^ 2" using unat_less_len[of w] unat_less_len[of v] by simp_all
  then show "of_nat (le_value (le_bytes 4 (unat w))) = w" "of_nat (le_value (le_bytes 2 (unat v))) = v"
    by (simp_all add: le_value_bytes)
qed

lemma replicate_unfold: "replicate 5 x = x # replicate 4 x" "replicate 99 x = x # x # x # replicate 32 x @ x # replicate 63 x"
    "replicate 97 x = x # replicate 32 x @ x # replicate 63 x" "replicate 33 x = x # replicate 32 x"
    "replicate 19 x = x # x # replicate 15 x @ replicate 2 x"
  by (simp_all add: numeral_eq_Suc)

lemmas byte_len = unat_len_byte[of 32, simplified] unat_len_byte[of 63, simplified] unat_len_byte[of 15, simplified]

lemma ais_roundtrip: "do { r \<leftarrow> ais_record_pack c; ais_record_unpack r } = Some c"
proof -
  have "ais_record_pack c = Some ((if filter_enabled c then 1 else 0) # le_bytes 4 (unat (cfg_own_mmsi c)))"
    by (simp add: ais_record_pack_def replicate_unfold memcpy_def)
  then show ?thesis
    by (simp add: ais_record_unpack_def memcpy_def le_word rd_def)
qed

definition sta_record :: "bridge_config_sta \<Rightarrow> byte list" where
  "sta_record c = [if sta_enabled c then 1 else 0, if rotate_mac c then 1 else 0] @
     of_nat (length (cstr (sta_ssid c))) # zpad 32 (sta_ssid c) @
     of_nat (length (cstr (sta_psk c))) # zpad 63 (sta_psk c) @ []"

lemma sta_pack_eq:
  assumes "sta_ok c"
  shows "sta_record_pack c = Some (sta_record c)"
proof -
  let ?er = "[if sta_enabled c then 1 else 0, if rotate_mac c then 1 else 0 :: byte]"
  have a: "c_array 32 (sta_ssid c)" "c_array 63 (sta_psk c)" using assms by (simp_all add: sta_ok_def)
  note put_string[OF a(1), of 2 ?er 3 "0 # replicate 63 0"]
    put_string[OF a(2), of 35 "?er @ of_nat (length (cstr (sta_ssid c))) # zpad 32 (sta_ssid c)" 36 "[]"]
  with a c_array_len[OF a(1)] show ?thesis
    by (simp add: sta_record_pack_def replicate_unfold c_array_strlen byte_len sta_record_def length_zpad)
qed

lemma sta_unpack_eq:
  assumes "sta_ok c"
  shows "sta_record_unpack (sta_record c) = Some (Some (sta_norm c))"
proof -
  have a: "c_array 32 (sta_ssid c)" "c_array 63 (sta_psk c)" using assms by (simp_all add: sta_ok_def)
  note l = c_array_len[OF a(1)] c_array_len[OF a(2)]
  let ?pre = "[if sta_enabled c then 1 else 0, if rotate_mac c then 1 else 0 :: byte]"
  let ?sl = "of_nat (length (cstr (sta_ssid c))) :: byte" and ?pl = "of_nat (length (cstr (sta_psk c))) :: byte"
  have r: "rd (sta_record c) 0 = Some (if sta_enabled c then 1 else 0)"
      "rd (sta_record c) 1 = Some (if rotate_mac c then 1 else 0)" "rd (sta_record c) 2 = Some ?sl"
      "rd (sta_record c) 35 = Some ?pl"
    using l by (simp_all add: sta_record_def rd_def nth_append nth_Cons' length_zpad)
  have m: "memcpy (replicate 33 0) 0 (sta_record c) 3 (length (cstr (sta_ssid c))) = Some (zpad 33 (sta_ssid c))"
      "memcpy (replicate 64 0) 0 (sta_record c) 36 (length (cstr (sta_psk c))) = Some (zpad 64 (sta_psk c))"
    using get_string[OF a(1), of 3 ?pre 33 ?sl "?pl # zpad 63 (sta_psk c) @ []"]
      get_string[OF a(2), of 36 "?pre @ ?sl # zpad 32 (sta_ssid c)" 64 ?pl "[]"] l
    by (simp_all add: sta_record_def length_zpad)
  have t: "bridge_config_text_valid (zpad 33 (sta_ssid c)) = Some True"
    using text_valid_eq[of "zpad 33 (sta_ssid c)"] l assms by (simp add: terminated_zpad sta_ok_def)
  have "length (cstr (sta_psk c)) = 0 \<or> 8 \<le> length (cstr (sta_psk c))"
    using assms by (auto simp: sta_ok_def psk_ok_def)
  then show ?thesis
    using r m t l strlen_zpad[OF a(1)] strlen_zpad[OF a(2)]
    by (auto simp: sta_record_unpack_def byte_len(1)[OF a(1)] byte_len(2)[OF a(2)] sta_norm_def)
qed

definition ap_record :: "bridge_config_ap \<Rightarrow> byte list" where
  "ap_record c = [] @ of_nat (length (cstr (ap_ssid c))) # zpad 32 (ap_ssid c) @
     of_nat (length (cstr (ap_psk c))) # zpad 63 (ap_psk c) @ []"

lemma ap_pack_eq:
  assumes "ap_ok c"
  shows "ap_record_pack c = Some (ap_record c)"
proof -
  have a: "c_array 32 (ap_ssid c)" "c_array 63 (ap_psk c)" using assms by (simp_all add: ap_ok_def)
  note put_string[OF a(1), of 0 "[]" 1 "0 # replicate 63 0"]
    put_string[OF a(2), of 33 "of_nat (length (cstr (ap_ssid c))) # zpad 32 (ap_ssid c)" 34 "[]"]
  with a c_array_len[OF a(1)] show ?thesis
    by (simp add: ap_record_pack_def replicate_unfold c_array_strlen byte_len ap_record_def length_zpad)
qed

lemma ap_unpack_eq:
  assumes "ap_ok c"
  shows "ap_record_unpack (ap_record c) = Some (Some (ap_norm c))"
proof -
  have a: "c_array 32 (ap_ssid c)" "c_array 63 (ap_psk c)" using assms by (simp_all add: ap_ok_def)
  note l = c_array_len[OF a(1)] c_array_len[OF a(2)]
  let ?sl = "of_nat (length (cstr (ap_ssid c))) :: byte" and ?pl = "of_nat (length (cstr (ap_psk c))) :: byte"
  have r: "rd (ap_record c) 0 = Some ?sl" "rd (ap_record c) 33 = Some ?pl"
    using l by (simp_all add: ap_record_def rd_def nth_append nth_Cons' length_zpad)
  have m: "memcpy (replicate 33 0) 0 (ap_record c) 1 (length (cstr (ap_ssid c))) = Some (zpad 33 (ap_ssid c))"
      "memcpy (replicate 64 0) 0 (ap_record c) 34 (length (cstr (ap_psk c))) = Some (zpad 64 (ap_psk c))"
    using get_string[OF a(1), of 1 "[]" 33 ?sl "?pl # zpad 63 (ap_psk c) @ []"]
      get_string[OF a(2), of 34 "?sl # zpad 32 (ap_ssid c)" 64 ?pl "[]"] l
    by (simp_all add: ap_record_def length_zpad)
  have t: "bridge_config_text_valid (zpad 33 (ap_ssid c)) = Some True" "cstr (ap_ssid c) \<noteq> []"
    using text_valid_eq[of "zpad 33 (ap_ssid c)"] l assms by (simp_all add: terminated_zpad ap_ok_def)
  have "length (cstr (ap_psk c)) = 0 \<or> 8 \<le> length (cstr (ap_psk c))"
    using assms by (auto simp: ap_ok_def psk_ok_def)
  then show ?thesis
    using r m t l strlen_zpad[OF a(1)] strlen_zpad[OF a(2)]
    by (auto simp: ap_record_unpack_def byte_len(1)[OF a(1)] byte_len(2)[OF a(2)] ap_norm_def)
qed

definition sys_record :: "bridge_config_system \<Rightarrow> byte list" where
  "sys_record c = [] @ of_nat (length (cstr (hostname c))) # zpad 32 (hostname c) @ []"

lemma sys_pack_eq:
  assumes "system_ok c"
  shows "sys_record_pack c = Some (sys_record c)"
proof -
  have a: "c_array 32 (hostname c)" using assms by (simp add: system_ok_def)
  show ?thesis
    using put_string[OF a, of 0 "[]" 1 "[]"] a
    by (simp add: sys_record_pack_def replicate_unfold c_array_strlen byte_len sys_record_def
        BRIDGE_CONFIG_HOSTNAME_MAX_def)
qed

lemma sys_unpack_eq:
  assumes "system_ok c"
  shows "sys_record_unpack (sys_record c) = Some (Some (system_norm c))"
proof -
  have a: "c_array 32 (hostname c)" using assms by (simp add: system_ok_def)
  note l = c_array_len[OF a]
  have "rd (sys_record c) 0 = Some (of_nat (length (cstr (hostname c))))" by (simp add: sys_record_def rd_def)
  moreover have "memcpy (replicate 33 0) 0 (sys_record c) 1 (length (cstr (hostname c))) =
      Some (zpad 33 (hostname c))"
    using get_string[OF a, of 1 "[]" 33 _ "[]"] by (simp add: sys_record_def)
  moreover have "bridge_config_hostname_valid (Some (zpad 33 (hostname c))) = Some True"
    using hostname_valid_eq[of "zpad 33 (hostname c)"] l assms by (simp add: terminated_zpad system_ok_def)
  ultimately show ?thesis
    using l strlen_zpad[OF a]
    by (simp add: sys_record_unpack_def byte_len(1)[OF a] system_norm_def BRIDGE_CONFIG_HOSTNAME_MAX_def)
qed

definition tcp_record :: "bridge_config_tcp_client \<Rightarrow> byte list" where
  "tcp_record c = [if tcp_enabled c then 1 else 0] @ of_nat (length (cstr (tcp_host c))) #
     zpad 15 (tcp_host c) @ le_bytes 2 (unat (tcp_port c))"

lemma tcp_pack_eq:
  assumes "tcp_ok c"
  shows "tcp_record_pack c = Some (tcp_record c)"
proof -
  have a: "c_array 15 (tcp_host c)" using assms by (simp add: tcp_ok_def)
  let ?h = "[if tcp_enabled c then 1 else 0] @ of_nat (length (cstr (tcp_host c))) # zpad 15 (tcp_host c)"
  have "memcpy (?h @ replicate 2 0) 17 (le_bytes 2 (unat (tcp_port c))) 0 2 = Some (?h @ le_bytes 2 (unat (tcp_port c)))"
    using c_array_len[OF a] by (simp add: memcpy_def length_zpad)
  with put_string[OF a, of 1 "[if tcp_enabled c then 1 else 0]" 2 "replicate 2 0"] a show ?thesis
    by (simp add: tcp_record_pack_def replicate_unfold c_array_strlen byte_len tcp_record_def)
qed

lemma tcp_unpack_eq:
  assumes "tcp_ok c"
  shows "tcp_record_unpack (tcp_record c) = Some (Some (tcp_norm c))"
proof -
  have a: "c_array 15 (tcp_host c)" using assms by (simp add: tcp_ok_def)
  note l = c_array_len[OF a]
  have "rd (tcp_record c) 0 = Some (if tcp_enabled c then 1 else 0)"
      "rd (tcp_record c) 1 = Some (of_nat (length (cstr (tcp_host c))))"
    by (simp_all add: tcp_record_def rd_def)
  moreover have "memcpy (replicate 16 0) 0 (tcp_record c) 2 (length (cstr (tcp_host c))) = Some (zpad 16 (tcp_host c))"
    using get_string[OF a, of 2 "[if tcp_enabled c then 1 else 0]" 16] by (simp add: tcp_record_def)
  moreover have "memcpy (replicate 2 0) 0 (tcp_record c) 17 2 = Some (le_bytes 2 (unat (tcp_port c)))"
    using l by (simp add: tcp_record_def memcpy_def length_zpad)
  moreover have "bridge_config_tcp_client_host_valid (Some (zpad 16 (tcp_host c))) = Some True"
    using host_valid_eq[of "zpad 16 (tcp_host c)"] l assms by (simp add: terminated_zpad tcp_ok_def)
  ultimately show ?thesis
    using l assms
    by (simp add: tcp_record_unpack_def byte_len(3)[OF a] tcp_norm_def le_word tcp_ok_def)
qed

section \<open>Properties\<close>

text \<open>C24. Every valid configuration survives storage: packing stays inside the record and the
  arrays and fills the record exactly, and unpacking the record accepts it and gives back the
  same settings, with the strings padded with NULs.\<close>

theorem config_records_roundtrip:
  "(\<exists>r. ais_record_pack a = Some r \<and> length r = AIS_RECORD_LEN \<and> ais_record_unpack r = Some a) \<and>
   (sta_ok s \<longrightarrow> (\<exists>r. sta_record_pack s = Some r \<and> length r = STA_RECORD_LEN \<and>
      sta_record_unpack r = Some (Some (sta_norm s)))) \<and>
   (ap_ok p \<longrightarrow> (\<exists>r. ap_record_pack p = Some r \<and> length r = AP_RECORD_LEN \<and>
      ap_record_unpack r = Some (Some (ap_norm p)))) \<and>
   (system_ok y \<longrightarrow> (\<exists>r. sys_record_pack y = Some r \<and> length r = SYS_RECORD_LEN \<and>
      sys_record_unpack r = Some (Some (system_norm y)))) \<and>
   (tcp_ok t \<longrightarrow> (\<exists>r. tcp_record_pack t = Some r \<and> length r = TCP_RECORD_LEN \<and>
      tcp_record_unpack r = Some (Some (tcp_norm t))))"
proof (intro conjI impI)
  show "\<exists>r. ais_record_pack a = Some r \<and> length r = AIS_RECORD_LEN \<and> ais_record_unpack r = Some a"
    using ais_roundtrip[of a] by (auto simp: bind_eq_Some_conv ais_record_pack_def memcpy_def)
  show "\<exists>r. sta_record_pack s = Some r \<and> length r = STA_RECORD_LEN \<and> sta_record_unpack r = Some (Some (sta_norm s))"
    if "sta_ok s"
    using that by (auto simp: sta_pack_eq sta_unpack_eq) (simp add: sta_record_def length_zpad c_array_len sta_ok_def)
  show "\<exists>r. ap_record_pack p = Some r \<and> length r = AP_RECORD_LEN \<and> ap_record_unpack r = Some (Some (ap_norm p))"
    if "ap_ok p"
    using that by (auto simp: ap_pack_eq ap_unpack_eq) (simp add: ap_record_def length_zpad c_array_len ap_ok_def)
  show "\<exists>r. sys_record_pack y = Some r \<and> length r = SYS_RECORD_LEN \<and> sys_record_unpack r = Some (Some (system_norm y))"
    if "system_ok y"
    using that by (auto simp: sys_pack_eq sys_unpack_eq)
      (simp add: sys_record_def length_zpad c_array_len system_ok_def BRIDGE_CONFIG_HOSTNAME_MAX_def)
  show "\<exists>r. tcp_record_pack t = Some r \<and> length r = TCP_RECORD_LEN \<and> tcp_record_unpack r = Some (Some (tcp_norm t))"
    if "tcp_ok t"
    using that by (auto simp: tcp_pack_eq tcp_unpack_eq) (simp add: tcp_record_def length_zpad c_array_len tcp_ok_def)
qed

definition demo_ais :: bridge_config_ais where
  "demo_ais = \<lparr>filter_enabled = True, cfg_own_mmsi = 123456789\<rparr>"

definition demo_sta :: bridge_config_sta where
  "demo_sta = \<lparr>sta_enabled = True, rotate_mac = False, sta_ssid = bytes_of ''boat'' @ replicate 29 0,
     sta_psk = bytes_of ''password'' @ 0 # replicate 55 7\<rparr>"

definition demo_ap :: bridge_config_ap where
  "demo_ap = \<lparr>ap_ssid = bytes_of ''rescue'' @ replicate 27 0, ap_psk = replicate 64 0\<rparr>"

definition demo_system :: bridge_config_system where
  "demo_system = \<lparr>hostname = bytes_of ''nmea-bridge'' @ replicate 22 0\<rparr>"

definition demo_tcp :: bridge_config_tcp_client where
  "demo_tcp = \<lparr>tcp_enabled = True, tcp_host = replicate 16 0, tcp_port = 10110\<rparr>"

lemma demo_configs_ok: "ais_ok demo_ais" "sta_ok demo_sta" "ap_ok demo_ap" "system_ok demo_system" "tcp_ok demo_tcp"
  by (simp_all add: ais_ok_def sta_ok_def ap_ok_def system_ok_def tcp_ok_def demo_ais_def demo_sta_def demo_ap_def
      demo_system_def demo_tcp_def BRIDGE_CONFIG_AIS_MMSI_MAX_def c_array_def terminated_def psk_ok_def
      bytes_of_def cstr_Cons lead_conts_def dns_label_def label_char_def)

theorem config_records_roundtrip_witness:
  "\<exists>r. sta_record_pack demo_sta = Some r \<and> length r = 99 \<and> sta_record_unpack r = Some (Some (sta_norm demo_sta))"
  using config_records_roundtrip[of demo_ais demo_sta demo_ap demo_system demo_tcp] demo_configs_ok by simp

subsection \<open>Any stored bytes\<close>

lemma memcpy_in:
  assumes "n \<le> m" and "off + n \<le> length r"
  shows "\<exists>a. memcpy (replicate (Suc m) 0) 0 r off n = Some a \<and> c_array m a"
  using assms by (simp add: memcpy_def c_array_def terminated_def del: replicate.simps)

lemma sta_unpack_any:
  assumes "length r = STA_RECORD_LEN"
  shows "\<exists>x. sta_record_unpack r = Some x \<and> (\<forall>c. x = Some c \<longrightarrow> sta_ok c)"
proof -
  define sl pl where "sl = unat (r ! 2)" and "pl = unat (r ! 35)"
  show ?thesis
  proof (cases "sl > 32 \<or> (pl \<noteq> 0 \<and> (pl < 8 \<or> pl > 63))")
    case True
    then show ?thesis using assms by (auto simp: sta_record_unpack_def sl_def pl_def Let_def)
  next
    case False
    obtain s where s: "memcpy (replicate 33 0) 0 r 3 sl = Some s" "c_array 32 s"
      using memcpy_in[of sl 32 3 r] False assms by auto
    obtain p where p: "memcpy (replicate 64 0) 0 r 36 pl = Some p" "c_array 63 p"
      using memcpy_in[of pl 63 36 r] False assms by auto
    have t: "bridge_config_text_valid s = Some (text_ok (map unat (cstr s)))"
      using s(2) by (simp add: text_valid_eq c_array_def)
    have "length (cstr p) = pl \<Longrightarrow> psk_ok p" using False by (auto simp: psk_ok_def)
    then show ?thesis
      using False assms s p t
      by (auto simp: sta_record_unpack_def Let_def c_array_strlen[OF s(2)] c_array_strlen[OF p(2)] sta_ok_def
          simp flip: sl_def pl_def)
  qed
qed

lemma ap_unpack_any:
  assumes "length r = AP_RECORD_LEN"
  shows "\<exists>x. ap_record_unpack r = Some x \<and> (\<forall>c. x = Some c \<longrightarrow> ap_ok c)"
proof -
  define sl pl where "sl = unat (r ! 0)" and "pl = unat (r ! 33)"
  show ?thesis
  proof (cases "sl = 0 \<or> sl > 32 \<or> (pl \<noteq> 0 \<and> (pl < 8 \<or> pl > 63))")
    case True
    then show ?thesis using assms by (auto simp: ap_record_unpack_def sl_def pl_def Let_def)
  next
    case False
    obtain s where s: "memcpy (replicate 33 0) 0 r 1 sl = Some s" "c_array 32 s"
      using memcpy_in[of sl 32 1 r] False assms by auto
    obtain p where p: "memcpy (replicate 64 0) 0 r 34 pl = Some p" "c_array 63 p"
      using memcpy_in[of pl 63 34 r] False assms by auto
    have t: "bridge_config_text_valid s = Some (text_ok (map unat (cstr s)))"
      using s(2) by (simp add: text_valid_eq c_array_def)
    have "length (cstr p) = pl \<Longrightarrow> psk_ok p" "length (cstr s) = sl \<Longrightarrow> cstr s \<noteq> []"
      using False by (auto simp: psk_ok_def)
    then show ?thesis
      using False assms s p t
      by (auto simp: ap_record_unpack_def Let_def c_array_strlen[OF s(2)] c_array_strlen[OF p(2)] ap_ok_def
          simp flip: sl_def pl_def)
  qed
qed

lemma sys_unpack_any:
  assumes "length r = SYS_RECORD_LEN"
  shows "\<exists>x. sys_record_unpack r = Some x \<and> (\<forall>c. x = Some c \<longrightarrow> system_ok c)"
proof (cases "unat (r ! 0) > 32")
  case True
  then show ?thesis
    using assms by (auto simp: sys_record_unpack_def Let_def BRIDGE_CONFIG_HOSTNAME_MAX_def)
next
  case False
  obtain h where h: "memcpy (replicate 33 0) 0 r 1 (unat (r ! 0)) = Some h" "c_array 32 h"
    using memcpy_in[of "unat (r ! 0)" 32 1 r] False assms by (auto simp: BRIDGE_CONFIG_HOSTNAME_MAX_def)
  have "bridge_config_hostname_valid (Some h) = Some (dns_label (cstr h))"
    using h(2) by (simp add: hostname_valid_eq c_array_def)
  then show ?thesis
    using False assms h
    by (auto simp: sys_record_unpack_def Let_def c_array_strlen[OF h(2)] system_ok_def
        BRIDGE_CONFIG_HOSTNAME_MAX_def)
qed

lemma tcp_unpack_any:
  assumes "length r = TCP_RECORD_LEN"
  shows "\<exists>x. tcp_record_unpack r = Some x \<and> (\<forall>c. x = Some c \<longrightarrow> tcp_ok c)"
proof (cases "unat (r ! 1) > 15")
  case True
  then show ?thesis using assms by (auto simp: tcp_record_unpack_def Let_def)
next
  case False
  obtain h where h: "memcpy (replicate 16 0) 0 r 2 (unat (r ! 1)) = Some h" "c_array 15 h"
    using memcpy_in[of "unat (r ! 1)" 15 2 r] False assms by auto
  obtain p where p: "memcpy (replicate 2 0) 0 r 17 2 = Some p"
    using assms by (simp add: memcpy_def)
  have "bridge_config_tcp_client_host_valid (Some h) = Some (cstr h = [] \<or> host_ok (cstr h) 0)"
    using h(2) by (simp add: host_valid_eq c_array_def)
  then show ?thesis
    using False assms h p by (auto simp: tcp_record_unpack_def Let_def tcp_ok_def)
qed



end
