(* ===== verification/Bridge_Config.thy ===== *)
theory Bridge_Config
  imports Config_Records
begin

text \<open>
  The configuration, \<open>src/src/bridge_config.c\<close>: the effective settings in RAM, their stored
  overrides, the setters, the loading at boot and the factory reset.

  Zephyr's settings subsystem is not part of the repository. Its five calls are the record
  \<open>settings_ops\<close> over the type of the store, and the locale \<open>settings_store\<close> names what the module relies
  on: a store is a map from names to values, a successful save or delete changes exactly
  one entry, a failed one changes nothing, loading hands every entry below \<open>bridge\<close> to the handler
  once. The listener is a counter of its calls. An operation gives \<open>None\<close> when it leaves an
  object; \<open>Bridge_Config_Properties\<close> proves that it never does.
\<close>

section \<open>The settings subsystem\<close>

type_synonym settings_name = string
type_synonym settings_read_cb = "nat \<Rightarrow> byte list option"

text \<open>\<open>load_subtree\<close> gives its return value and the calls it makes to the handler: name below the
  subtree, length and reader. \<open>load_subtree_direct\<close> gives the keys it offers to the callback until
  the callback stops it; \<open>None\<close> is the NULL key of a record named exactly like the subtree.\<close>

record 's settings_ops =
  cfg_settings_subsys_init :: "'s \<Rightarrow> rc \<times> 's"
  cfg_settings_load_subtree :: "'s \<Rightarrow> rc \<times> (settings_name \<times> nat \<times> settings_read_cb) list"
  cfg_settings_save_one :: "settings_name \<Rightarrow> byte list \<Rightarrow> 's \<Rightarrow> rc \<times> 's"
  cfg_settings_load_subtree_direct :: "'s \<Rightarrow> settings_name option list"
  cfg_settings_delete :: "settings_name \<Rightarrow> 's \<Rightarrow> rc \<times> 's"

definition value_reader :: "byte list \<Rightarrow> settings_read_cb" where
  "value_reader v n = Some (take n v)"

text \<open>The full name of a key below the subtree.\<close>

definition subtree_key :: "settings_name option \<Rightarrow> settings_name" where
  "subtree_key k = (case k of None \<Rightarrow> ''bridge'' | Some k \<Rightarrow> ''bridge/'' @ k)"

locale settings_store =
  fixes ops :: "'s settings_ops"
    and view :: "'s \<Rightarrow> settings_name \<Rightarrow> byte list option"
    and sok :: "'s \<Rightarrow> bool"
  assumes init: "sok s \<Longrightarrow> \<exists>s'. cfg_settings_subsys_init ops s = (0, s') \<and> sok s' \<and> view s' = view s"
    and load: "sok s \<Longrightarrow> \<exists>kvs. cfg_settings_load_subtree ops s =
        (0, map (\<lambda>(k, v). (k, length v, value_reader v)) kvs) \<and>
        distinct (map fst kvs) \<and> (\<forall>k. k \<noteq> [] \<longrightarrow> map_of kvs k = view s (subtree_key (Some k)))"
    and save: "sok s \<Longrightarrow> cfg_settings_save_one ops k v s = (r, s') \<Longrightarrow>
        sok s' \<and> view s' = (if r = 0 then (view s)(k \<mapsto> v) else view s)"
    and keys: "sok s \<Longrightarrow> distinct (cfg_settings_load_subtree_direct ops s) \<and>
        set (cfg_settings_load_subtree_direct ops s) = {k. view s (subtree_key k) \<noteq> None}"
    and delete: "sok s \<Longrightarrow> cfg_settings_delete ops k s = (r, s') \<Longrightarrow>
        sok s' \<and> view s' = (if r = 0 then (view s)(k := None) else view s)"

section \<open>Translation\<close>

record 's config =
  ais :: bridge_config_ais
  sta :: bridge_config_sta
  ap :: bridge_config_ap
  system_cfg :: bridge_config_system
  tcp_client :: bridge_config_tcp_client
  reboot_required :: bool
  factory_reset_pending :: bool
  listener :: bool
  notifications :: nat
  store :: 's

text \<open>\<open>strcmp(a, b) == 0\<close>.\<close>

fun strcmp_eq :: "byte list \<Rightarrow> byte list \<Rightarrow> bool option" where
  "strcmp_eq (x # xs) (y # ys) =
     (if x \<noteq> y then Some False else if x = 0 then Some True else strcmp_eq xs ys)"
| "strcmp_eq _ _ = None"

definition read_exact :: "nat \<Rightarrow> nat \<Rightarrow> settings_read_cb \<Rightarrow> byte list option" where
  "read_exact sz len read_cb =
     (if len \<noteq> sz then None
      else case read_cb sz of Some bs \<Rightarrow> if length bs = sz then Some bs else None | None \<Rightarrow> None)"

definition bridge_config_settings_set ::
  "settings_name \<Rightarrow> nat \<Rightarrow> settings_read_cb \<Rightarrow> 's config \<Rightarrow> (rc \<times> 's config) option"
where
  "bridge_config_settings_set name len read_cb c =
     (if name = ''ais'' then
        (case read_exact AIS_RECORD_LEN len read_cb of
           None \<Rightarrow> Some (0, c)
         | Some record \<Rightarrow>
             do {
               stored \<leftarrow> ais_record_unpack record;
               Some (0, if cfg_own_mmsi stored > BRIDGE_CONFIG_AIS_MMSI_MAX then c else c\<lparr>ais := stored\<rparr>)
             })
      else if name = ''tcp'' then
        (case read_exact TCP_RECORD_LEN len read_cb of
           None \<Rightarrow> Some (0, c)
         | Some record \<Rightarrow>
             do { x \<leftarrow> tcp_record_unpack record;
                  Some (0, case x of None \<Rightarrow> c | Some stored \<Rightarrow> c\<lparr>tcp_client := stored\<rparr>) })
      else if name = ''ap'' then
        (case read_exact AP_RECORD_LEN len read_cb of
           None \<Rightarrow> Some (0, c)
         | Some record \<Rightarrow>
             do { x \<leftarrow> ap_record_unpack record;
                  Some (0, case x of None \<Rightarrow> c | Some stored \<Rightarrow> c\<lparr>ap := stored\<rparr>) })
      else if name = ''sys'' then
        (case read_exact SYS_RECORD_LEN len read_cb of
           None \<Rightarrow> Some (0, c)
         | Some record \<Rightarrow>
             do { x \<leftarrow> sys_record_unpack record;
                  Some (0, case x of None \<Rightarrow> c | Some stored \<Rightarrow> c\<lparr>system_cfg := stored\<rparr>) })
      else if name = ''sta'' then
        (case read_exact STA_RECORD_LEN len read_cb of
           None \<Rightarrow> Some (0, c)
         | Some record \<Rightarrow>
             do { x \<leftarrow> sta_record_unpack record;
                  Some (0, case x of None \<Rightarrow> c | Some stored \<Rightarrow> c\<lparr>sta := stored\<rparr>) })
      else Some (- ENOENT, c))"

text \<open>The calls of the handler; the settings core ignores what it returns.\<close>

fun run_handler ::
  "(settings_name \<times> nat \<times> settings_read_cb) list \<Rightarrow> 's config \<Rightarrow> 's config option"
where
  "run_handler [] c = Some c"
| "run_handler ((name, len, read_cb) # cbs) c =
     do { (r, c') \<leftarrow> bridge_config_settings_set name len read_cb c; run_handler cbs c' }"

definition bridge_config_init :: "'s settings_ops \<Rightarrow> 's config \<Rightarrow> (rc \<times> 's config) option" where
  "bridge_config_init ops c =
     (case cfg_settings_subsys_init ops (store c) of (r, s) \<Rightarrow>
        if r \<noteq> 0 then Some (r, c\<lparr>store := s\<rparr>)
        else case cfg_settings_load_subtree ops s of (r, cbs) \<Rightarrow>
          do { c' \<leftarrow> run_handler cbs (c\<lparr>store := s\<rparr>); Some (r, c') })"

definition bridge_config_get_ais :: "'s config \<Rightarrow> bridge_config_ais" where
  "bridge_config_get_ais c = ais c"

definition bridge_config_get_tcp_client :: "'s config \<Rightarrow> bridge_config_tcp_client" where
  "bridge_config_get_tcp_client c = tcp_client c"

definition bridge_config_get_sta :: "'s config \<Rightarrow> bridge_config_sta" where
  "bridge_config_get_sta c = sta c"

definition bridge_config_get_ap :: "'s config \<Rightarrow> bridge_config_ap" where
  "bridge_config_get_ap c = ap c"

definition bridge_config_get_system :: "'s config \<Rightarrow> bridge_config_system" where
  "bridge_config_get_system c = system_cfg c"

definition bridge_config_set_tcp_client ::
  "'s settings_ops \<Rightarrow> bridge_config_tcp_client option \<Rightarrow> 's config \<Rightarrow> (rc \<times> 's config) option"
where
  "bridge_config_set_tcp_client ops next c =
     (case next of
        None \<Rightarrow> Some (- EINVAL, c)
      | Some n \<Rightarrow>
          do {
            valid \<leftarrow> (if \<not> terminated (tcp_host n) then Some False
                      else do { v \<leftarrow> bridge_config_tcp_client_host_valid (Some (tcp_host n));
                                Some (v \<and> tcp_port n \<noteq> 0) });
            if \<not> valid then Some (- EINVAL, c)
            else do {
              value_changed \<leftarrow>
                (if tcp_enabled (tcp_client c) \<noteq> tcp_enabled n \<or> tcp_port (tcp_client c) \<noteq> tcp_port n
                 then Some True
                 else do { same \<leftarrow> strcmp_eq (tcp_host (tcp_client c)) (tcp_host n); Some (\<not> same) });
              if \<not> (factory_reset_pending c \<or> value_changed) then Some (0, c)
              else do {
                record \<leftarrow> tcp_record_pack n;
                (case cfg_settings_save_one ops ''bridge/tcp'' record (store c) of (r, s) \<Rightarrow>
                   if r \<noteq> 0 then Some (r, c\<lparr>store := s\<rparr>)
                   else Some (0, c\<lparr>store := s, tcp_client := n,
                     notifications := notifications c + (if value_changed \<and> listener c then 1 else 0)\<rparr>))
              }
            }
          })"

text \<open>The check of the password length that STA and AP share.\<close>

definition psk_len_bad :: "nat \<Rightarrow> bool" where
  "psk_len_bad n \<longleftrightarrow> n \<noteq> 0 \<and> (n < BRIDGE_CONFIG_WIFI_PSK_MIN \<or> n > BRIDGE_CONFIG_WIFI_PSK_MAX)"

definition bridge_config_set_sta ::
  "'s settings_ops \<Rightarrow> bridge_config_sta option \<Rightarrow> 's config \<Rightarrow> (rc \<times> 's config) option"
where
  "bridge_config_set_sta ops next c =
     (case next of
        None \<Rightarrow> Some (- EINVAL, c)
      | Some n \<Rightarrow>
          do {
            valid \<leftarrow> (if \<not> terminated (sta_ssid n) \<or> \<not> terminated (sta_psk n) then Some False
                      else bridge_config_text_valid (sta_ssid n));
            if \<not> valid then Some (- EINVAL, c)
            else do {
              psk_len \<leftarrow> strlen (sta_psk n);
              if psk_len_bad psk_len then Some (- EINVAL, c)
              else do {
                changed \<leftarrow>
                  (if factory_reset_pending c \<or> sta_enabled (sta c) \<noteq> sta_enabled n \<or>
                      rotate_mac (sta c) \<noteq> rotate_mac n then Some True
                   else do { ssid_same \<leftarrow> strcmp_eq (sta_ssid (sta c)) (sta_ssid n);
                             if \<not> ssid_same then Some True
                             else do { psk_same \<leftarrow> strcmp_eq (sta_psk (sta c)) (sta_psk n); Some (\<not> psk_same) } });
                if \<not> changed then Some (0, c)
                else do {
                  record \<leftarrow> sta_record_pack n;
                  (case cfg_settings_save_one ops ''bridge/sta'' record (store c) of (r, s) \<Rightarrow>
                     if r \<noteq> 0 then Some (r, c\<lparr>store := s\<rparr>)
                     else Some (0, c\<lparr>store := s, sta := n, reboot_required := True\<rparr>))
                }
              }
            }
          })"

definition bridge_config_set_ap ::
  "'s settings_ops \<Rightarrow> bridge_config_ap option \<Rightarrow> 's config \<Rightarrow> (rc \<times> 's config) option"
where
  "bridge_config_set_ap ops next c =
     (case next of
        None \<Rightarrow> Some (- EINVAL, c)
      | Some n \<Rightarrow>
          do {
            valid \<leftarrow> (if \<not> terminated (ap_ssid n) \<or> \<not> terminated (ap_psk n) then Some False
                      else bridge_config_text_valid (ap_ssid n));
            if \<not> valid then Some (- EINVAL, c)
            else do {
              ssid_len \<leftarrow> strlen (ap_ssid n);
              psk_len \<leftarrow> strlen (ap_psk n);
              if ssid_len = 0 \<or> psk_len_bad psk_len then Some (- EINVAL, c)
              else do {
                changed \<leftarrow>
                  (if factory_reset_pending c then Some True
                   else do { ssid_same \<leftarrow> strcmp_eq (ap_ssid (ap c)) (ap_ssid n);
                             if \<not> ssid_same then Some True
                             else do { psk_same \<leftarrow> strcmp_eq (ap_psk (ap c)) (ap_psk n); Some (\<not> psk_same) } });
                if \<not> changed then Some (0, c)
                else do {
                  record \<leftarrow> ap_record_pack n;
                  (case cfg_settings_save_one ops ''bridge/ap'' record (store c) of (r, s) \<Rightarrow>
                     if r \<noteq> 0 then Some (r, c\<lparr>store := s\<rparr>)
                     else Some (0, c\<lparr>store := s, ap := n, reboot_required := True\<rparr>))
                }
              }
            }
          })"

definition bridge_config_set_system ::
  "'s settings_ops \<Rightarrow> bridge_config_system option \<Rightarrow> 's config \<Rightarrow> (rc \<times> 's config) option"
where
  "bridge_config_set_system ops next c =
     (case next of
        None \<Rightarrow> Some (- EINVAL, c)
      | Some n \<Rightarrow>
          do {
            valid \<leftarrow> (if \<not> terminated (hostname n) then Some False
                      else bridge_config_hostname_valid (Some (hostname n)));
            if \<not> valid then Some (- EINVAL, c)
            else do {
              changed \<leftarrow> (if factory_reset_pending c then Some True
                          else do { same \<leftarrow> strcmp_eq (hostname (system_cfg c)) (hostname n); Some (\<not> same) });
              if \<not> changed then Some (0, c)
              else do {
                record \<leftarrow> sys_record_pack n;
                (case cfg_settings_save_one ops ''bridge/sys'' record (store c) of (r, s) \<Rightarrow>
                   if r \<noteq> 0 then Some (r, c\<lparr>store := s\<rparr>)
                   else Some (0, c\<lparr>store := s, system_cfg := n, reboot_required := True\<rparr>))
              }
            }
          })"

definition bridge_config_set_ais ::
  "'s settings_ops \<Rightarrow> bridge_config_ais option \<Rightarrow> 's config \<Rightarrow> (rc \<times> 's config) option"
where
  "bridge_config_set_ais ops next c =
     (case next of
        None \<Rightarrow> Some (- EINVAL, c)
      | Some n \<Rightarrow>
          if cfg_own_mmsi n > BRIDGE_CONFIG_AIS_MMSI_MAX then Some (- EINVAL, c)
          else
            (let value_changed = (filter_enabled (ais c) \<noteq> filter_enabled n \<or> cfg_own_mmsi (ais c) \<noteq> cfg_own_mmsi n)
             in if \<not> (factory_reset_pending c \<or> value_changed) then Some (0, c)
                else do {
                  record \<leftarrow> ais_record_pack n;
                  (case cfg_settings_save_one ops ''bridge/ais'' record (store c) of (r, s) \<Rightarrow>
                     if r \<noteq> 0 then Some (r, c\<lparr>store := s\<rparr>)
                     else Some (0, c\<lparr>store := s, ais := n,
                       notifications := notifications c + (if value_changed \<and> listener c then 1 else 0)\<rparr>))
                }))"

definition RESET_KEYS_PER_PASS :: nat where "RESET_KEYS_PER_PASS = 8"

text \<open>The collected names, whether keys are left, and the error.\<close>

record reset_key_batch =
  batch_names :: "settings_name list"
  batch_more :: bool
  batch_err :: rc

text \<open>The callback: the batch and its return value; \<open>name_max\<close> is \<open>SETTINGS_MAX_NAME_LEN\<close>. \<open>snprintk\<close> cuts the
  name at the size of the slot.\<close>

definition reset_collect_cb ::
  "nat \<Rightarrow> settings_name option \<Rightarrow> reset_key_batch \<Rightarrow> rc \<times> reset_key_batch"
where
  "reset_collect_cb name_max key batch =
     (if (case key of Some k \<Rightarrow> length k > name_max | None \<Rightarrow> False) then
        (- ENAMETOOLONG, batch\<lparr>batch_err := - ENAMETOOLONG\<rparr>)
      else if length (batch_names batch) = RESET_KEYS_PER_PASS then (1, batch\<lparr>batch_more := True\<rparr>)
      else
        (let full_name_len = Suc (length ''bridge'') + name_max + 1;
             name = (case key of None \<Rightarrow> ''bridge'' | Some k \<Rightarrow> take (full_name_len - 1) (''bridge/'' @ k))
         in (0, batch\<lparr>batch_names := batch_names batch @ [name]\<rparr>)))"

fun reset_collect ::
  "nat \<Rightarrow> settings_name option list \<Rightarrow> reset_key_batch \<Rightarrow> reset_key_batch"
where
  "reset_collect name_max [] batch = batch"
| "reset_collect name_max (key # ks) batch =
     (case reset_collect_cb name_max key batch of (r, batch') \<Rightarrow>
        if r \<noteq> 0 then batch' else reset_collect name_max ks batch')"

text \<open>The loop over the batch: the last return value, \<open>any_deleted\<close> and the store.\<close>

fun delete_batch ::
  "'s settings_ops \<Rightarrow> settings_name list \<Rightarrow> rc \<Rightarrow> bool \<Rightarrow> 's \<Rightarrow> rc \<times> bool \<times> 's"
where
  "delete_batch ops [] ret any_deleted s = (ret, any_deleted, s)"
| "delete_batch ops (name # names) ret any_deleted s =
     (case cfg_settings_delete ops name s of (r, s') \<Rightarrow>
        if r \<noteq> 0 then (r, any_deleted, s') else delete_batch ops names r True s')"

text \<open>The do-while loop; \<open>None\<close> when it never ends.\<close>

partial_function (option) reset_loop ::
  "'s settings_ops \<Rightarrow> nat \<Rightarrow> bool \<Rightarrow> 's \<Rightarrow> (rc \<times> bool \<times> 's) option"
where
  "reset_loop ops name_max any_deleted s =
     (let batch = reset_collect name_max (cfg_settings_load_subtree_direct ops s)
                    \<lparr>batch_names = [], batch_more = False, batch_err = 0\<rparr>
      in case delete_batch ops (batch_names batch) 0 any_deleted s of (ret, any_deleted, s) \<Rightarrow>
           let ret = (if ret = 0 \<and> batch_err batch \<noteq> 0 then batch_err batch else ret)
           in if ret = 0 \<and> batch_more batch then reset_loop ops name_max any_deleted s
              else Some (ret, any_deleted, s))"

definition bridge_config_factory_reset ::
  "'s settings_ops \<Rightarrow> nat \<Rightarrow> 's config \<Rightarrow> (rc \<times> 's config) option"
where
  "bridge_config_factory_reset ops name_max c =
     do {
       (ret, any_deleted, s) \<leftarrow> reset_loop ops name_max False (store c);
       let c = c\<lparr>store := s\<rparr>;
       Some (ret, if ret = 0 \<or> any_deleted
                  then c\<lparr>reboot_required := True, factory_reset_pending := True\<rparr> else c)
     }"

definition bridge_config_reboot_required :: "'s config \<Rightarrow> bool" where
  "bridge_config_reboot_required c = reboot_required c"

definition bridge_config_set_listener :: "bool \<Rightarrow> 's config \<Rightarrow> 's config" where
  "bridge_config_set_listener l c = c\<lparr>listener := l\<rparr>"

text \<open>The statics at boot, over the Kconfig defaults.\<close>

record config_defaults =
  d_ais :: bridge_config_ais
  d_sta :: bridge_config_sta
  d_ap :: bridge_config_ap
  d_system :: bridge_config_system
  d_tcp_client :: bridge_config_tcp_client

definition config_boot :: "config_defaults \<Rightarrow> 's \<Rightarrow> 's config" where
  "config_boot d s =
     \<lparr>ais = d_ais d, sta = d_sta d, ap = d_ap d, system_cfg = d_system d, tcp_client = d_tcp_client d,
      reboot_required = False, factory_reset_pending = False, listener = False, notifications = 0, store = s\<rparr>"

end
