(* ===== verification/Bridge_Config_Properties.thy ===== *)
theory Bridge_Config_Properties
  imports Bridge_Config
begin

text \<open>
  Correctness of the configuration over every settings store that keeps the contract: loading
  at boot, the setters, and the factory reset. The central notion is \<open>boot_eff\<close>, the
  settings the next boot will run with, as a function of the stored values; \<open>eff\<close> are those
  the current boot runs with.
\<close>

section \<open>Loading\<close>

lemma strcmp_eq_cstr: "terminated a \<Longrightarrow> terminated b \<Longrightarrow> strcmp_eq a b = Some (cstr a = cstr b)"
proof (induction a b rule: strcmp_eq.induct)
  case (1 x xs y ys)
  show ?case
  proof (cases "x = y \<and> x \<noteq> 0")
    case True
    then have "terminated xs" "terminated ys" using "1.prems" by (auto simp: terminated_def)
    then show ?thesis using "1.IH" True by (simp add: cstr_Cons)
  qed (auto simp: cstr_Cons)
qed (auto simp: terminated_def)

lemma read_exact_value: "read_exact n (length v) (value_reader v) = (if length v = n then Some v else None)"
  by (auto simp: read_exact_def value_reader_def)

text \<open>The value a stored record gives, or the default.\<close>

definition stored :: "nat \<Rightarrow> (byte list \<Rightarrow> 'a option option) \<Rightarrow> 'a \<Rightarrow> byte list option \<Rightarrow> 'a" where
  "stored n unpack d v =
     (case v of
        None \<Rightarrow> d
      | Some r \<Rightarrow> if length r = n then (case unpack r of Some (Some x) \<Rightarrow> x | _ \<Rightarrow> d) else d)"

lemma stored_None [simp]: "stored n unpack d None = d"
  by (simp add: stored_def)

definition ais_checked_unpack :: "byte list \<Rightarrow> bridge_config_ais option option" where
  "ais_checked_unpack r =
     do { a \<leftarrow> ais_record_unpack r;
          Some (if cfg_own_mmsi a > BRIDGE_CONFIG_AIS_MMSI_MAX then None else Some a) }"

definition load_entry :: "settings_name \<Rightarrow> byte list \<Rightarrow> 's config \<Rightarrow> 's config" where
  "load_entry k v c = c
     \<lparr>ais := (if k = ''ais'' then stored AIS_RECORD_LEN ais_checked_unpack (ais c) (Some v) else ais c),
      sta := (if k = ''sta'' then stored STA_RECORD_LEN sta_record_unpack (sta c) (Some v) else sta c),
      ap := (if k = ''ap'' then stored AP_RECORD_LEN ap_record_unpack (ap c) (Some v) else ap c),
      system_cfg := (if k = ''sys'' then stored SYS_RECORD_LEN sys_record_unpack (system_cfg c) (Some v) else system_cfg c),
      tcp_client := (if k = ''tcp'' then stored TCP_RECORD_LEN tcp_record_unpack (tcp_client c) (Some v) else tcp_client c)\<rparr>"

lemma ais_unpack_total: "length r = AIS_RECORD_LEN \<Longrightarrow> \<exists>a. ais_record_unpack r = Some a"
  by (simp add: ais_record_unpack_def memcpy_def)

lemma config_update_id [simp]:
  "c\<lparr>ais := ais c\<rparr> = c" "c\<lparr>sta := sta c\<rparr> = c" "c\<lparr>ap := ap c\<rparr> = c" "c\<lparr>system_cfg := system_cfg c\<rparr> = c"
  "c\<lparr>tcp_client := tcp_client c\<rparr> = c"
  by simp_all

lemma settings_set_entry:
  "\<exists>r. bridge_config_settings_set k (length v) (value_reader v) c = Some (r, load_entry k v c)"
proof -
  consider "k = ''ais''" | "k = ''tcp''" | "k = ''ap''" | "k = ''sys''" | "k = ''sta''"
    | "k \<notin> {''ais'', ''tcp'', ''ap'', ''sys'', ''sta''}" by blast
  then show ?thesis
  proof cases
    case 1
    then show ?thesis
      using ais_unpack_total[of v]
      by (auto simp: bridge_config_settings_set_def read_exact_value load_entry_def stored_def ais_checked_unpack_def)
  next
    case 2
    then show ?thesis
      using tcp_unpack_any[of v]
      by (auto simp: bridge_config_settings_set_def read_exact_value load_entry_def stored_def split: option.splits)
  next
    case 3
    then show ?thesis
      using ap_unpack_any[of v]
      by (auto simp: bridge_config_settings_set_def read_exact_value load_entry_def stored_def split: option.splits)
  next
    case 4
    then show ?thesis
      using sys_unpack_any[of v]
      by (auto simp: bridge_config_settings_set_def read_exact_value load_entry_def stored_def split: option.splits)
  next
    case 5
    then show ?thesis
      using sta_unpack_any[of v]
      by (auto simp: bridge_config_settings_set_def read_exact_value load_entry_def stored_def split: option.splits)
  next
    case 6
    then show ?thesis by (simp add: bridge_config_settings_set_def load_entry_def)
  qed
qed

text \<open>All entries: each group depends on its own key only.\<close>

lemma run_handler_entries:
  assumes "distinct (map fst kvs)"
  shows "run_handler (map (\<lambda>(k, v). (k, length v, value_reader v)) kvs) c = Some (c
     \<lparr>ais := stored AIS_RECORD_LEN ais_checked_unpack (ais c) (map_of kvs ''ais''),
      sta := stored STA_RECORD_LEN sta_record_unpack (sta c) (map_of kvs ''sta''),
      ap := stored AP_RECORD_LEN ap_record_unpack (ap c) (map_of kvs ''ap''),
      system_cfg := stored SYS_RECORD_LEN sys_record_unpack (system_cfg c) (map_of kvs ''sys''),
      tcp_client := stored TCP_RECORD_LEN tcp_record_unpack (tcp_client c) (map_of kvs ''tcp'')\<rparr>)"
  using assms
proof (induction kvs arbitrary: c)
  case (Cons kv kvs)
  obtain k v where kv: "kv = (k, v)" by (cases kv)
  obtain r where r: "bridge_config_settings_set k (length v) (value_reader v) c = Some (r, load_entry k v c)"
    using settings_set_entry by blast
  have "map_of kvs k = None" using Cons.prems kv by (simp add: map_of_eq_None_iff)
  then show ?case
    using Cons.IH[of "load_entry k v c"] Cons.prems r by (auto simp: kv load_entry_def)
qed simp

text \<open>The settings of the next boot, and those of the current one, arrays padded.\<close>

type_synonym settings =
  "bridge_config_ais \<times> bridge_config_sta \<times> bridge_config_ap \<times> bridge_config_system \<times> bridge_config_tcp_client"

definition eff :: "'s config \<Rightarrow> settings" where
  "eff c = (ais c, sta_norm (sta c), ap_norm (ap c), system_norm (system_cfg c), tcp_norm (tcp_client c))"

definition boot_eff :: "config_defaults \<Rightarrow> (settings_name \<Rightarrow> byte list option) \<Rightarrow> settings" where
  "boot_eff d w =
     (stored AIS_RECORD_LEN ais_checked_unpack (d_ais d) (w ''bridge/ais''),
      sta_norm (stored STA_RECORD_LEN sta_record_unpack (d_sta d) (w ''bridge/sta'')),
      ap_norm (stored AP_RECORD_LEN ap_record_unpack (d_ap d) (w ''bridge/ap'')),
      system_norm (stored SYS_RECORD_LEN sys_record_unpack (d_system d) (w ''bridge/sys'')),
      tcp_norm (stored TCP_RECORD_LEN tcp_record_unpack (d_tcp_client d) (w ''bridge/tcp'')))"

definition defaults_ok :: "config_defaults \<Rightarrow> bool" where
  "defaults_ok d \<longleftrightarrow> ais_ok (d_ais d) \<and> sta_ok (d_sta d) \<and> ap_ok (d_ap d) \<and> system_ok (d_system d) \<and>
     tcp_ok (d_tcp_client d)"

definition config_ok :: "'s config \<Rightarrow> bool" where
  "config_ok c \<longleftrightarrow> ais_ok (ais c) \<and> sta_ok (sta c) \<and> ap_ok (ap c) \<and> system_ok (system_cfg c) \<and>
     tcp_ok (tcp_client c)"

text \<open>Unless a factory reset is pending, the next boot runs with the current settings.\<close>

definition config_inv ::
  "config_defaults \<Rightarrow> ('s \<Rightarrow> settings_name \<Rightarrow> byte list option) \<Rightarrow> ('s \<Rightarrow> bool) \<Rightarrow> 's config \<Rightarrow> bool"
where
  "config_inv d view sok c \<longleftrightarrow> config_ok c \<and> sok (store c) \<and>
     (factory_reset_pending c \<or> eff c = boot_eff d (view (store c)))"

lemma stored_ok:
  assumes "P d" and "\<And>r. length r = n \<Longrightarrow> \<exists>x. unpack r = Some x \<and> (\<forall>c. x = Some c \<longrightarrow> P c)"
  shows "P (stored n unpack d v)"
  using assms by (force simp: stored_def split: option.splits)

lemma ais_checked_any:
  "length r = AIS_RECORD_LEN \<Longrightarrow> \<exists>x. ais_checked_unpack r = Some x \<and> (\<forall>c. x = Some c \<longrightarrow> ais_ok c)"
  using ais_unpack_total[of r] by (auto simp: ais_checked_unpack_def ais_ok_def)

context settings_store
begin

lemma init_config:
  assumes "sok s" and "defaults_ok d"
  shows "\<exists>c. bridge_config_init ops (config_boot d s) = Some (0, c) \<and> eff c = boot_eff d (view s) \<and>
    config_inv d view sok c \<and> \<not> reboot_required c \<and> \<not> factory_reset_pending c \<and> view (store c) = view s"
proof -
  obtain s' where s': "cfg_settings_subsys_init ops s = (0, s')" "sok s'" "view s' = view s"
    using init[OF assms(1)] by blast
  obtain kvs where kvs: "cfg_settings_load_subtree ops s' = (0, map (\<lambda>(k, v). (k, length v, value_reader v)) kvs)"
      "distinct (map fst kvs)" "\<forall>k. k \<noteq> [] \<longrightarrow> map_of kvs k = view s' (subtree_key (Some k))"
    using load[OF s'(2)] by blast
  let ?c = "(config_boot d s)\<lparr>store := s'\<rparr>"
  obtain c where c: "run_handler (map (\<lambda>(k, v). (k, length v, value_reader v)) kvs) ?c = Some c"
      "ais c = stored AIS_RECORD_LEN ais_checked_unpack (d_ais d) (view s ''bridge/ais'')"
      "sta c = stored STA_RECORD_LEN sta_record_unpack (d_sta d) (view s ''bridge/sta'')"
      "ap c = stored AP_RECORD_LEN ap_record_unpack (d_ap d) (view s ''bridge/ap'')"
      "system_cfg c = stored SYS_RECORD_LEN sys_record_unpack (d_system d) (view s ''bridge/sys'')"
      "tcp_client c = stored TCP_RECORD_LEN tcp_record_unpack (d_tcp_client d) (view s ''bridge/tcp'')"
      "store c = s'" "\<not> reboot_required c" "\<not> factory_reset_pending c"
    using run_handler_entries[OF kvs(2), of ?c] kvs(3) s'(3)
    by (simp add: config_boot_def subtree_key_def)
  have "config_ok c"
    unfolding config_ok_def c(2-6)
    using assms(2) stored_ok[where P = ais_ok, OF _ ais_checked_any] stored_ok[where P = sta_ok, OF _ sta_unpack_any]
      stored_ok[where P = ap_ok, OF _ ap_unpack_any] stored_ok[where P = system_ok, OF _ sys_unpack_any]
      stored_ok[where P = tcp_ok, OF _ tcp_unpack_any]
    by (simp add: defaults_ok_def)
  moreover have "eff c = boot_eff d (view s)" by (simp add: eff_def boot_eff_def c(2-6))
  ultimately show ?thesis
    using c s' kvs(1) by (simp add: bridge_config_init_def config_boot_def config_inv_def)
qed

end

section \<open>The setters\<close>

text \<open>The arrays of an argument have the sizes of the C struct.\<close>

definition sta_sized :: "bridge_config_sta \<Rightarrow> bool" where
  "sta_sized n \<longleftrightarrow> length (sta_ssid n) = 33 \<and> length (sta_psk n) = 64"

definition ap_sized :: "bridge_config_ap \<Rightarrow> bool" where
  "ap_sized n \<longleftrightarrow> length (ap_ssid n) = 33 \<and> length (ap_psk n) = 64"

definition system_sized :: "bridge_config_system \<Rightarrow> bool" where
  "system_sized n \<longleftrightarrow> length (hostname n) = 33"

definition tcp_sized :: "bridge_config_tcp_client \<Rightarrow> bool" where
  "tcp_sized n \<longleftrightarrow> length (tcp_host n) = 16"

lemma zpad_eq_iff: "zpad n a = zpad n b \<longleftrightarrow> cstr a = cstr b"
  by (metis cstr_zpad zpad_def)

lemma sta_norm_eq_iff:
  "sta_norm a = sta_norm b \<longleftrightarrow> sta_enabled a = sta_enabled b \<and> rotate_mac a = rotate_mac b \<and>
     cstr (sta_ssid a) = cstr (sta_ssid b) \<and> cstr (sta_psk a) = cstr (sta_psk b)"
  by (cases a; cases b) (auto simp: sta_norm_def zpad_eq_iff)

lemma ap_norm_eq_iff:
  "ap_norm a = ap_norm b \<longleftrightarrow> cstr (ap_ssid a) = cstr (ap_ssid b) \<and> cstr (ap_psk a) = cstr (ap_psk b)"
  by (cases a; cases b) (auto simp: ap_norm_def zpad_eq_iff)

lemma system_norm_eq_iff: "system_norm a = system_norm b \<longleftrightarrow> cstr (hostname a) = cstr (hostname b)"
  by (cases a; cases b) (auto simp: system_norm_def zpad_eq_iff)

lemma tcp_norm_eq_iff:
  "tcp_norm a = tcp_norm b \<longleftrightarrow> tcp_enabled a = tcp_enabled b \<and> tcp_port a = tcp_port b \<and>
     cstr (tcp_host a) = cstr (tcp_host b)"
  by (cases a; cases b) (auto simp: tcp_norm_def zpad_eq_iff)

lemmas norm_eq_iffs = sta_norm_eq_iff ap_norm_eq_iff system_norm_eq_iff tcp_norm_eq_iff

lemma zpad_zpad [simp]: "zpad n (zpad m a) = zpad n a"
  by (simp add: zpad_def cstr_no_nul)

lemma norm_idem [simp]: "sta_norm (sta_norm a) = sta_norm a" "ap_norm (ap_norm p) = ap_norm p"
  "system_norm (system_norm x) = system_norm x" "tcp_norm (tcp_norm t) = tcp_norm t"
  by (simp_all add: sta_norm_def ap_norm_def system_norm_def tcp_norm_def)

text \<open>The common shape of a setter: reject, skip, or save and then take over. \<open>upd\<close> is what a
  successful save does to the configuration in RAM.\<close>

definition setter_result ::
  "'s settings_ops \<Rightarrow> settings_name \<Rightarrow> byte list \<Rightarrow> bool \<Rightarrow> bool \<Rightarrow> ('s config \<Rightarrow> 's config) \<Rightarrow> 's config
    \<Rightarrow> (rc \<times> 's config) option"
where
  "setter_result ops key record valid same upd c =
     (if \<not> valid then Some (- EINVAL, c)
      else if \<not> factory_reset_pending c \<and> same then Some (0, c)
      else case cfg_settings_save_one ops key record (store c) of (r, s) \<Rightarrow>
        if r \<noteq> 0 then Some (r, c\<lparr>store := s\<rparr>) else Some (0, upd (c\<lparr>store := s\<rparr>)))"

lemma set_ais_eq:
  "bridge_config_set_ais ops (Some n) c = setter_result ops ''bridge/ais''
     ((if filter_enabled n then 1 else 0) # le_bytes 4 (unat (cfg_own_mmsi n))) (ais_ok n) (ais c = n)
     (\<lambda>c'. c'\<lparr>ais := n, notifications := notifications c + (if ais c \<noteq> n \<and> listener c then 1 else 0)\<rparr>) c"
proof -
  have "ais_record_pack n = Some ((if filter_enabled n then 1 else 0) # le_bytes 4 (unat (cfg_own_mmsi n)))"
    by (simp add: ais_record_pack_def replicate_unfold memcpy_def)
  moreover have "ais c = n \<longleftrightarrow> filter_enabled (ais c) = filter_enabled n \<and> cfg_own_mmsi (ais c) = cfg_own_mmsi n"
    by (cases "ais c", cases n) simp
  ultimately show ?thesis
    by (auto simp: bridge_config_set_ais_def setter_result_def ais_ok_def Let_def split: prod.splits)
qed

lemma set_tcp_eq:
  assumes "tcp_ok (tcp_client c)" and "tcp_sized n"
  shows "bridge_config_set_tcp_client ops (Some n) c = setter_result ops ''bridge/tcp'' (tcp_record n) (tcp_ok n)
     (tcp_norm (tcp_client c) = tcp_norm n)
     (\<lambda>c'. c'\<lparr>tcp_client := n, notifications := notifications c +
        (if tcp_norm (tcp_client c) \<noteq> tcp_norm n \<and> listener c then 1 else 0)\<rparr>) c"
proof (cases "tcp_ok n")
  case False
  then show ?thesis
    using assms(2)
    by (auto simp: bridge_config_set_tcp_client_def setter_result_def host_valid_eq tcp_ok_def c_array_def tcp_sized_def)
next
  case True
  have t: "terminated (tcp_host n)" "terminated (tcp_host (tcp_client c))"
    using True assms(1) by (simp_all add: tcp_ok_def c_array_def)
  have v: "bridge_config_tcp_client_host_valid (Some (tcp_host n)) = Some True" "tcp_port n \<noteq> 0"
    using True host_valid_eq[OF t(1)] by (auto simp: tcp_ok_def)
  show ?thesis
    using t v True strcmp_eq_cstr[OF t(2,1)]
    by (auto simp: bridge_config_set_tcp_client_def setter_result_def tcp_pack_eq norm_eq_iffs split: prod.splits)
qed

lemma set_sta_eq:
  assumes "sta_ok (sta c)" and "sta_sized n"
  shows "bridge_config_set_sta ops (Some n) c = setter_result ops ''bridge/sta'' (sta_record n) (sta_ok n)
     (sta_norm (sta c) = sta_norm n) (\<lambda>c'. c'\<lparr>sta := n, reboot_required := True\<rparr>) c"
proof (cases "terminated (sta_ssid n) \<and> terminated (sta_psk n)")
  case False
  then show ?thesis
    by (auto simp: bridge_config_set_sta_def setter_result_def sta_ok_def c_array_def)
next
  case True
  have t: "terminated (sta_ssid (sta c))" "terminated (sta_psk (sta c))"
    using assms(1) by (simp_all add: sta_ok_def c_array_def)
  have "length (cstr (sta_psk n)) < 64"
    using length_cstr_less[of "sta_psk n"] True assms(2) by (simp add: sta_sized_def)
  then have ok: "sta_ok n \<longleftrightarrow> text_ok (map unat (cstr (sta_ssid n))) \<and> \<not> psk_len_bad (length (cstr (sta_psk n)))"
    using True assms(2) by (auto simp: sta_ok_def c_array_def sta_sized_def psk_ok_def psk_len_bad_def)
  show ?thesis
    using True t ok strcmp_eq_cstr[of "sta_ssid (sta c)" "sta_ssid n"] strcmp_eq_cstr[of "sta_psk (sta c)" "sta_psk n"]
    by (auto simp: bridge_config_set_sta_def setter_result_def text_valid_eq strlen_eq sta_pack_eq norm_eq_iffs
        split: prod.splits)
qed

lemma set_ap_eq:
  assumes "ap_ok (ap c)" and "ap_sized n"
  shows "bridge_config_set_ap ops (Some n) c = setter_result ops ''bridge/ap'' (ap_record n) (ap_ok n)
     (ap_norm (ap c) = ap_norm n) (\<lambda>c'. c'\<lparr>ap := n, reboot_required := True\<rparr>) c"
proof (cases "terminated (ap_ssid n) \<and> terminated (ap_psk n)")
  case False
  then show ?thesis
    by (auto simp: bridge_config_set_ap_def setter_result_def ap_ok_def c_array_def)
next
  case True
  have t: "terminated (ap_ssid (ap c))" "terminated (ap_psk (ap c))"
    using assms(1) by (simp_all add: ap_ok_def c_array_def)
  have "length (cstr (ap_psk n)) < 64"
    using length_cstr_less[of "ap_psk n"] True assms(2) by (simp add: ap_sized_def)
  then have ok: "ap_ok n \<longleftrightarrow> text_ok (map unat (cstr (ap_ssid n))) \<and> cstr (ap_ssid n) \<noteq> [] \<and>
      \<not> psk_len_bad (length (cstr (ap_psk n)))"
    using True assms(2) by (auto simp: ap_ok_def c_array_def ap_sized_def psk_ok_def psk_len_bad_def)
  show ?thesis
    using True t ok strcmp_eq_cstr[of "ap_ssid (ap c)" "ap_ssid n"] strcmp_eq_cstr[of "ap_psk (ap c)" "ap_psk n"]
    by (auto simp: bridge_config_set_ap_def setter_result_def text_valid_eq strlen_eq ap_pack_eq norm_eq_iffs
        split: prod.splits)
qed

lemma set_system_eq:
  assumes "system_ok (system_cfg c)" and "system_sized n"
  shows "bridge_config_set_system ops (Some n) c = setter_result ops ''bridge/sys'' (sys_record n) (system_ok n)
     (system_norm (system_cfg c) = system_norm n) (\<lambda>c'. c'\<lparr>system_cfg := n, reboot_required := True\<rparr>) c"
proof (cases "terminated (hostname n)")
  case False
  then show ?thesis
    by (auto simp: bridge_config_set_system_def setter_result_def system_ok_def c_array_def)
next
  case True
  have t: "terminated (hostname (system_cfg c))" using assms(1) by (simp add: system_ok_def c_array_def)
  have ok: "system_ok n \<longleftrightarrow> dns_label (cstr (hostname n))"
    using True assms(2) by (simp add: system_ok_def c_array_def system_sized_def)
  show ?thesis
    using True t ok strcmp_eq_cstr[OF t True]
    by (auto simp: bridge_config_set_system_def setter_result_def hostname_valid_eq sys_pack_eq norm_eq_iffs
        split: prod.splits)
qed

section \<open>What the setters keep\<close>

lemma boot_eff_stored:
  "ais_ok a \<Longrightarrow> stored AIS_RECORD_LEN ais_checked_unpack x
     (Some ((if filter_enabled a then 1 else 0) # le_bytes 4 (unat (cfg_own_mmsi a)))) = a"
  "sta_ok s \<Longrightarrow> sta_norm (stored STA_RECORD_LEN sta_record_unpack ds (Some (sta_record s))) = sta_norm s"
  "ap_ok p \<Longrightarrow> ap_norm (stored AP_RECORD_LEN ap_record_unpack dp (Some (ap_record p))) = ap_norm p"
  "system_ok y \<Longrightarrow> system_norm (stored SYS_RECORD_LEN sys_record_unpack dy (Some (sys_record y))) = system_norm y"
  "tcp_ok t \<Longrightarrow> tcp_norm (stored TCP_RECORD_LEN tcp_record_unpack dt (Some (tcp_record t))) = tcp_norm t"
proof -
  show "stored AIS_RECORD_LEN ais_checked_unpack x
     (Some ((if filter_enabled a then 1 else 0) # le_bytes 4 (unat (cfg_own_mmsi a)))) = a" if "ais_ok a"
    using that by (simp add: stored_def ais_checked_unpack_def ais_record_unpack_def memcpy_def rd_def le_word ais_ok_def)
  show "sta_norm (stored STA_RECORD_LEN sta_record_unpack ds (Some (sta_record s))) = sta_norm s" if "sta_ok s"
    using that sta_unpack_eq[OF that]
    by (simp add: stored_def) (simp add: sta_record_def length_zpad c_array_len sta_ok_def)
  show "ap_norm (stored AP_RECORD_LEN ap_record_unpack dp (Some (ap_record p))) = ap_norm p" if "ap_ok p"
    using that ap_unpack_eq[OF that]
    by (simp add: stored_def) (simp add: ap_record_def length_zpad c_array_len ap_ok_def)
  show "system_norm (stored SYS_RECORD_LEN sys_record_unpack dy (Some (sys_record y))) = system_norm y" if "system_ok y"
    using that sys_unpack_eq[OF that]
    by (simp add: stored_def) (simp add: sys_record_def length_zpad c_array_len system_ok_def BRIDGE_CONFIG_HOSTNAME_MAX_def)
  show "tcp_norm (stored TCP_RECORD_LEN tcp_record_unpack dt (Some (tcp_record t))) = tcp_norm t" if "tcp_ok t"
    using that tcp_unpack_eq[OF that]
    by (simp add: stored_def) (simp add: tcp_record_def length_zpad c_array_len tcp_ok_def)
qed

text \<open>An update of the configuration that keeps what a setter must keep.\<close>

definition upd_ok ::
  "config_defaults \<Rightarrow> settings_name \<Rightarrow> byte list \<Rightarrow> ('s config \<Rightarrow> 's config) \<Rightarrow> 's config \<Rightarrow> bool"
where
  "upd_ok d key record upd c \<longleftrightarrow>
     (\<forall>s. let c' = upd (c\<lparr>store := s\<rparr>) in config_ok c' \<and> store c' = s \<and>
        factory_reset_pending c' = factory_reset_pending c \<and>
        (\<forall>w. eff c = boot_eff d w \<longrightarrow> eff c' = boot_eff d (w(key \<mapsto> record))))"

context settings_store
begin

lemma setter_total: "\<exists>r c'. setter_result ops key record valid same upd c = Some (r, c')"
  by (auto simp: setter_result_def split: prod.splits)

lemma setter_cases:
  assumes "setter_result ops key record valid same upd c = Some (r, c')" and "sok (store c)"
  obtains (invalid) "\<not> valid" "r = - EINVAL" "c' = c"
  | (unchanged) "valid" "r = 0" "c' = c" "\<not> factory_reset_pending c" "same"
  | (failed) s where "valid" "r \<noteq> 0" "c' = c\<lparr>store := s\<rparr>" "sok s" "view s = view (store c)"
      "factory_reset_pending c \<or> \<not> same"
  | (saved) s where "valid" "r = 0" "c' = upd (c\<lparr>store := s\<rparr>)" "sok s" "view s = (view (store c))(key \<mapsto> record)"
      "factory_reset_pending c \<or> \<not> same"
proof (cases "valid \<and> (factory_reset_pending c \<or> \<not> same)")
  case True
  obtain r1 s where rs: "cfg_settings_save_one ops key record (store c) = (r1, s)" by fastforce
  have "sok s \<and> view s = (if r1 = 0 then (view (store c))(key \<mapsto> record) else view (store c))"
    using save[OF assms(2) rs] .
  then show ?thesis
    using assms(1) True rs failed[of s] saved[of s] by (auto simp: setter_result_def split: if_splits)
next
  case False
  then show ?thesis using assms(1) invalid unchanged by (cases valid) (auto simp: setter_result_def)
qed

lemma setter_inv:
  assumes "setter_result ops key record valid same upd c = Some (r, c')" and "config_inv d view sok c"
    and "valid \<Longrightarrow> upd_ok d key record upd c"
  shows "config_inv d view sok c'"
proof -
  have "sok (store c)" using assms(2) by (simp add: config_inv_def)
  from assms(1) this show ?thesis
  proof (cases rule: setter_cases)
    case (failed s)
    then show ?thesis using assms(2) by (auto simp: config_inv_def config_ok_def eff_def)
  next
    case (saved s)
    then have "upd_ok d key record upd c" using assms(3) by simp
    then have u: "config_ok c'" "store c' = s" "factory_reset_pending c' = factory_reset_pending c"
        "eff c = boot_eff d (view (store c)) \<Longrightarrow> eff c' = boot_eff d (view s)"
      using saved(3,5) unfolding upd_ok_def Let_def by metis+
    then show ?thesis using assms(2) saved(4) unfolding config_inv_def by metis
  qed (use assms(2) in auto)
qed

lemma setter_survives:
  assumes "setter_result ops key record valid same upd c = Some (0, c')" and "config_inv d view sok c"
    and "valid \<Longrightarrow> upd_ok d key record upd c"
    and "\<And>w. valid \<Longrightarrow> sel (boot_eff d (w(key \<mapsto> record))) = x"
    and "same \<Longrightarrow> sel (eff c) = x"
  shows "sel (boot_eff d (view (store c'))) = x"
proof -
  have "sok (store c)" using assms(2) by (simp add: config_inv_def)
  from assms(1) this show ?thesis
  proof (cases rule: setter_cases)
    case unchanged
    then show ?thesis using assms(2,5) by (auto simp: config_inv_def)
  next
    case (saved s)
    then have "store c' = s" using assms(3) unfolding upd_ok_def Let_def by metis
    then show ?thesis using assms(4) saved by simp
  qed (auto simp: errno_defs)
qed

lemma setter_rejects:
  assumes "setter_result ops key record valid same upd c = Some (r, c')" and "sok (store c)" and "r \<noteq> 0"
  shows "\<exists>s. c' = c\<lparr>store := s\<rparr> \<and> view s = view (store c)"
  using assms(1,2)
proof (cases rule: setter_cases)
  case invalid
  then show ?thesis by (intro exI[of _ "store c"]) simp
qed (use assms(3) in auto)

end

text \<open>The five updates are such updates.\<close>

lemma upd_oks:
  assumes "config_ok c"
  shows "ais_ok a \<Longrightarrow> upd_ok d ''bridge/ais'' ((if filter_enabled a then 1 else 0) # le_bytes 4 (unat (cfg_own_mmsi a)))
      (\<lambda>c'. c'\<lparr>ais := a, notifications := n\<rparr>) c"
    and "sta_ok s \<Longrightarrow> upd_ok d ''bridge/sta'' (sta_record s) (\<lambda>c'. c'\<lparr>sta := s, reboot_required := True\<rparr>) c"
    and "ap_ok p \<Longrightarrow> upd_ok d ''bridge/ap'' (ap_record p) (\<lambda>c'. c'\<lparr>ap := p, reboot_required := True\<rparr>) c"
    and "system_ok y \<Longrightarrow> upd_ok d ''bridge/sys'' (sys_record y) (\<lambda>c'. c'\<lparr>system_cfg := y, reboot_required := True\<rparr>) c"
    and "tcp_ok t \<Longrightarrow> upd_ok d ''bridge/tcp'' (tcp_record t) (\<lambda>c'. c'\<lparr>tcp_client := t, notifications := n\<rparr>) c"
  using assms boot_eff_stored
  by (simp_all add: upd_ok_def config_ok_def eff_def boot_eff_def del: AIS_RECORD_LEN_def STA_RECORD_LEN_def
      AP_RECORD_LEN_def SYS_RECORD_LEN_def TCP_RECORD_LEN_def)

section \<open>The factory reset\<close>

lemma subtree_key_inj: "inj subtree_key"
  by (auto simp: inj_def subtree_key_def split: option.splits)

text \<open>A batch collects a prefix of the offered keys, at most eight, without cutting a name.\<close>

lemma reset_collect_prefix:
  assumes "batch_names b = map subtree_key (take j ks0)" and "ks = drop j ks0" and "j \<le> length ks0"
    and "j \<le> 8" and "\<not> batch_more b" and "batch_err b = 0"
  shows "\<exists>j' \<le> length ks0. let b' = reset_collect name_max ks b in
    batch_names b' = map subtree_key (take j' ks0) \<and> j' \<le> 8 \<and>
    (if batch_more b' then j' = 8 \<and> batch_err b' = 0
     else batch_err b' = 0 \<and> j' = length ks0 \<or>
       batch_err b' = - ENAMETOOLONG \<and> (\<exists>k \<in> set ks0. case k of Some n \<Rightarrow> name_max < length n | None \<Rightarrow> False))"
  using assms
proof (induction ks arbitrary: b j)
  case Nil
  then show ?case by (intro exI[of _ j]) simp
next
  case (Cons k ks)
  have j: "j < length ks0" using Cons.prems(2) by (metis drop_all linorder_not_le list.distinct(1))
  have k: "k = ks0 ! j" "ks = drop (Suc j) ks0"
    using Cons.prems(2) j by (metis Cons_nth_drop_Suc list.inject)+
  let ?long = "case k of Some n \<Rightarrow> name_max < length n | None \<Rightarrow> False"
  show ?case
  proof (cases "?long \<or> j = 8")
    case True
    have "length (batch_names b) = j" using Cons.prems(1) j by simp
    then have "reset_collect name_max (k # ks) b =
        (if ?long then b\<lparr>batch_err := - ENAMETOOLONG\<rparr> else b\<lparr>batch_more := True\<rparr>)"
      using True by (auto simp: reset_collect_cb_def RESET_KEYS_PER_PASS_def errno_defs)
    moreover have "k \<in> set ks0" using k(1) j by simp
    ultimately show ?thesis
      using Cons.prems(1,4-6) True j by (intro exI[of _ j]) (auto simp: Let_def simp del: reset_collect.simps)
  next
    case False
    let ?b = "b\<lparr>batch_names := batch_names b @ [subtree_key k]\<rparr>"
    have step: "reset_collect_cb name_max k b = (0, ?b)"
      using False Cons.prems(1) j
      by (cases k) (auto simp: reset_collect_cb_def RESET_KEYS_PER_PASS_def Let_def subtree_key_def)
    have "batch_names ?b = map subtree_key (take (Suc j) ks0)"
      using Cons.prems(1) k(1) j by (simp add: take_Suc_conv_app_nth)
    from Cons.IH[OF this k(2)] j False Cons.prems(4-6)
    have "\<exists>j' \<le> length ks0. let b' = reset_collect name_max ks ?b in
      batch_names b' = map subtree_key (take j' ks0) \<and> j' \<le> 8 \<and>
      (if batch_more b' then j' = 8 \<and> batch_err b' = 0
       else batch_err b' = 0 \<and> j' = length ks0 \<or> batch_err b' = - ENAMETOOLONG \<and>
         (\<exists>k \<in> set ks0. case k of Some n \<Rightarrow> name_max < length n | None \<Rightarrow> False))" by simp
    moreover have "reset_collect name_max (k # ks) b = reset_collect name_max ks ?b" using step by simp
    ultimately show ?thesis by metis
  qed
qed

lemma collect_batch:
  obtains j where "j \<le> length ks" "j \<le> 8"
    "batch_names (reset_collect name_max ks \<lparr>batch_names = [], batch_more = False, batch_err = 0\<rparr>) = map subtree_key (take j ks)"
    "if batch_more (reset_collect name_max ks \<lparr>batch_names = [], batch_more = False, batch_err = 0\<rparr>)
     then j = 8 \<and> batch_err (reset_collect name_max ks \<lparr>batch_names = [], batch_more = False, batch_err = 0\<rparr>) = 0
     else batch_err (reset_collect name_max ks \<lparr>batch_names = [], batch_more = False, batch_err = 0\<rparr>) = 0 \<and> j = length ks \<or>
       batch_err (reset_collect name_max ks \<lparr>batch_names = [], batch_more = False, batch_err = 0\<rparr>) = - ENAMETOOLONG \<and>
       (\<exists>k \<in> set ks. case k of Some n \<Rightarrow> name_max < length n | None \<Rightarrow> False)"
  using reset_collect_prefix[of "\<lparr>batch_names = [], batch_more = False, batch_err = 0\<rparr>" 0 ks ks name_max]
  by (auto simp: Let_def)

text \<open>The names below the subtree that are still stored.\<close>

definition overrides :: "(settings_name \<Rightarrow> byte list option) \<Rightarrow> settings_name option set" where
  "overrides w = {k. w (subtree_key k) \<noteq> None}"

text \<open>The store with some names removed.\<close>

definition without :: "settings_name set \<Rightarrow> (settings_name \<Rightarrow> byte list option) \<Rightarrow> settings_name \<Rightarrow> byte list option" where
  "without ks w = (\<lambda>k. if k \<in> ks then None else w k)"

context settings_store
begin

lemma delete_batch_view:
  assumes "sok s" and "delete_batch ops names ret any s = (r, any', s')" and "ret = 0"
  shows "\<exists>i \<le> length names. sok s' \<and> view s' = without (set (take i names)) (view s) \<and>
    (r = 0 \<longleftrightarrow> i = length names) \<and> (any' \<longleftrightarrow> any \<or> 0 < i) \<and>
    (r \<noteq> 0 \<longrightarrow> (\<exists>k s. sok s \<and> fst (cfg_settings_delete ops k s) \<noteq> 0))"
  using assms
proof (induction names arbitrary: ret any s)
  case Nil
  then show ?case by (auto simp: without_def)
next
  case (Cons n ns)
  obtain r1 s1 where d: "cfg_settings_delete ops n s = (r1, s1)" by fastforce
  have s1: "sok s1" "view s1 = (if r1 = 0 then (view s)(n := None) else view s)" using delete[OF Cons.prems(1) d] by auto
  show ?case
  proof (cases "r1 = 0")
    case True
    obtain i where i: "i \<le> length ns" "sok s'" "view s' = without (set (take i ns)) (view s1)"
        "r = 0 \<longleftrightarrow> i = length ns" "any'"
        "r \<noteq> 0 \<longrightarrow> (\<exists>k s. sok s \<and> fst (cfg_settings_delete ops k s) \<noteq> 0)"
      using Cons.IH[OF s1(1), of r1 True] Cons.prems(2) True d by auto
    then show ?thesis
      using True s1(2) by (intro exI[of _ "Suc i"]) (auto simp: without_def)
  next
    case False
    have "\<exists>k s. sok s \<and> fst (cfg_settings_delete ops k s) \<noteq> 0"
      using Cons.prems(1) d False by (metis fst_conv)
    then show ?thesis
      using False s1 Cons.prems(2) d by (intro exI[of _ 0]) (auto simp: without_def)
  qed
qed

text \<open>One pass of the loop.\<close>

lemma reset_pass:
  assumes "sok s"
  shows "\<exists>ret any1 s1 gone more. reset_loop ops name_max any s =
      (if ret = 0 \<and> more then reset_loop ops name_max any1 s1 else Some (ret, any1, s1)) \<and> sok s1 \<and>
    view s1 = without gone (view s) \<and> gone \<subseteq> subtree_key ` overrides (view s) \<and>
    (any1 \<longleftrightarrow> any \<or> gone \<noteq> {}) \<and>
    (ret = 0 \<longrightarrow> (if more then card (overrides (view s1)) < card (overrides (view s)) else overrides (view s1) = {})) \<and>
    (ret \<noteq> 0 \<longrightarrow> (\<exists>k s. sok s \<and> fst (cfg_settings_delete ops k s) \<noteq> 0) \<or>
       (\<exists>k. Some k \<in> overrides (view s) \<and> name_max < length k))"
proof -
  let ?ks = "cfg_settings_load_subtree_direct ops s"
  define b where "b = reset_collect name_max ?ks \<lparr>batch_names = [], batch_more = False, batch_err = 0\<rparr>"
  have ks: "distinct ?ks" "set ?ks = overrides (view s)" using keys[OF assms] by (auto simp: overrides_def)
  obtain j where j: "j \<le> length ?ks" "batch_names b = map subtree_key (take j ?ks)"
      "if batch_more b then j = 8 \<and> batch_err b = 0
       else batch_err b = 0 \<and> j = length ?ks \<or> batch_err b = - ENAMETOOLONG \<and>
         (\<exists>k \<in> set ?ks. case k of Some n \<Rightarrow> name_max < length n | None \<Rightarrow> False)"
    unfolding b_def by (rule collect_batch[of ?ks name_max])
  obtain r any1 s1 where d: "delete_batch ops (batch_names b) 0 any s = (r, any1, s1)" by (metis prod_cases3)
  obtain i where i: "i \<le> j" "sok s1" "view s1 = without (set (take i (batch_names b))) (view s)"
      "r = 0 \<longleftrightarrow> i = j" "any1 \<longleftrightarrow> any \<or> 0 < i"
      "r \<noteq> 0 \<longrightarrow> (\<exists>k s. sok s \<and> fst (cfg_settings_delete ops k s) \<noteq> 0)"
    using delete_batch_view[OF assms d] j(1,2) by auto
  define gone ret where "gone = subtree_key ` set (take i ?ks)"
    and "ret = (if r = 0 \<and> batch_err b \<noteq> 0 then batch_err b else r)"
  have v1: "view s1 = without gone (view s)"
    using i(1,3) j(2) by (simp add: gone_def take_map min_absorb1)
  have "overrides (view s1) = overrides (view s) - set (take i ?ks)"
    unfolding v1 gone_def overrides_def without_def using subtree_key_inj by (auto simp: inj_image_mem_iff)
  then have left: "overrides (view s1) = set (drop i ?ks)"
    unfolding ks(2)[symmetric] by (metis Diff_cancel append_take_drop_id ks(1) set_append distinct_append
        Un_Diff Un_empty_left Diff_triv Int_commute)
  have "ret = 0 \<longrightarrow> (if batch_more b then card (overrides (view s1)) < card (overrides (view s))
      else overrides (view s1) = {})"
    using j(1,3) i(4) ks by (auto simp: ret_def left distinct_card errno_defs simp flip: ks(2) split: if_splits)
  moreover have "ret \<noteq> 0 \<longrightarrow> (\<exists>k s. sok s \<and> fst (cfg_settings_delete ops k s) \<noteq> 0) \<or>
      (\<exists>k. Some k \<in> overrides (view s) \<and> name_max < length k)"
    using i(6) j(3) ks(2) by (auto simp: ret_def split: if_splits option.splits)
  moreover have "any1 \<longleftrightarrow> any \<or> gone \<noteq> {}" using i(1,5) j(1) by (auto simp: gone_def)
  moreover have "gone \<subseteq> subtree_key ` overrides (view s)"
    unfolding gone_def ks(2)[symmetric] by (auto dest: in_set_takeD)
  moreover have "reset_loop ops name_max any s =
      (if ret = 0 \<and> batch_more b then reset_loop ops name_max any1 s1 else Some (ret, any1, s1))"
    by (subst reset_loop.simps) (simp add: d Let_def ret_def flip: b_def)
  ultimately show ?thesis using i(2) v1 by blast
qed

text \<open>The loop always ends. It removes overrides only; if it reports success none is left, and if
  it fails, a delete failed or a stored name is longer than the settings core allows.\<close>

lemma reset_loop_ends:
  assumes "sok s"
  shows "\<exists>ret any' s' gone. reset_loop ops name_max any s = Some (ret, any', s') \<and> sok s' \<and>
    view s' = without gone (view s) \<and> gone \<subseteq> subtree_key ` overrides (view s) \<and>
    (any' \<longleftrightarrow> any \<or> gone \<noteq> {}) \<and> (ret = 0 \<longrightarrow> overrides (view s') = {}) \<and>
    (ret \<noteq> 0 \<longrightarrow> (\<exists>k s. sok s \<and> fst (cfg_settings_delete ops k s) \<noteq> 0) \<or>
       (\<exists>k. Some k \<in> overrides (view s) \<and> name_max < length k))"
  using assms
proof (induction "card (overrides (view s))" arbitrary: s any rule: less_induct)
  case less
  obtain ret any1 s1 gone more where p: "reset_loop ops name_max any s =
        (if ret = 0 \<and> more then reset_loop ops name_max any1 s1 else Some (ret, any1, s1))"
      "sok s1" "view s1 = without gone (view s)" "gone \<subseteq> subtree_key ` overrides (view s)"
      "any1 \<longleftrightarrow> any \<or> gone \<noteq> {}"
      "ret = 0 \<longrightarrow> (if more then card (overrides (view s1)) < card (overrides (view s)) else overrides (view s1) = {})"
      "ret \<noteq> 0 \<longrightarrow> (\<exists>k s. sok s \<and> fst (cfg_settings_delete ops k s) \<noteq> 0) \<or>
       (\<exists>k. Some k \<in> overrides (view s) \<and> name_max < length k)"
    using reset_pass[OF less.prems, of name_max any] by blast
  show ?case
  proof (cases "ret = 0 \<and> more")
    case True
    then have "card (overrides (view s1)) < card (overrides (view s))" using p(6) by simp
    from less.hyps[OF this p(2), of any1] obtain ret2 any2 s2 gone2 where
      2: "reset_loop ops name_max any1 s1 = Some (ret2, any2, s2)" "sok s2" "view s2 = without gone2 (view s1)"
        "gone2 \<subseteq> subtree_key ` overrides (view s1)" "any2 \<longleftrightarrow> any1 \<or> gone2 \<noteq> {}"
        "ret2 = 0 \<longrightarrow> overrides (view s2) = {}"
        "ret2 \<noteq> 0 \<longrightarrow> (\<exists>k s. sok s \<and> fst (cfg_settings_delete ops k s) \<noteq> 0) \<or>
           (\<exists>k. Some k \<in> overrides (view s1) \<and> name_max < length k)"
      by blast
    have "view s2 = without (gone \<union> gone2) (view s)" by (auto simp: 2(3) p(3) without_def)
    moreover have o: "overrides (view s1) \<subseteq> overrides (view s)" by (auto simp: p(3) overrides_def without_def)
    moreover have "gone \<union> gone2 \<subseteq> subtree_key ` overrides (view s)" using p(4) 2(4) o by blast
    ultimately show ?thesis
      using 2 p(1,5) True by (intro exI[of _ ret2] exI[of _ any2] exI[of _ s2] exI[of _ "gone \<union> gone2"]) auto
  next
    case False
    then show ?thesis using p by (intro exI[of _ ret] exI[of _ any1] exI[of _ s1] exI[of _ gone]) auto
  qed
qed

end

section \<open>A store\<close>

text \<open>An association list as the store, like the fake store of the module's tests.\<close>

type_synonym alist_store = "(settings_name \<times> byte list) list"

definition subtree_name :: "settings_name \<Rightarrow> settings_name option option" where
  "subtree_name n =
     (if n = ''bridge'' then Some None
      else if take 7 n = ''bridge/'' then Some (Some (drop 7 n)) else None)"

fun alist_entries :: "alist_store \<Rightarrow> (settings_name \<times> byte list) list" where
  "alist_entries [] = []"
| "alist_entries ((n, v) # s) =
     (case subtree_name n of Some (Some k) \<Rightarrow> (k, v) # alist_entries s | _ \<Rightarrow> alist_entries s)"

fun alist_keys :: "alist_store \<Rightarrow> settings_name option list" where
  "alist_keys [] = []"
| "alist_keys ((n, v) # s) = (case subtree_name n of Some k \<Rightarrow> k # alist_keys s | None \<Rightarrow> alist_keys s)"

definition alist_remove :: "settings_name \<Rightarrow> alist_store \<Rightarrow> alist_store" where
  "alist_remove k s = filter (\<lambda>e. fst e \<noteq> k) s"

definition alist_ops :: "alist_store settings_ops" where
  "alist_ops = \<lparr>cfg_settings_subsys_init = (\<lambda>s. (0, s)),
     cfg_settings_load_subtree = (\<lambda>s. (0, map (\<lambda>(k, v). (k, length v, value_reader v)) (alist_entries s))),
     cfg_settings_save_one = (\<lambda>k v s. (0, (k, v) # alist_remove k s)),
     cfg_settings_load_subtree_direct = alist_keys,
     cfg_settings_delete = (\<lambda>k s. (0, alist_remove k s))\<rparr>"

definition alist_ok :: "alist_store \<Rightarrow> bool" where
  "alist_ok s \<longleftrightarrow> distinct (map fst s)"

lemma subtree_name_eq: "subtree_name n = Some k \<longleftrightarrow> n = subtree_key k"
proof (cases "take 7 n = ''bridge/''")
  case True
  then obtain x where x: "n = ''bridge/'' @ x" by (metis append_take_drop_id)
  show ?thesis by (cases k) (auto simp: x subtree_name_def subtree_key_def)
next
  case False
  then show ?thesis by (cases k) (auto simp: subtree_name_def subtree_key_def)
qed

lemma subtree_name_key [simp]: "subtree_name (subtree_key k) = Some k"
  by (simp add: subtree_name_eq)

lemma map_of_entries: "map_of (alist_entries s) k = map_of s (subtree_key (Some k))"
proof (induction s)
  case (Cons e s)
  obtain n v where e: "e = (n, v)" by (cases e)
  show ?case
  proof (cases "subtree_name n")
    case None
    then have "n \<noteq> subtree_key (Some k)" by auto
    then show ?thesis using Cons None e by simp
  next
    case (Some k')
    then have "n = subtree_key k'" by (simp add: subtree_name_eq)
    then show ?thesis
      using Cons e inj_eq[OF subtree_key_inj] by (cases k') auto
  qed
qed simp

lemma alist_entries_distinct: "distinct (map fst s) \<Longrightarrow> distinct (map fst (alist_entries s))"
proof (induction s)
  case (Cons e s)
  obtain n v where e: "e = (n, v)" by (cases e)
  have "k \<notin> fst ` set (alist_entries s)" if "n = subtree_key (Some k)" for k
    using Cons.prems that e map_of_entries[of s k] by (simp add: map_of_eq_None_iff[symmetric])
  then show ?case using Cons e by (auto simp: subtree_name_eq split: option.splits)
qed simp

lemma set_alist_keys: "set (alist_keys s) = {k. map_of s (subtree_key k) \<noteq> None}"
proof (induction s)
  case (Cons e s)
  obtain n v where e: "e = (n, v)" by (cases e)
  show ?case
  proof (cases "subtree_name n")
    case None
    then have "\<And>k. n \<noteq> subtree_key k" by auto
    then show ?thesis using Cons None e by auto
  next
    case (Some k')
    then have "n = subtree_key k'" by (simp add: subtree_name_eq)
    then show ?thesis using Cons e inj_eq[OF subtree_key_inj] by auto
  qed
qed simp

lemma alist_keys_distinct: "distinct (map fst s) \<Longrightarrow> distinct (alist_keys s)"
proof (induction s)
  case (Cons e s)
  obtain n v where e: "e = (n, v)" by (cases e)
  have "k \<notin> set (alist_keys s)" if "n = subtree_key k" for k
    using Cons.prems that e by (simp add: set_alist_keys map_of_eq_None_iff)
  then show ?case using Cons e by (auto simp: subtree_name_eq split: option.splits)
qed simp

lemma map_of_remove: "map_of (alist_remove k s) = (map_of s)(k := None)"
  unfolding alist_remove_def by (induction s) auto

lemma alist_remove_ok: "alist_ok s \<Longrightarrow> alist_ok (alist_remove k s)"
  unfolding alist_ok_def alist_remove_def by (rule distinct_map_filter)

lemma not_in_remove: "k \<notin> fst ` set (alist_remove k s)"
  by (auto simp: alist_remove_def)

interpretation alist: settings_store alist_ops map_of alist_ok
proof unfold_locales
  fix s :: alist_store
  show "\<exists>kvs. cfg_settings_load_subtree alist_ops s = (0, map (\<lambda>(k, v). (k, length v, value_reader v)) kvs) \<and>
        distinct (map fst kvs) \<and> (\<forall>k. k \<noteq> [] \<longrightarrow> map_of kvs k = map_of s (subtree_key (Some k)))" if "alist_ok s"
    using that by (intro exI[of _ "alist_entries s"])
      (simp add: alist_ops_def alist_ok_def alist_entries_distinct map_of_entries)
next
  fix s :: alist_store
  assume "alist_ok s"
  then show "distinct (cfg_settings_load_subtree_direct alist_ops s) \<and>
        set (cfg_settings_load_subtree_direct alist_ops s) = {k. map_of s (subtree_key k) \<noteq> None}"
    by (simp add: alist_ops_def alist_ok_def alist_keys_distinct set_alist_keys)
next
  fix s s' :: alist_store and k v r
  assume "alist_ok s" and "cfg_settings_save_one alist_ops k v s = (r, s')"
  then show "alist_ok s' \<and> map_of s' = (if r = 0 then (map_of s)(k \<mapsto> v) else map_of s)"
    using alist_remove_ok[of s k] not_in_remove[of k s] by (auto simp: alist_ops_def map_of_remove) (simp add: alist_ok_def)
qed (auto simp: alist_ops_def alist_remove_ok map_of_remove)

section \<open>Runs\<close>

datatype config_call =
    SetAis "bridge_config_ais option"
  | SetSta "bridge_config_sta option"
  | SetAp "bridge_config_ap option"
  | SetSystem "bridge_config_system option"
  | SetTcpClient "bridge_config_tcp_client option"
  | FactoryReset
  | SetListener bool

fun call_sized :: "config_call \<Rightarrow> bool" where
  "call_sized (SetSta (Some n)) = sta_sized n"
| "call_sized (SetAp (Some n)) = ap_sized n"
| "call_sized (SetSystem (Some n)) = system_sized n"
| "call_sized (SetTcpClient (Some n)) = tcp_sized n"
| "call_sized _ = True"

fun config_step :: "'s settings_ops \<Rightarrow> nat \<Rightarrow> config_call \<Rightarrow> 's config \<Rightarrow> (rc \<times> 's config) option" where
  "config_step ops name_max (SetAis n) c = bridge_config_set_ais ops n c"
| "config_step ops name_max (SetSta n) c = bridge_config_set_sta ops n c"
| "config_step ops name_max (SetAp n) c = bridge_config_set_ap ops n c"
| "config_step ops name_max (SetSystem n) c = bridge_config_set_system ops n c"
| "config_step ops name_max (SetTcpClient n) c = bridge_config_set_tcp_client ops n c"
| "config_step ops name_max FactoryReset c = bridge_config_factory_reset ops name_max c"
| "config_step ops name_max (SetListener l) c = Some (0, bridge_config_set_listener l c)"

fun config_run :: "'s settings_ops \<Rightarrow> nat \<Rightarrow> config_call list \<Rightarrow> 's config \<Rightarrow> 's config option" where
  "config_run ops name_max [] c = Some c"
| "config_run ops name_max (e # es) c =
     do { (r, c') \<leftarrow> config_step ops name_max e c; config_run ops name_max es c' }"

context settings_store
begin

text \<open>What the five setters have in common.\<close>

lemma setter_summary:
  assumes "config_inv d view sok c" and "valid \<Longrightarrow> upd_ok d key record upd c"
    and "\<And>w. valid \<Longrightarrow> sel (boot_eff d (w(key \<mapsto> record))) = x" and "same \<Longrightarrow> sel (eff c) = x"
  shows "\<exists>r c'. setter_result ops key record valid same upd c = Some (r, c') \<and> config_inv d view sok c' \<and>
    (r = 0 \<longrightarrow> sel (boot_eff d (view (store c'))) = x) \<and>
    (r \<noteq> 0 \<longrightarrow> (\<exists>s. c' = c\<lparr>store := s\<rparr> \<and> view s = view (store c)))"
proof -
  obtain r c' where e: "setter_result ops key record valid same upd c = Some (r, c')"
    using setter_total by blast
  have "sel (boot_eff d (view (store c'))) = x" if "r = 0"
    using setter_survives[OF e[unfolded that] assms] .
  moreover have "sok (store c)" using assms(1) by (simp add: config_inv_def)
  ultimately show ?thesis using e setter_inv[OF e assms(1,2)] setter_rejects[OF e] by blast
qed

lemma set_ais_inv:
  assumes "config_inv d view sok c"
  shows "\<exists>r c'. bridge_config_set_ais ops (Some n) c = Some (r, c') \<and> config_inv d view sok c' \<and>
    (r = 0 \<longrightarrow> fst (boot_eff d (view (store c'))) = n) \<and>
    (r \<noteq> 0 \<longrightarrow> (\<exists>s. c' = c\<lparr>store := s\<rparr> \<and> view s = view (store c)))"
proof -
  have ok: "config_ok c" using assms by (simp_all add: config_inv_def config_ok_def)
  show ?thesis
    unfolding set_ais_eq
    by (rule setter_summary[OF assms, where sel = "\<lambda>x. fst (x)"])
       (simp_all add: upd_oks[OF ok(1)] boot_eff_def boot_eff_stored eff_def del: AIS_RECORD_LEN_def)
qed

lemma set_sta_inv:
  assumes "config_inv d view sok c" and "sta_sized n"
  shows "\<exists>r c'. bridge_config_set_sta ops (Some n) c = Some (r, c') \<and> config_inv d view sok c' \<and>
    (r = 0 \<longrightarrow> fst (snd (boot_eff d (view (store c')))) = sta_norm n) \<and>
    (r \<noteq> 0 \<longrightarrow> (\<exists>s. c' = c\<lparr>store := s\<rparr> \<and> view s = view (store c)))"
proof -
  have ok: "config_ok c" "sta_ok (sta c)" using assms(1) by (simp_all add: config_inv_def config_ok_def)
  show ?thesis
    unfolding set_sta_eq[OF ok(2) assms(2)]
    by (rule setter_summary[OF assms(1), where sel = "\<lambda>x. fst (snd (x))"])
       (simp_all add: upd_oks[OF ok(1)] boot_eff_def boot_eff_stored eff_def del: STA_RECORD_LEN_def)
qed

lemma set_ap_inv:
  assumes "config_inv d view sok c" and "ap_sized n"
  shows "\<exists>r c'. bridge_config_set_ap ops (Some n) c = Some (r, c') \<and> config_inv d view sok c' \<and>
    (r = 0 \<longrightarrow> fst (snd (snd (boot_eff d (view (store c'))))) = ap_norm n) \<and>
    (r \<noteq> 0 \<longrightarrow> (\<exists>s. c' = c\<lparr>store := s\<rparr> \<and> view s = view (store c)))"
proof -
  have ok: "config_ok c" "ap_ok (ap c)" using assms(1) by (simp_all add: config_inv_def config_ok_def)
  show ?thesis
    unfolding set_ap_eq[OF ok(2) assms(2)]
    by (rule setter_summary[OF assms(1), where sel = "\<lambda>x. fst (snd (snd (x)))"])
       (simp_all add: upd_oks[OF ok(1)] boot_eff_def boot_eff_stored eff_def del: AP_RECORD_LEN_def)
qed

lemma set_system_inv:
  assumes "config_inv d view sok c" and "system_sized n"
  shows "\<exists>r c'. bridge_config_set_system ops (Some n) c = Some (r, c') \<and> config_inv d view sok c' \<and>
    (r = 0 \<longrightarrow> fst (snd (snd (snd (boot_eff d (view (store c')))))) = system_norm n) \<and>
    (r \<noteq> 0 \<longrightarrow> (\<exists>s. c' = c\<lparr>store := s\<rparr> \<and> view s = view (store c)))"
proof -
  have ok: "config_ok c" "system_ok (system_cfg c)" using assms(1) by (simp_all add: config_inv_def config_ok_def)
  show ?thesis
    unfolding set_system_eq[OF ok(2) assms(2)]
    by (rule setter_summary[OF assms(1), where sel = "\<lambda>x. fst (snd (snd (snd (x))))"])
       (simp_all add: upd_oks[OF ok(1)] boot_eff_def boot_eff_stored eff_def del: SYS_RECORD_LEN_def)
qed

lemma set_tcp_inv:
  assumes "config_inv d view sok c" and "tcp_sized n"
  shows "\<exists>r c'. bridge_config_set_tcp_client ops (Some n) c = Some (r, c') \<and> config_inv d view sok c' \<and>
    (r = 0 \<longrightarrow> snd (snd (snd (snd (boot_eff d (view (store c')))))) = tcp_norm n) \<and>
    (r \<noteq> 0 \<longrightarrow> (\<exists>s. c' = c\<lparr>store := s\<rparr> \<and> view s = view (store c)))"
proof -
  have ok: "config_ok c" "tcp_ok (tcp_client c)" using assms(1) by (simp_all add: config_inv_def config_ok_def)
  show ?thesis
    unfolding set_tcp_eq[OF ok(2) assms(2)]
    by (rule setter_summary[OF assms(1), where sel = "\<lambda>x. snd (snd (snd (snd (x))))"])
       (simp_all add: upd_oks[OF ok(1)] boot_eff_def boot_eff_stored eff_def del: TCP_RECORD_LEN_def)
qed

lemma factory_reset_inv:
  assumes "config_inv d view sok c"
  shows "\<exists>r c'. bridge_config_factory_reset ops name_max c = Some (r, c') \<and> config_inv d view sok c' \<and>
    eff c' = eff c \<and> (r = 0 \<longrightarrow> overrides (view (store c')) = {} \<and> reboot_required c' \<and> factory_reset_pending c') \<and>
    (\<exists>gone. view (store c') = without gone (view (store c)) \<and> gone \<subseteq> subtree_key ` overrides (view (store c)) \<and>
       (gone \<noteq> {} \<longrightarrow> reboot_required c' \<and> factory_reset_pending c')) \<and>
    (r \<noteq> 0 \<longrightarrow> (\<exists>k s. sok s \<and> fst (cfg_settings_delete ops k s) \<noteq> 0) \<or>
       (\<exists>k. Some k \<in> overrides (view (store c)) \<and> name_max < length k))"
proof -
  have "sok (store c)" using assms by (simp add: config_inv_def)
  from reset_loop_ends[OF this, of name_max False] obtain ret any s gone where r:
    "reset_loop ops name_max False (store c) = Some (ret, any, s)" "sok s" "view s = without gone (view (store c))"
    "gone \<subseteq> subtree_key ` overrides (view (store c))" "any \<longleftrightarrow> False \<or> gone \<noteq> {}" "ret = 0 \<longrightarrow> overrides (view s) = {}"
    "ret \<noteq> 0 \<longrightarrow> (\<exists>k s. sok s \<and> fst (cfg_settings_delete ops k s) \<noteq> 0) \<or>
       (\<exists>k. Some k \<in> overrides (view (store c)) \<and> name_max < length k)"
    by blast
  have "gone = {} \<Longrightarrow> view s = view (store c)" using r(3) by (simp add: without_def)
  with r assms show ?thesis
    by (cases "ret = 0 \<or> any")
       (auto simp: bridge_config_factory_reset_def config_inv_def config_ok_def eff_def intro!: exI[of _ gone])
qed

lemma step_inv:
  assumes "config_inv d view sok c" and "call_sized e"
  shows "\<exists>r c'. config_step ops name_max e c = Some (r, c') \<and> config_inv d view sok c' \<and>
    (r \<noteq> 0 \<and> e \<noteq> FactoryReset \<longrightarrow> (\<exists>s. c' = c\<lparr>store := s\<rparr> \<and> view s = view (store c)))"
proof (cases "e \<in> {SetAis None, SetSta None, SetAp None, SetSystem None, SetTcpClient None}")
  case True
  then show ?thesis
    using assms(1) by (auto simp: bridge_config_set_ais_def bridge_config_set_sta_def bridge_config_set_ap_def
        bridge_config_set_system_def bridge_config_set_tcp_client_def intro!: exI[of _ "store c"])
next
  case False
  then consider n where "e = SetAis (Some n)" | n where "e = SetSta (Some n)" | n where "e = SetAp (Some n)"
    | n where "e = SetSystem (Some n)" | n where "e = SetTcpClient (Some n)" | "e = FactoryReset"
    | l where "e = SetListener l"
    by (cases e) (auto simp: not_None_eq)
  then show ?thesis
  proof cases
    case 1
    then show ?thesis using set_ais_inv[OF assms(1)] by (metis config_step.simps(1))
  next
    case 2
    then show ?thesis using set_sta_inv[OF assms(1)] assms(2) by (metis config_step.simps(2) call_sized.simps(1))
  next
    case 3
    then show ?thesis using set_ap_inv[OF assms(1)] assms(2) by (metis config_step.simps(3) call_sized.simps(2))
  next
    case 4
    then show ?thesis using set_system_inv[OF assms(1)] assms(2) by (metis config_step.simps(4) call_sized.simps(3))
  next
    case 5
    then show ?thesis using set_tcp_inv[OF assms(1)] assms(2) by (metis config_step.simps(5) call_sized.simps(4))
  next
    case 6
    then show ?thesis using factory_reset_inv[OF assms(1)] by (metis config_step.simps(6))
  next
    case 7
    then show ?thesis
      using assms(1) by (simp add: bridge_config_set_listener_def config_inv_def config_ok_def eff_def)
  qed
qed

lemma run_inv:
  "config_inv d view sok c \<Longrightarrow> list_all call_sized es \<Longrightarrow>
     \<exists>c'. config_run ops name_max es c = Some c' \<and> config_inv d view sok c'"
proof (induction es arbitrary: c)
  case (Cons e es)
  obtain r c1 where c1: "config_step ops name_max e c = Some (r, c1)" "config_inv d view sok c1"
    using step_inv[OF Cons.prems(1)] Cons.prems(2) by fastforce
  show ?case using Cons.IH[OF c1(2)] Cons.prems(2) c1(1) by simp
qed simp

end

section \<open>Properties\<close>

text \<open>C3. Over every settings store that keeps its contract, after boot and any sequence of
  setter calls and factory resets: no operation leaves an object, the settings in RAM are
  valid, and, unless a factory reset is pending, a reboot comes up with exactly the settings
  that are in force now.\<close>

theorem config_survives_reboot:
  assumes "settings_store ops view sok" and "sok s" and "defaults_ok d" and "list_all call_sized es"
    and "bridge_config_init ops (config_boot d s) = Some (r0, c0)"
  shows "\<exists>c. config_run ops name_max es c0 = Some c \<and> config_ok c \<and>
    (factory_reset_pending c \<or>
     (\<exists>c'. bridge_config_init ops (config_boot d (store c)) = Some (0, c') \<and> eff c' = eff c))"
proof -
  have "config_inv d view sok c0"
    using settings_store.init_config[OF assms(1-3)] assms(5) by auto
  then obtain c where c: "config_run ops name_max es c0 = Some c" "config_inv d view sok c"
    using settings_store.run_inv[OF assms(1) _ assms(4)] by blast
  have "\<exists>c'. bridge_config_init ops (config_boot d (store c)) = Some (0, c') \<and> eff c' = boot_eff d (view (store c))"
    using settings_store.init_config[OF assms(1) _ assms(3), of "store c"] c(2) by (auto simp: config_inv_def)
  then show ?thesis using c by (auto simp: config_inv_def)
qed

definition demo_defaults :: config_defaults where
  "demo_defaults = \<lparr>d_ais = demo_ais, d_sta = demo_sta, d_ap = demo_ap, d_system = demo_system, d_tcp_client = demo_tcp\<rparr>"

definition new_tcp :: bridge_config_tcp_client where
  "new_tcp = \<lparr>tcp_enabled = False, tcp_host = replicate 16 0, tcp_port = 2000\<rparr>"

lemma demo_defaults_ok: "defaults_ok demo_defaults"
  using demo_configs_ok by (simp add: defaults_ok_def demo_defaults_def)

lemma demo_boot:
  "bridge_config_init alist_ops (config_boot demo_defaults []) = Some (0, config_boot demo_defaults [])"
  by (simp add: bridge_config_init_def alist_ops_def config_boot_def)

lemma new_tcp_ok: "tcp_ok new_tcp" "tcp_sized new_tcp"
  by (simp_all add: tcp_ok_def c_array_def terminated_def new_tcp_def tcp_sized_def cstr_Cons)

theorem config_survives_reboot_witness:
  "\<exists>c c'. config_run alist_ops 64 [SetTcpClient (Some new_tcp)] (config_boot demo_defaults []) = Some c \<and>
     \<not> factory_reset_pending c \<and>
     bridge_config_init alist_ops (config_boot demo_defaults (store c)) = Some (0, c') \<and> eff c' = eff c"
proof -
  obtain c where c: "config_run alist_ops 64 [SetTcpClient (Some new_tcp)] (config_boot demo_defaults []) = Some c"
      "factory_reset_pending c \<or>
       (\<exists>c'. bridge_config_init alist_ops (config_boot demo_defaults (store c)) = Some (0, c') \<and> eff c' = eff c)"
    using config_survives_reboot[OF alist.settings_store_axioms _ demo_defaults_ok _ demo_boot,
        of "[SetTcpClient (Some new_tcp)]" 64] new_tcp_ok(2)
    by (auto simp: alist_ok_def)
  moreover have "\<not> factory_reset_pending c"
    using c(1) set_tcp_eq[of "config_boot demo_defaults []" new_tcp alist_ops] new_tcp_ok demo_configs_ok(5)
    by (auto simp: config_boot_def demo_defaults_def setter_result_def alist_ops_def split: if_splits)
  ultimately show ?thesis by blast
qed

text \<open>C22. A setter that reports success has saved its argument for good, also while a factory
  reset is pending: the next boot runs with exactly the given settings of that group.\<close>

theorem successful_set_survives_reboot:
  assumes "settings_store ops view sok" and "config_inv d view sok c" and "defaults_ok d"
  shows "(bridge_config_set_ais ops (Some a) c = Some (0, c') \<longrightarrow>
      (\<exists>b. bridge_config_init ops (config_boot d (store c')) = Some (0, b) \<and> ais b = a)) \<and>
    (sta_sized s \<and> bridge_config_set_sta ops (Some s) c = Some (0, c') \<longrightarrow>
      (\<exists>b. bridge_config_init ops (config_boot d (store c')) = Some (0, b) \<and> sta_norm (sta b) = sta_norm s)) \<and>
    (ap_sized p \<and> bridge_config_set_ap ops (Some p) c = Some (0, c') \<longrightarrow>
      (\<exists>b. bridge_config_init ops (config_boot d (store c')) = Some (0, b) \<and> ap_norm (ap b) = ap_norm p)) \<and>
    (system_sized y \<and> bridge_config_set_system ops (Some y) c = Some (0, c') \<longrightarrow>
      (\<exists>b. bridge_config_init ops (config_boot d (store c')) = Some (0, b) \<and>
         system_norm (system_cfg b) = system_norm y)) \<and>
    (tcp_sized t \<and> bridge_config_set_tcp_client ops (Some t) c = Some (0, c') \<longrightarrow>
      (\<exists>b. bridge_config_init ops (config_boot d (store c')) = Some (0, b) \<and> tcp_norm (tcp_client b) = tcp_norm t))"
proof -
  note S = assms(1)
  note inv = settings_store.set_ais_inv[OF S assms(2), of a] settings_store.set_sta_inv[OF S assms(2), of s]
    settings_store.set_ap_inv[OF S assms(2), of p] settings_store.set_system_inv[OF S assms(2), of y]
    settings_store.set_tcp_inv[OF S assms(2), of t]
  have boot: "\<exists>b. bridge_config_init ops (config_boot d (store c')) = Some (0, b) \<and> eff b = boot_eff d (view (store c'))"
    if "config_inv d view sok c'"
    using settings_store.init_config[OF S _ assms(3), of "store c'"] that by (auto simp: config_inv_def)
  have sel: "ais b = fst (eff b)" "sta_norm (sta b) = fst (snd (eff b))" "ap_norm (ap b) = fst (snd (snd (eff b)))"
      "system_norm (system_cfg b) = fst (snd (snd (snd (eff b))))"
      "tcp_norm (tcp_client b) = snd (snd (snd (snd (eff b))))" for b :: "'a config"
    by (simp_all add: eff_def)
  show ?thesis
  proof (intro conjI impI)
    show "\<exists>b. bridge_config_init ops (config_boot d (store c')) = Some (0, b) \<and> ais b = a"
      if "bridge_config_set_ais ops (Some a) c = Some (0, c')"
      using inv(1) boot that unfolding sel by (metis option.inject prod.inject)
    show "\<exists>b. bridge_config_init ops (config_boot d (store c')) = Some (0, b) \<and> sta_norm (sta b) = sta_norm s"
      if "sta_sized s \<and> bridge_config_set_sta ops (Some s) c = Some (0, c')"
      using inv(2) boot that unfolding sel by (metis option.inject prod.inject)
    show "\<exists>b. bridge_config_init ops (config_boot d (store c')) = Some (0, b) \<and> ap_norm (ap b) = ap_norm p"
      if "ap_sized p \<and> bridge_config_set_ap ops (Some p) c = Some (0, c')"
      using inv(3) boot that unfolding sel by (metis option.inject prod.inject)
    show "\<exists>b. bridge_config_init ops (config_boot d (store c')) = Some (0, b) \<and> system_norm (system_cfg b) = system_norm y"
      if "system_sized y \<and> bridge_config_set_system ops (Some y) c = Some (0, c')"
      using inv(4) boot that unfolding sel by (metis option.inject prod.inject)
    show "\<exists>b. bridge_config_init ops (config_boot d (store c')) = Some (0, b) \<and> tcp_norm (tcp_client b) = tcp_norm t"
      if "tcp_sized t \<and> bridge_config_set_tcp_client ops (Some t) c = Some (0, c')"
      using inv(5) boot that unfolding sel by (metis option.inject prod.inject)
  qed
qed

lemma demo_inv: "config_inv demo_defaults map_of alist_ok (config_boot demo_defaults [])"
  using alist.init_config[of "[]" demo_defaults] demo_defaults_ok demo_boot by (auto simp: alist_ok_def)

text \<open>The configuration after the address of the client was changed.\<close>

definition tcp_changed :: "alist_store config" where
  "tcp_changed = (config_boot demo_defaults [])\<lparr>store := [(''bridge/tcp'', tcp_record new_tcp)], tcp_client := new_tcp\<rparr>"

lemma set_new_tcp:
  "bridge_config_set_tcp_client alist_ops (Some new_tcp) (config_boot demo_defaults []) = Some (0, tcp_changed)"
proof -
  have "tcp_ok (tcp_client (config_boot demo_defaults []))"
    using demo_configs_ok(5) by (simp add: config_boot_def demo_defaults_def)
  moreover have "tcp_norm demo_tcp \<noteq> tcp_norm new_tcp"
    by (simp add: tcp_norm_eq_iff demo_tcp_def new_tcp_def)
  ultimately show ?thesis
    using set_tcp_eq[of "config_boot demo_defaults []" new_tcp alist_ops] new_tcp_ok
    by (simp add: setter_result_def alist_ops_def config_boot_def demo_defaults_def alist_remove_def tcp_changed_def)
qed

theorem successful_set_survives_reboot_witness:
  "\<exists>b. bridge_config_init alist_ops (config_boot demo_defaults (store tcp_changed)) = Some (0, b) \<and>
     tcp_norm (tcp_client b) = tcp_norm new_tcp"
  using successful_set_survives_reboot[OF alist.settings_store_axioms demo_inv demo_defaults_ok,
      of _ tcp_changed _ _ _ new_tcp] set_new_tcp new_tcp_ok(2) by blast

text \<open>C31. A setter that reports an error changed nothing: the settings in RAM, the flags, the
  stored values and the number of notifications are as before.\<close>

theorem failed_set_changes_nothing:
  assumes "settings_store ops view sok" and "config_inv d view sok c" and "call_sized e"
    and "e \<noteq> FactoryReset" and "config_step ops name_max e c = Some (r, c')" and "r \<noteq> 0"
  shows "\<exists>s. c' = c\<lparr>store := s\<rparr> \<and> view s = view (store c)"
  using settings_store.step_inv[OF assms(1-3), of name_max] assms(4-6) by auto

definition bad_ais :: bridge_config_ais where
  "bad_ais = \<lparr>filter_enabled = True, cfg_own_mmsi = 2000000000\<rparr>"

theorem failed_set_changes_nothing_witness:
  "\<exists>s. config_step alist_ops 64 (SetAis (Some bad_ais)) (config_boot demo_defaults []) =
       Some (- EINVAL, (config_boot demo_defaults [])\<lparr>store := s\<rparr>) \<and> map_of s = map_of []"
proof -
  have e: "config_step alist_ops 64 (SetAis (Some bad_ais)) (config_boot demo_defaults []) =
      Some (- EINVAL, config_boot demo_defaults [])"
    by (simp add: bridge_config_set_ais_def bad_ais_def BRIDGE_CONFIG_AIS_MMSI_MAX_def)
  from failed_set_changes_nothing[OF alist.settings_store_axioms demo_inv _ _ e] e show ?thesis
    by (auto simp: errno_defs config_boot_def)
qed

text \<open>Every setter refuses an argument outside its range with \<open>-EINVAL\<close>, before it touches the
  settings or the store: an MMSI above 999999999, an SSID that is not valid text or (for the
  access point) empty, a password of other than 0 or 8 to 63 characters, a name that is not a
  DNS label, a host that is not an address, port 0, and any unterminated array.\<close>

theorem setters_refuse_invalid:
  assumes "config_ok c"
  shows "(\<not> ais_ok a \<longrightarrow> bridge_config_set_ais ops (Some a) c = Some (- EINVAL, c)) \<and>
    (sta_sized s \<and> \<not> sta_ok s \<longrightarrow> bridge_config_set_sta ops (Some s) c = Some (- EINVAL, c)) \<and>
    (ap_sized p \<and> \<not> ap_ok p \<longrightarrow> bridge_config_set_ap ops (Some p) c = Some (- EINVAL, c)) \<and>
    (system_sized y \<and> \<not> system_ok y \<longrightarrow> bridge_config_set_system ops (Some y) c = Some (- EINVAL, c)) \<and>
    (tcp_sized t \<and> \<not> tcp_ok t \<longrightarrow> bridge_config_set_tcp_client ops (Some t) c = Some (- EINVAL, c))"
  using assms by (simp add: config_ok_def set_ais_eq set_sta_eq set_ap_eq set_system_eq set_tcp_eq setter_result_def)

definition open_sta :: bridge_config_sta where
  "open_sta = \<lparr>sta_enabled = True, rotate_mac = False, sta_ssid = replicate 33 0,
     sta_psk = bytes_of ''short'' @ replicate 59 0\<rparr>"

theorem setters_refuse_invalid_witness:
  "bridge_config_set_sta alist_ops (Some open_sta) (config_boot demo_defaults []) =
     Some (- EINVAL, config_boot demo_defaults [])"
proof -
  have "\<not> sta_ok open_sta" "sta_sized open_sta"
    by (simp_all add: sta_ok_def open_sta_def psk_ok_def sta_sized_def bytes_of_def cstr_Cons)
  then show ?thesis
    using setters_refuse_invalid[of "config_boot demo_defaults []" _ alist_ops open_sta] demo_inv
    by (simp add: config_inv_def)
qed


lemma tcp_changed_inv: "config_inv demo_defaults map_of alist_ok tcp_changed"
  using alist.step_inv[OF demo_inv, of "SetTcpClient (Some new_tcp)"] set_new_tcp new_tcp_ok by auto


end
