(* ===== verification/Web_Config.thy ===== *)
theory Web_Config
  imports Web_Response Bridge_Config_Properties
begin

text \<open>
  The configuration endpoint of the web application, \<open>src/src/web_app.c\<close>: the JSON form of the configuration,
  and the update from a JSON body, which checks every field before it changes anything.

  Zephyr's JSON parser is not part of the repository: \<open>json_obj_parse\<close> with the table
  \<open>config_payload_descr\<close> is a parameter that gives its return value and the payload it leaves; \<open>payload_ok\<close> says
  what is known of it. Every path of a handler ends by writing one response, so a path gives the response it writes as a
  \<open>config_reply\<close>, and \<open>send_reply\<close> writes it.
\<close>

section \<open>Translation\<close>

definition WEB_APP_CONFIG_BODY_MAX :: nat where "WEB_APP_CONFIG_BODY_MAX = 768"

text \<open>Numbers of type \<open>int32_t\<close> are integers.\<close>

record config_payload =
  pl_ais_filter_enabled :: bool
  pl_ais_own_mmsi :: int
  pl_sta_enabled :: bool
  pl_sta_ssid :: "byte list"
  pl_sta_psk :: "byte list"
  pl_sta_psk_clear :: bool
  pl_sta_rotate_mac :: bool
  pl_tcp_client_enabled :: bool
  pl_tcp_client_host :: "byte list"
  pl_tcp_client_port :: int
  pl_ap_ssid :: "byte list"
  pl_ap_psk :: "byte list"
  pl_ap_psk_clear :: bool
  pl_hostname :: "byte list"

definition CONFIG_FIELD_AIS_FILTER_ENABLED :: int where "CONFIG_FIELD_AIS_FILTER_ENABLED = 2 ^ 0"
definition CONFIG_FIELD_AIS_OWN_MMSI :: int where "CONFIG_FIELD_AIS_OWN_MMSI = 2 ^ 1"
definition CONFIG_FIELD_STA_ENABLED :: int where "CONFIG_FIELD_STA_ENABLED = 2 ^ 2"
definition CONFIG_FIELD_STA_SSID :: int where "CONFIG_FIELD_STA_SSID = 2 ^ 3"
definition CONFIG_FIELD_STA_PSK :: int where "CONFIG_FIELD_STA_PSK = 2 ^ 4"
definition CONFIG_FIELD_STA_PSK_CLEAR :: int where "CONFIG_FIELD_STA_PSK_CLEAR = 2 ^ 5"
definition CONFIG_FIELD_STA_ROTATE_MAC :: int where "CONFIG_FIELD_STA_ROTATE_MAC = 2 ^ 6"
definition CONFIG_FIELD_TCP_CLIENT_ENABLED :: int where "CONFIG_FIELD_TCP_CLIENT_ENABLED = 2 ^ 7"
definition CONFIG_FIELD_TCP_CLIENT_HOST :: int where "CONFIG_FIELD_TCP_CLIENT_HOST = 2 ^ 8"
definition CONFIG_FIELD_TCP_CLIENT_PORT :: int where "CONFIG_FIELD_TCP_CLIENT_PORT = 2 ^ 9"
definition CONFIG_FIELD_AP_SSID :: int where "CONFIG_FIELD_AP_SSID = 2 ^ 10"
definition CONFIG_FIELD_AP_PSK :: int where "CONFIG_FIELD_AP_PSK = 2 ^ 11"
definition CONFIG_FIELD_AP_PSK_CLEAR :: int where "CONFIG_FIELD_AP_PSK_CLEAR = 2 ^ 12"
definition CONFIG_FIELD_HOSTNAME :: int where "CONFIG_FIELD_HOSTNAME = 2 ^ 13"

definition CONFIG_FIELDS_AIS :: int where
  "CONFIG_FIELDS_AIS = CONFIG_FIELD_AIS_FILTER_ENABLED OR CONFIG_FIELD_AIS_OWN_MMSI"
definition CONFIG_FIELDS_STA :: int where
  "CONFIG_FIELDS_STA = CONFIG_FIELD_STA_ENABLED OR CONFIG_FIELD_STA_SSID OR CONFIG_FIELD_STA_PSK OR
     CONFIG_FIELD_STA_PSK_CLEAR OR CONFIG_FIELD_STA_ROTATE_MAC"
definition CONFIG_FIELDS_TCP :: int where
  "CONFIG_FIELDS_TCP = CONFIG_FIELD_TCP_CLIENT_ENABLED OR CONFIG_FIELD_TCP_CLIENT_HOST OR CONFIG_FIELD_TCP_CLIENT_PORT"
definition CONFIG_FIELDS_AP :: int where
  "CONFIG_FIELDS_AP = CONFIG_FIELD_AP_SSID OR CONFIG_FIELD_AP_PSK OR CONFIG_FIELD_AP_PSK_CLEAR"

text \<open>\<open>(fields & mask) != 0\<close>.\<close>

definition has_field :: "int \<Rightarrow> int \<Rightarrow> bool" where
  "has_field fs m \<longleftrightarrow> fs AND m \<noteq> 0"

text \<open>\<open>%s\<close> of an array, and \<open>strcpy\<close>.\<close>

definition str_arg :: "byte list \<Rightarrow> byte list option" where
  "str_arg a = (if terminated a then Some (cstr a) else None)"

definition strcpy :: "byte list \<Rightarrow> byte list \<Rightarrow> byte list option" where
  "strcpy dst src = do { n \<leftarrow> strlen src; memcpy dst 0 src 0 (n + 1) }"

definition bool_text :: "bool \<Rightarrow> byte list" where
  "bool_text b = (if b then bytes_of ''true'' else bytes_of ''false'')"

definition config_json :: "'s config \<Rightarrow> byte list option" where
  "config_json c =
     do {
       ssid_json \<leftarrow> json_escape_string (Some (sta_ssid (bridge_config_get_sta c))) (BRIDGE_CONFIG_WIFI_SSID_MAX * 2 + 1);
       ap_ssid_json \<leftarrow> json_escape_string (Some (ap_ssid (bridge_config_get_ap c))) (BRIDGE_CONFIG_WIFI_SSID_MAX * 2 + 1);
       ssid \<leftarrow> str_arg ssid_json;
       apssid \<leftarrow> str_arg ap_ssid_json;
       sta0 \<leftarrow> rd (sta_psk (bridge_config_get_sta c)) 0;
       ap0 \<leftarrow> rd (ap_psk (bridge_config_get_ap c)) 0;
       host \<leftarrow> str_arg (hostname (bridge_config_get_system c));
       tcphost \<leftarrow> str_arg (tcp_host (bridge_config_get_tcp_client c));
       Some (
         bytes_of ''{\"ais_filter_enabled\":'' @ bool_text (filter_enabled (bridge_config_get_ais c)) @
         bytes_of '',\"ais_own_mmsi\":'' @ nat_text (unat (cfg_own_mmsi (bridge_config_get_ais c))) @
         bytes_of '',\"sta_enabled\":'' @ bool_text (sta_enabled (bridge_config_get_sta c)) @
         bytes_of '',\"sta_ssid\":\"'' @ ssid @
         bytes_of ''\",\"sta_psk_set\":'' @ bool_text (sta0 \<noteq> 0) @
         bytes_of '',\"sta_rotate_mac\":'' @ bool_text (rotate_mac (bridge_config_get_sta c)) @
         bytes_of '',\"ap_ssid\":\"'' @ apssid @
         bytes_of ''\",\"ap_psk_set\":'' @ bool_text (ap0 \<noteq> 0) @
         bytes_of '',\"hostname\":\"'' @ host @
         bytes_of ''\",\"tcp_client_enabled\":'' @ bool_text (tcp_enabled (bridge_config_get_tcp_client c)) @
         bytes_of '',\"tcp_client_host\":\"'' @ tcphost @
         bytes_of ''\",\"tcp_client_port\":'' @ nat_text (unat (tcp_port (bridge_config_get_tcp_client c))) @
         bytes_of '',\"reboot_required\":'' @ bool_text (bridge_config_reboot_required c) @ bytes_of ''}'')
     }"

definition write_config_json :: "'w web_ops \<Rightarrow> string \<Rightarrow> 's config \<Rightarrow> 'w \<Rightarrow> (rc \<times> 'w) option" where
  "write_config_json wo status c w =
     do { text \<leftarrow> config_json c;
          write_text_response wo status ''application/json'' (fst (snprintk 640 text)) w }"

definition field_error_text :: "string \<Rightarrow> string \<Rightarrow> byte list" where
  "field_error_text field message =
     bytes_of ''{\"ok\":false,\"errors\":{\"'' @ bytes_of field @ bytes_of ''\":\"'' @ bytes_of message @
     bytes_of ''\"}}'' @ [10]"

definition write_config_field_error ::
  "'w web_ops \<Rightarrow> string \<Rightarrow> string \<Rightarrow> 'w \<Rightarrow> (rc \<times> 'w) option"
where
  "write_config_field_error wo field message w =
     write_text_response wo ''400 Bad Request'' ''application/json'' (fst (snprintk 128 (field_error_text field message))) w"

text \<open>The checks of one field: \<open>None\<close> when it passes, otherwise the field and the message of the response.
  The SSID and password checks are written twice in the source, for \<open>sta\<close> and \<open>ap\<close>.\<close>

type_synonym field_error = "(string \<times> string) option"

definition check_ssid :: "string \<Rightarrow> byte list \<Rightarrow> field_error option" where
  "check_ssid field s =
     do {
       n \<leftarrow> strlen s;
       if n < 1 \<or> n > BRIDGE_CONFIG_WIFI_SSID_MAX then Some (Some (field, ''must be 1 to 32 bytes''))
       else do {
         valid \<leftarrow> bridge_config_text_valid s;
         Some (if valid then None else Some (field, ''must be printable UTF-8''))
       }
     }"

definition check_psk :: "string \<Rightarrow> byte list \<Rightarrow> field_error option" where
  "check_psk field s =
     do {
       n \<leftarrow> strlen s;
       Some (if n \<noteq> 0 \<and> (n < BRIDGE_CONFIG_WIFI_PSK_MIN \<or> n > BRIDGE_CONFIG_WIFI_PSK_MAX)
             then Some (field, ''must be 8 to 63 characters or blank'') else None)
     }"

definition check_psk_clear :: "string \<Rightarrow> bool \<Rightarrow> bool \<Rightarrow> byte list \<Rightarrow> field_error option" where
  "check_psk_clear field clear has_psk psk =
     (if clear \<and> has_psk then
        do { c \<leftarrow> rd psk 0;
             Some (if c \<noteq> 0 then Some (field, ''cannot be combined with a new password'') else None) }
      else Some None)"

definition check_hostname :: "byte list \<Rightarrow> field_error option" where
  "check_hostname s =
     do {
       n \<leftarrow> strlen s;
       valid \<leftarrow> (if n > BRIDGE_CONFIG_HOSTNAME_MAX then Some False else bridge_config_hostname_valid (Some s));
       Some (if valid then None
             else Some (''hostname'', ''must be 1 to 32 lowercase letters, digits, or inner hyphens''))
     }"

definition check_host :: "byte list \<Rightarrow> field_error option" where
  "check_host s =
     do {
       n \<leftarrow> strlen s;
       valid \<leftarrow> (if n > BRIDGE_CONFIG_TCP_CLIENT_HOST_MAX then Some False
                 else bridge_config_tcp_client_host_valid (Some s));
       Some (if valid then None else Some (''tcp_client_host'', ''must be an IPv4 address or blank''))
     }"

text \<open>The checks in their order; the first that fails returns.\<close>

fun first_error :: "(bool \<times> field_error option) list \<Rightarrow> field_error option" where
  "first_error [] = Some None"
| "first_error ((applies, check) # cs) =
     (if applies then do { e \<leftarrow> check; if e = None then first_error cs else Some e } else first_error cs)"

definition check_payload :: "int \<Rightarrow> config_payload \<Rightarrow> field_error option" where
  "check_payload fs p = first_error
     [(has_field fs CONFIG_FIELD_AIS_OWN_MMSI,
         Some (if pl_ais_own_mmsi p < 0 \<or> of_int (pl_ais_own_mmsi p) > BRIDGE_CONFIG_AIS_MMSI_MAX
               then Some (''ais_own_mmsi'', ''must be between 0 and 999999999'') else None)),
      (has_field fs CONFIG_FIELD_STA_SSID, check_ssid ''sta_ssid'' (pl_sta_ssid p)),
      (has_field fs CONFIG_FIELD_STA_PSK, check_psk ''sta_psk'' (pl_sta_psk p)),
      (has_field fs CONFIG_FIELD_STA_PSK_CLEAR,
         check_psk_clear ''sta_psk_clear'' (pl_sta_psk_clear p) (has_field fs CONFIG_FIELD_STA_PSK) (pl_sta_psk p)),
      (has_field fs CONFIG_FIELD_AP_SSID, check_ssid ''ap_ssid'' (pl_ap_ssid p)),
      (has_field fs CONFIG_FIELD_AP_PSK, check_psk ''ap_psk'' (pl_ap_psk p)),
      (has_field fs CONFIG_FIELD_AP_PSK_CLEAR,
         check_psk_clear ''ap_psk_clear'' (pl_ap_psk_clear p) (has_field fs CONFIG_FIELD_AP_PSK) (pl_ap_psk p)),
      (has_field fs CONFIG_FIELD_HOSTNAME, check_hostname (pl_hostname p)),
      (has_field fs CONFIG_FIELD_TCP_CLIENT_HOST, check_host (pl_tcp_client_host p)),
      (has_field fs CONFIG_FIELD_TCP_CLIENT_PORT,
         Some (if pl_tcp_client_port p < 1 \<or> pl_tcp_client_port p > 65535
               then Some (''tcp_client_port'', ''must be between 1 and 65535'') else None))]"

text \<open>The merges of the update into the current settings.\<close>

definition merge_psk :: "bool \<Rightarrow> bool \<Rightarrow> byte list \<Rightarrow> byte list \<Rightarrow> byte list option" where
  "merge_psk clear has_psk new_psk old =
     (if clear then Some (old[0 := 0])
      else if has_psk then do { c \<leftarrow> rd new_psk 0; if c \<noteq> 0 then strcpy old new_psk else Some old }
      else Some old)"

text \<open>\<open>Inl\<close> is the refusal to enable the station without an SSID.\<close>

definition merge_sta ::
  "int \<Rightarrow> config_payload \<Rightarrow> bridge_config_sta \<Rightarrow> ((string \<times> string) + bridge_config_sta) option"
where
  "merge_sta fs p s =
     do {
       let s = (if has_field fs CONFIG_FIELD_STA_ENABLED then s\<lparr>sta_enabled := pl_sta_enabled p\<rparr> else s);
       let s = (if has_field fs CONFIG_FIELD_STA_ROTATE_MAC then s\<lparr>rotate_mac := pl_sta_rotate_mac p\<rparr> else s);
       ssid \<leftarrow> (if has_field fs CONFIG_FIELD_STA_SSID then strcpy (sta_ssid s) (pl_sta_ssid p) else Some (sta_ssid s));
       psk \<leftarrow> merge_psk (has_field fs CONFIG_FIELD_STA_PSK_CLEAR \<and> pl_sta_psk_clear p)
         (has_field fs CONFIG_FIELD_STA_PSK) (pl_sta_psk p) (sta_psk s);
       let s = s\<lparr>sta_ssid := ssid, sta_psk := psk\<rparr>;
       missing \<leftarrow> (if has_field fs CONFIG_FIELD_STA_ENABLED \<and> pl_sta_enabled p
                   then do { c \<leftarrow> rd (sta_ssid s) 0; Some (c = 0) } else Some False);
       Some (if missing then Inl (''sta_ssid'', ''required when enabling station mode'') else Inr s)
     }"

definition merge_ap :: "int \<Rightarrow> config_payload \<Rightarrow> bridge_config_ap \<Rightarrow> bridge_config_ap option" where
  "merge_ap fs p a =
     do {
       ssid \<leftarrow> (if has_field fs CONFIG_FIELD_AP_SSID then strcpy (ap_ssid a) (pl_ap_ssid p) else Some (ap_ssid a));
       psk \<leftarrow> merge_psk (has_field fs CONFIG_FIELD_AP_PSK_CLEAR \<and> pl_ap_psk_clear p)
         (has_field fs CONFIG_FIELD_AP_PSK) (pl_ap_psk p) (ap_psk a);
       Some (a\<lparr>ap_ssid := ssid, ap_psk := psk\<rparr>)
     }"

definition merge_ais :: "int \<Rightarrow> config_payload \<Rightarrow> bridge_config_ais \<Rightarrow> bridge_config_ais" where
  "merge_ais fs p a =
     (let a = (if has_field fs CONFIG_FIELD_AIS_FILTER_ENABLED then a\<lparr>filter_enabled := pl_ais_filter_enabled p\<rparr> else a)
      in if has_field fs CONFIG_FIELD_AIS_OWN_MMSI then a\<lparr>cfg_own_mmsi := of_int (pl_ais_own_mmsi p)\<rparr> else a)"

definition merge_tcp ::
  "int \<Rightarrow> config_payload \<Rightarrow> bridge_config_tcp_client \<Rightarrow> bridge_config_tcp_client option"
where
  "merge_tcp fs p t =
     do {
       let t = (if has_field fs CONFIG_FIELD_TCP_CLIENT_ENABLED then t\<lparr>tcp_enabled := pl_tcp_client_enabled p\<rparr> else t);
       host \<leftarrow> (if has_field fs CONFIG_FIELD_TCP_CLIENT_HOST then strcpy (tcp_host t) (pl_tcp_client_host p)
                else Some (tcp_host t));
       let t = t\<lparr>tcp_host := host\<rparr>;
       Some (if has_field fs CONFIG_FIELD_TCP_CLIENT_PORT then t\<lparr>tcp_port := of_int (pl_tcp_client_port p)\<rparr> else t)
     }"

datatype config_reply =
    Field_error string string
  | Payload_too_large
  | Save_failed string
  | Config_saved

text \<open>A save and the return when it fails.\<close>

definition save_step ::
  "bool \<Rightarrow> ('s config \<Rightarrow> (rc \<times> 's config) option) \<Rightarrow> string \<Rightarrow> ('s config \<Rightarrow> (config_reply \<times> 's config) option)
    \<Rightarrow> 's config \<Rightarrow> (config_reply \<times> 's config) option"
where
  "save_step applies setter failure rest c =
     (if applies then
        do { (ret, c) \<leftarrow> setter c; if ret \<noteq> 0 then Some (Save_failed failure, c) else rest c }
      else rest c)"

definition save_update ::
  "'s settings_ops \<Rightarrow> int \<Rightarrow> config_payload \<Rightarrow> bridge_config_sta \<Rightarrow> bridge_config_ap \<Rightarrow> bridge_config_system \<Rightarrow>
    's config \<Rightarrow> (config_reply \<times> 's config) option"
where
  "save_update ops fs p s a y =
     save_step (has_field fs CONFIG_FIELDS_AIS)
       (\<lambda>c. bridge_config_set_ais ops (Some (merge_ais fs p (bridge_config_get_ais c))) c)
       ''saving AIS configuration failed''
     (save_step (has_field fs CONFIG_FIELDS_TCP)
       (\<lambda>c. do { t \<leftarrow> merge_tcp fs p (bridge_config_get_tcp_client c);
                 bridge_config_set_tcp_client ops (Some t) c })
       ''saving TCP client configuration failed''
     (save_step (has_field fs CONFIG_FIELDS_STA) (bridge_config_set_sta ops (Some s))
       ''saving WiFi configuration failed''
     (save_step (has_field fs CONFIG_FIELDS_AP) (bridge_config_set_ap ops (Some a))
       ''saving access point configuration failed''
     (save_step (has_field fs CONFIG_FIELD_HOSTNAME) (bridge_config_set_system ops (Some y))
       ''saving system configuration failed''
     (\<lambda>c. Some (Config_saved, c))))))"

text \<open>The update after parsing: checks, merges, saves. A structure that is not in use stays as it is.\<close>

definition apply_update ::
  "'s settings_ops \<Rightarrow> int \<Rightarrow> config_payload \<Rightarrow> 's config \<Rightarrow> (config_reply \<times> 's config) option"
where
  "apply_update ops fs p c =
     do {
       e \<leftarrow> check_payload fs p;
       (case e of
          Some (field, message) \<Rightarrow> Some (Field_error field message, c)
        | None \<Rightarrow>
            do {
              s \<leftarrow> (if has_field fs CONFIG_FIELDS_STA then merge_sta fs p (bridge_config_get_sta c)
                    else Some (Inr (bridge_config_get_sta c)));
              (case s of
                 Inl (field, message) \<Rightarrow> Some (Field_error field message, c)
               | Inr s \<Rightarrow>
                   do {
                     a \<leftarrow> (if has_field fs CONFIG_FIELDS_AP then merge_ap fs p (bridge_config_get_ap c)
                           else Some (bridge_config_get_ap c));
                     y \<leftarrow> (if has_field fs CONFIG_FIELD_HOSTNAME
                           then do { h \<leftarrow> strcpy (hostname (bridge_config_get_system c)) (pl_hostname p);
                                     Some ((bridge_config_get_system c)\<lparr>hostname := h\<rparr>) }
                           else Some (bridge_config_get_system c));
                     save_update ops fs p s a y c
                   })
            })
     }"

text \<open>The loop of \<open>read_remaining_body\<close>: the return value, the request and the buffer.\<close>

partial_function (option) remaining_body_loop ::
  "'w sock_ops \<Rightarrow> byte list \<Rightarrow> http_request \<Rightarrow> 'w \<Rightarrow> ((rc \<times> http_request \<times> byte list) \<times> 'w) option"
where
  "remaining_body_loop so buf parsed w =
     (if body_len parsed < unat (content_length parsed) then
        (case zsock_recv so (unat (content_length parsed) - body_len parsed) w of
           (Inl e, w) \<Rightarrow>
             if e = EINTR then remaining_body_loop so buf parsed w else Some ((- ENOTCONN, parsed, buf), w)
         | (Inr chunk, w) \<Rightarrow>
             if chunk = [] then Some ((- ENOTCONN, parsed, buf), w)
             else
               (case memcpy buf (rq_body parsed + body_len parsed) chunk 0 (length chunk) of
                  None \<Rightarrow> None
                | Some buf \<Rightarrow>
                    remaining_body_loop so buf (parsed\<lparr>body_len := body_len parsed + length chunk\<rparr>) w))
      else Some ((0, parsed, buf), w))"

definition read_remaining_body ::
  "'w sock_ops \<Rightarrow> byte list \<Rightarrow> nat \<Rightarrow> http_request \<Rightarrow> 'w \<Rightarrow> ((rc \<times> http_request \<times> byte list) \<times> 'w) option"
where
  "read_remaining_body so buf request_size parsed w =
     (if unat (content_length parsed) \<ge> request_size - rq_body parsed then Some ((- EOVERFLOW, parsed, buf), w)
      else remaining_body_loop so buf parsed w)"

text \<open>The part of the handler before the checks: a reply, or the fields and the payload. The parser gets the body.\<close>

definition receive_update ::
  "'w sock_ops \<Rightarrow> (byte list \<Rightarrow> int \<times> config_payload) \<Rightarrow> byte list \<Rightarrow> nat \<Rightarrow> http_request \<Rightarrow> 'w
    \<Rightarrow> ((config_reply + int \<times> config_payload) \<times> 'w) option"
where
  "receive_update so json_obj_parse buf request_size parsed w =
     (if \<not> has_content_length parsed then Some (Inl (Field_error ''body'' ''Content-Length required''), w)
      else if unat (content_length parsed) > WEB_APP_CONFIG_BODY_MAX then Some (Inl Payload_too_large, w)
      else if body_len parsed > unat (content_length parsed)
      then Some (Inl (Field_error ''body'' ''body exceeds Content-Length''), w)
      else do {
        ((ret, parsed, buf), w) \<leftarrow> read_remaining_body so buf request_size parsed w;
        if ret \<noteq> 0 then Some (Inl (Field_error ''body'' ''body ended early''), w)
        else
          (let (fs, payload) = json_obj_parse (take (unat (content_length parsed)) (drop (rq_body parsed) buf)) in
           if fs < 0 then Some (Inl (Field_error ''body'' ''invalid JSON''), w)
           else if fs = 0 then Some (Inl (Field_error ''body'' ''no recognised configuration fields''), w)
           else Some (Inr (fs, payload), w))
      })"

definition send_reply :: "'w web_ops \<Rightarrow> config_reply \<Rightarrow> 's config \<Rightarrow> 'w \<Rightarrow> 'w option" where
  "send_reply wo r c w = map_option snd
     (case r of
        Field_error field message \<Rightarrow> write_config_field_error wo field message w
      | Payload_too_large \<Rightarrow>
          write_text_response wo ''413 Payload Too Large'' ''application/json''
            (bytes_of ''{\"ok\":false,\"errors\":{\"body\":\"payload too large\"}}'' @ [10, 0]) w
      | Save_failed message \<Rightarrow>
          write_text_response wo ''500 Internal Server Error'' ''application/json''
            (bytes_of ''{\"ok\":false,\"errors\":{\"body\":\"'' @ bytes_of message @ bytes_of ''\"}}'' @ [10, 0]) w
      | Config_saved \<Rightarrow> write_config_json wo ''200 OK'' c w)"

definition handle_config_update ::
  "'w web_ops \<Rightarrow> 's settings_ops \<Rightarrow> (byte list \<Rightarrow> int \<times> config_payload) \<Rightarrow> byte list \<Rightarrow> nat \<Rightarrow> http_request
    \<Rightarrow> 's config \<Rightarrow> 'w \<Rightarrow> ('s config \<times> 'w) option"
where
  "handle_config_update wo ops json_obj_parse buf request_size parsed c w =
     do {
       (x, w) \<leftarrow> receive_update (web_sock wo) json_obj_parse buf request_size parsed w;
       (case x of
          Inl r \<Rightarrow> do { w \<leftarrow> send_reply wo r c w; Some (c, w) }
        | Inr (fs, payload) \<Rightarrow>
            do { (r, c) \<leftarrow> apply_update ops fs payload c; w \<leftarrow> send_reply wo r c w; Some (c, w) })
     }"

definition handle_config_reset ::
  "'w web_ops \<Rightarrow> 's settings_ops \<Rightarrow> nat \<Rightarrow> 's config \<Rightarrow> 'w \<Rightarrow> ('s config \<times> 'w) option"
where
  "handle_config_reset wo ops name_max c w =
     do {
       (ret, c) \<leftarrow> bridge_config_factory_reset ops name_max c;
       w \<leftarrow> send_reply wo (if ret \<noteq> 0 then Save_failed ''factory reset failed'' else Config_saved) c w;
       Some (c, w)
     }"

section \<open>What the checks mean\<close>

text \<open>What is known of the payload: its arrays have their sizes, and a string that was in the body is terminated.\<close>

definition payload_ok :: "int \<Rightarrow> config_payload \<Rightarrow> bool" where
  "payload_ok fs p \<longleftrightarrow>
     (has_field fs CONFIG_FIELD_STA_SSID \<longrightarrow> terminated (pl_sta_ssid p)) \<and>
     (has_field fs CONFIG_FIELD_STA_PSK \<longrightarrow> terminated (pl_sta_psk p)) \<and>
     (has_field fs CONFIG_FIELD_AP_SSID \<longrightarrow> terminated (pl_ap_ssid p)) \<and>
     (has_field fs CONFIG_FIELD_AP_PSK \<longrightarrow> terminated (pl_ap_psk p)) \<and>
     (has_field fs CONFIG_FIELD_HOSTNAME \<longrightarrow> terminated (pl_hostname p)) \<and>
     (has_field fs CONFIG_FIELD_TCP_CLIENT_HOST \<longrightarrow> terminated (pl_tcp_client_host p)) \<and>
     - (2 ^ 31) \<le> pl_ais_own_mmsi p \<and> pl_ais_own_mmsi p < 2 ^ 31 \<and>
     - (2 ^ 31) \<le> pl_tcp_client_port p \<and> pl_tcp_client_port p < 2 ^ 31"

text \<open>The strings the checks let through.\<close>

definition ssid_fits :: "byte list \<Rightarrow> bool" where
  "ssid_fits s \<longleftrightarrow> cstr s \<noteq> [] \<and> length (cstr s) \<le> 32 \<and> text_ok (map unat (cstr s))"

definition psk_fits :: "byte list \<Rightarrow> bool" where
  "psk_fits s \<longleftrightarrow> psk_ok s \<and> length (cstr s) \<le> 63"

definition hostname_fits :: "byte list \<Rightarrow> bool" where
  "hostname_fits s \<longleftrightarrow> length (cstr s) \<le> 32 \<and> dns_label (cstr s)"

definition host_fits :: "byte list \<Rightarrow> bool" where
  "host_fits s \<longleftrightarrow> length (cstr s) \<le> 15 \<and> (cstr s = [] \<or> host_ok (cstr s) 0)"

lemma check_ssid_eq:
  "terminated s \<Longrightarrow> \<exists>e. check_ssid f s = Some e \<and> (e = None \<longleftrightarrow> ssid_fits s)"
  by (auto simp: check_ssid_def strlen_eq text_valid_eq ssid_fits_def)

lemma check_psk_eq:
  "terminated s \<Longrightarrow> \<exists>e. check_psk f s = Some e \<and> (e = None \<longleftrightarrow> psk_fits s)"
  by (auto simp: check_psk_def strlen_eq psk_fits_def psk_ok_def)

lemma rd_first: "terminated s \<Longrightarrow> rd s 0 = Some (if cstr s = [] then 0 else hd (cstr s))"
  by (cases s) (auto simp: terminated_def cstr_Cons)

lemma first_nul: "terminated s \<Longrightarrow> \<exists>c. rd s 0 = Some c \<and> (c = 0 \<longleftrightarrow> cstr s = [])"
  by (cases s) (auto simp: terminated_def cstr_Cons)

lemma check_psk_clear_eq:
  "(has \<Longrightarrow> terminated s) \<Longrightarrow>
     \<exists>e. check_psk_clear f clear has s = Some e \<and> (e = None \<longleftrightarrow> \<not> (clear \<and> has \<and> cstr s \<noteq> []))"
  using first_nul[of s] by (auto simp: check_psk_clear_def)

lemma check_hostname_eq:
  "terminated s \<Longrightarrow> \<exists>e. check_hostname s = Some e \<and> (e = None \<longleftrightarrow> hostname_fits s)"
  by (auto simp: check_hostname_def strlen_eq hostname_valid_eq hostname_fits_def BRIDGE_CONFIG_HOSTNAME_MAX_def)

lemma check_host_eq:
  "terminated s \<Longrightarrow> \<exists>e. check_host s = Some e \<and> (e = None \<longleftrightarrow> host_fits s)"
  by (auto simp: check_host_def strlen_eq host_valid_eq host_fits_def)

text \<open>The list of checks, one at a time.\<close>

lemma first_error_step:
  assumes "b \<Longrightarrow> \<exists>e. check = Some e \<and> (e = None \<longleftrightarrow> P)"
    and "\<exists>e. first_error cs = Some e \<and> (e = None \<longleftrightarrow> Q)"
  shows "\<exists>e. first_error ((b, check) # cs) = Some e \<and> (e = None \<longleftrightarrow> (b \<longrightarrow> P) \<and> Q)"
  using assms by (cases b) auto

lemma first_error_last:
  assumes "b \<Longrightarrow> \<exists>e. check = Some e \<and> (e = None \<longleftrightarrow> P)"
  shows "\<exists>e. first_error [(b, check)] = Some e \<and> (e = None \<longleftrightarrow> (b \<longrightarrow> P))"
  using assms by (cases b) auto

section \<open>The merges\<close>

lemma strcpy_eq:
  assumes "terminated src" and "length (cstr src) < length dst"
  shows "\<exists>d. strcpy dst src = Some d \<and> length d = length dst \<and> cstr d = cstr src \<and> terminated d"
proof -
  obtain t where t: "src = cstr src @ 0 # t" using cstr_split_ex[OF assms(1)] by blast
  have tk: "take (length (cstr src) + 1) src = cstr src @ [0]"
    by (subst t) simp
  have "length (cstr src) + 1 \<le> length src" using length_cstr_less[OF assms(1)] by simp
  then have "strcpy dst src = Some (cstr src @ 0 # drop (length (cstr src) + 1) dst)"
    using assms tk by (simp add: strcpy_def strlen_eq memcpy_def)
  then show ?thesis using assms(2) by (simp add: cstr_no_nul)
qed

lemma cstr_nul_first: "a \<noteq> [] \<Longrightarrow> cstr (a[0 := 0]) = [] \<and> terminated (a[0 := 0])"
  by (cases a) (simp_all add: cstr_Cons terminated_def)

text \<open>The password in force after the update.\<close>

definition psk_wanted :: "bool \<Rightarrow> bool \<Rightarrow> byte list \<Rightarrow> byte list \<Rightarrow> byte list" where
  "psk_wanted clear has_psk new_psk old =
     (if clear then [] else if has_psk \<and> cstr new_psk \<noteq> [] then cstr new_psk else cstr old)"

lemma merge_psk_eq:
  assumes "c_array 63 old" and "has_psk \<Longrightarrow> terminated new_psk \<and> psk_fits new_psk" and "psk_ok old"
  shows "\<exists>d. merge_psk clear has_psk new_psk old = Some d \<and> c_array 63 d \<and> psk_ok d \<and>
    cstr d = psk_wanted clear has_psk new_psk old"
proof -
  have old: "length old = 64" "old \<noteq> []" using assms(1) by (auto simp: c_array_def)
  consider "clear" | "\<not> clear" "\<not> has_psk" | "\<not> clear" "has_psk" "cstr new_psk = []"
    | "\<not> clear" "has_psk" "cstr new_psk \<noteq> []" by blast
  then show ?thesis
  proof cases
    case 1
    then show ?thesis using old cstr_nul_first[OF old(2)] by (simp add: merge_psk_def c_array_def psk_ok_def psk_wanted_def)
  next
    case 2
    then show ?thesis using assms by (simp add: merge_psk_def psk_wanted_def)
  next
    case 3
    then show ?thesis using assms first_nul[of new_psk] by (auto simp: merge_psk_def psk_wanted_def)
  next
    case 4
    then have n: "terminated new_psk" "psk_fits new_psk" using assms(2) by auto
    then obtain d where "strcpy old new_psk = Some d" "length d = length old" "cstr d = cstr new_psk" "terminated d"
      using strcpy_eq[of new_psk old] old by (auto simp: psk_fits_def)
    then show ?thesis
      using 4 n first_nul[of new_psk] old by (auto simp: merge_psk_def psk_wanted_def c_array_def psk_fits_def psk_ok_def)
  qed
qed

text \<open>The settings in force after an accepted update, as \<open>eff\<close> shows them.\<close>

definition wanted_sta :: "int \<Rightarrow> config_payload \<Rightarrow> bridge_config_sta \<Rightarrow> bridge_config_sta" where
  "wanted_sta fs p s = s\<lparr>
     sta_enabled := (if has_field fs CONFIG_FIELD_STA_ENABLED then pl_sta_enabled p else sta_enabled s),
     rotate_mac := (if has_field fs CONFIG_FIELD_STA_ROTATE_MAC then pl_sta_rotate_mac p else rotate_mac s),
     sta_ssid := zpad 33 (if has_field fs CONFIG_FIELD_STA_SSID then pl_sta_ssid p else sta_ssid s),
     sta_psk := zpad 64 (psk_wanted (has_field fs CONFIG_FIELD_STA_PSK_CLEAR \<and> pl_sta_psk_clear p)
       (has_field fs CONFIG_FIELD_STA_PSK) (pl_sta_psk p) (sta_psk s))\<rparr>"

definition wanted_ap :: "int \<Rightarrow> config_payload \<Rightarrow> bridge_config_ap \<Rightarrow> bridge_config_ap" where
  "wanted_ap fs p a = a\<lparr>
     ap_ssid := zpad 33 (if has_field fs CONFIG_FIELD_AP_SSID then pl_ap_ssid p else ap_ssid a),
     ap_psk := zpad 64 (psk_wanted (has_field fs CONFIG_FIELD_AP_PSK_CLEAR \<and> pl_ap_psk_clear p)
       (has_field fs CONFIG_FIELD_AP_PSK) (pl_ap_psk p) (ap_psk a))\<rparr>"

definition wanted_system :: "int \<Rightarrow> config_payload \<Rightarrow> bridge_config_system \<Rightarrow> bridge_config_system" where
  "wanted_system fs p y = y\<lparr>
     hostname := zpad 33 (if has_field fs CONFIG_FIELD_HOSTNAME then pl_hostname p else hostname y)\<rparr>"

definition wanted_tcp :: "int \<Rightarrow> config_payload \<Rightarrow> bridge_config_tcp_client \<Rightarrow> bridge_config_tcp_client" where
  "wanted_tcp fs p t = t\<lparr>
     tcp_enabled := (if has_field fs CONFIG_FIELD_TCP_CLIENT_ENABLED then pl_tcp_client_enabled p else tcp_enabled t),
     tcp_host := zpad 16 (if has_field fs CONFIG_FIELD_TCP_CLIENT_HOST then pl_tcp_client_host p else tcp_host t),
     tcp_port := (if has_field fs CONFIG_FIELD_TCP_CLIENT_PORT then of_int (pl_tcp_client_port p) else tcp_port t)\<rparr>"

text \<open>What is true of an update that passed the checks.\<close>

definition update_accepted :: "int \<Rightarrow> config_payload \<Rightarrow> bool" where
  "update_accepted fs p \<longleftrightarrow>
     (has_field fs CONFIG_FIELD_AIS_OWN_MMSI \<longrightarrow> 0 \<le> pl_ais_own_mmsi p \<and> pl_ais_own_mmsi p \<le> 999999999) \<and>
     (has_field fs CONFIG_FIELD_STA_SSID \<longrightarrow> ssid_fits (pl_sta_ssid p)) \<and>
     (has_field fs CONFIG_FIELD_STA_PSK \<longrightarrow> psk_fits (pl_sta_psk p)) \<and>
     (has_field fs CONFIG_FIELD_STA_PSK_CLEAR \<longrightarrow> \<not> (pl_sta_psk_clear p \<and> has_field fs CONFIG_FIELD_STA_PSK \<and>
        cstr (pl_sta_psk p) \<noteq> [])) \<and>
     (has_field fs CONFIG_FIELD_AP_SSID \<longrightarrow> ssid_fits (pl_ap_ssid p)) \<and>
     (has_field fs CONFIG_FIELD_AP_PSK \<longrightarrow> psk_fits (pl_ap_psk p)) \<and>
     (has_field fs CONFIG_FIELD_AP_PSK_CLEAR \<longrightarrow> \<not> (pl_ap_psk_clear p \<and> has_field fs CONFIG_FIELD_AP_PSK \<and>
        cstr (pl_ap_psk p) \<noteq> [])) \<and>
     (has_field fs CONFIG_FIELD_HOSTNAME \<longrightarrow> hostname_fits (pl_hostname p)) \<and>
     (has_field fs CONFIG_FIELD_TCP_CLIENT_HOST \<longrightarrow> host_fits (pl_tcp_client_host p)) \<and>
     (has_field fs CONFIG_FIELD_TCP_CLIENT_PORT \<longrightarrow> 1 \<le> pl_tcp_client_port p \<and> pl_tcp_client_port p \<le> 65535)"

lemma mmsi_check:
  fixes i :: int
  assumes "- (2 ^ 31) \<le> i" and "i < 2 ^ 31"
  shows "\<not> (i < 0 \<or> (of_int i :: u32) > BRIDGE_CONFIG_AIS_MMSI_MAX) \<longleftrightarrow> 0 \<le> i \<and> i \<le> 999999999"
proof (cases "0 \<le> i")
  case True
  then have "uint (of_int i :: u32) = i" using assms by (simp add: uint_word_of_int mod_pos_pos_trivial)
  then show ?thesis using True by (simp add: word_less_def BRIDGE_CONFIG_AIS_MMSI_MAX_def not_less)
qed simp

lemma check_payload_eq:
  assumes "payload_ok fs p"
  shows "\<exists>e. check_payload fs p = Some e \<and> (e = None \<longleftrightarrow> update_accepted fs p)"
  using assms mmsi_check[of "pl_ais_own_mmsi p"]
  unfolding check_payload_def update_accepted_def
  by (intro first_error_step first_error_last check_ssid_eq check_psk_eq check_psk_clear_eq check_hostname_eq check_host_eq)
    (auto simp: payload_ok_def)

lemma has_field_OR: "has_field fs (a OR b) \<longleftrightarrow> has_field fs a \<or> has_field fs b"
  by (simp add: has_field_def bit.conj_disj_distrib or_eq_0_iff)

lemmas has_fields = CONFIG_FIELDS_AIS_def CONFIG_FIELDS_STA_def CONFIG_FIELDS_TCP_def CONFIG_FIELDS_AP_def has_field_OR

lemma zpad_cong: "cstr a = cstr b \<Longrightarrow> zpad n a = zpad n b"
  by (simp add: zpad_def)

lemma strcpy_array:
  assumes "terminated src" and "length (cstr src) \<le> n" and "c_array n dst"
  shows "\<exists>d. strcpy dst src = Some d \<and> c_array n d \<and> cstr d = cstr src"
  using strcpy_eq[of src dst] assms by (auto simp: c_array_def)

lemma cstr_psk_wanted [simp]: "cstr (psk_wanted c h new old) = psk_wanted c h new old"
  by (simp add: psk_wanted_def cstr_no_nul)

lemma psk_wanted_cong: "cstr a = cstr b \<Longrightarrow> psk_wanted c h new a = psk_wanted c h new b"
  by (simp add: psk_wanted_def)

text \<open>The merged settings are valid and are the wanted ones.\<close>

lemma merge_sta_eq:
  assumes ok: "payload_ok fs p" "update_accepted fs p" "sta_ok s"
  shows "\<exists>x. merge_sta fs p s = Some x \<and>
    (case x of
       Inl fm \<Rightarrow> has_field fs CONFIG_FIELD_STA_ENABLED \<and> pl_sta_enabled p \<and> cstr (sta_ssid (wanted_sta fs p s)) = []
     | Inr n \<Rightarrow> sta_ok n \<and> sta_sized n \<and> sta_norm n = wanted_sta fs p s \<and>
         \<not> (has_field fs CONFIG_FIELD_STA_ENABLED \<and> pl_sta_enabled p \<and> cstr (sta_ssid (wanted_sta fs p s)) = []))"
proof -
  have a: "c_array 32 (sta_ssid s)" "c_array 63 (sta_psk s)" "psk_ok (sta_psk s)"
    using ok(3) by (simp_all add: sta_ok_def)
  obtain ssid where ssid: "(if has_field fs CONFIG_FIELD_STA_SSID then strcpy (sta_ssid s) (pl_sta_ssid p) else Some (sta_ssid s)) = Some ssid"
    "c_array 32 ssid" "cstr ssid = cstr (if has_field fs CONFIG_FIELD_STA_SSID then pl_sta_ssid p else sta_ssid s)"
    "text_ok (map unat (cstr ssid))"
  proof (cases "has_field fs CONFIG_FIELD_STA_SSID")
    case True
    then have t: "terminated (pl_sta_ssid p)" "ssid_fits (pl_sta_ssid p)"
      using ok by (auto simp: payload_ok_def update_accepted_def)
    then obtain d where "strcpy (sta_ssid s) (pl_sta_ssid p) = Some d" "c_array 32 d" "cstr d = cstr (pl_sta_ssid p)"
      using strcpy_array[OF t(1) _ a(1)] by (auto simp: ssid_fits_def)
    then show ?thesis using that[of d] True t by (simp add: ssid_fits_def)
  next
    case False
    then show ?thesis using that[of "sta_ssid s"] a ok(3) by (simp add: sta_ok_def)
  qed
  have pk: "terminated (pl_sta_psk p) \<and> psk_fits (pl_sta_psk p)" if "has_field fs CONFIG_FIELD_STA_PSK"
    using ok(1,2) that by (simp add: payload_ok_def update_accepted_def)
  let ?clear = "has_field fs CONFIG_FIELD_STA_PSK_CLEAR \<and> pl_sta_psk_clear p"
  obtain psk where psk: "merge_psk ?clear (has_field fs CONFIG_FIELD_STA_PSK) (pl_sta_psk p) (sta_psk s) = Some psk"
    "c_array 63 psk" "psk_ok psk" "cstr psk = psk_wanted ?clear (has_field fs CONFIG_FIELD_STA_PSK) (pl_sta_psk p) (sta_psk s)"
    using merge_psk_eq[where clear = ?clear, OF a(2) pk a(3)] by blast
  have psk4: "cstr psk = cstr (psk_wanted ?clear (has_field fs CONFIG_FIELD_STA_PSK) (pl_sta_psk p) (sta_psk s))"
    using psk(4) by simp
  define n where "n = s\<lparr>
    sta_enabled := (if has_field fs CONFIG_FIELD_STA_ENABLED then pl_sta_enabled p else sta_enabled s),
    rotate_mac := (if has_field fs CONFIG_FIELD_STA_ROTATE_MAC then pl_sta_rotate_mac p else rotate_mac s),
    sta_ssid := ssid, sta_psk := psk\<rparr>"
  have "sta_ok n" "sta_sized n" using ssid psk by (auto simp: n_def sta_ok_def sta_sized_def c_array_def)
  moreover have "sta_norm n = wanted_sta fs p s"
    unfolding n_def sta_norm_def wanted_sta_def zpad_cong[OF ssid(3), symmetric] zpad_cong[OF psk4, symmetric] by simp
  moreover have "terminated ssid" using ssid(2) by (simp add: c_array_def)
  then obtain c0 where c0: "rd ssid 0 = Some c0" "c0 = 0 \<longleftrightarrow> cstr ssid = []" using first_nul by blast
  moreover have "merge_sta fs p s =
    Some (if has_field fs CONFIG_FIELD_STA_ENABLED \<and> pl_sta_enabled p \<and> c0 = 0
          then Inl (''sta_ssid'', ''required when enabling station mode'') else Inr n)"
    using ssid(1) psk(1) c0(1)
    by (cases "has_field fs CONFIG_FIELD_STA_SSID"; cases "has_field fs CONFIG_FIELD_STA_ENABLED";
        cases "has_field fs CONFIG_FIELD_STA_ROTATE_MAC"; simp add: merge_sta_def n_def Let_def)
  ultimately show ?thesis using ssid(3) by (auto simp: wanted_sta_def)
qed

lemma merge_ap_eq:
  assumes ok: "payload_ok fs p" "update_accepted fs p" "ap_ok a"
  shows "\<exists>n. merge_ap fs p a = Some n \<and> ap_ok n \<and> ap_sized n \<and> ap_norm n = wanted_ap fs p a"
proof -
  have a: "c_array 32 (ap_ssid a)" "c_array 63 (ap_psk a)" "psk_ok (ap_psk a)"
    using ok(3) by (simp_all add: ap_ok_def)
  obtain ssid where ssid: "(if has_field fs CONFIG_FIELD_AP_SSID then strcpy (ap_ssid a) (pl_ap_ssid p) else Some (ap_ssid a)) = Some ssid"
    "c_array 32 ssid" "cstr ssid = cstr (if has_field fs CONFIG_FIELD_AP_SSID then pl_ap_ssid p else ap_ssid a)"
    "text_ok (map unat (cstr ssid))" "cstr ssid \<noteq> []"
  proof (cases "has_field fs CONFIG_FIELD_AP_SSID")
    case True
    then have t: "terminated (pl_ap_ssid p)" "ssid_fits (pl_ap_ssid p)"
      using ok by (auto simp: payload_ok_def update_accepted_def)
    then obtain d where "strcpy (ap_ssid a) (pl_ap_ssid p) = Some d" "c_array 32 d" "cstr d = cstr (pl_ap_ssid p)"
      using strcpy_array[OF t(1) _ a(1)] by (auto simp: ssid_fits_def)
    then show ?thesis using that[of d] True t by (simp add: ssid_fits_def)
  next
    case False
    then show ?thesis using that[of "ap_ssid a"] a ok(3) by (simp add: ap_ok_def)
  qed
  have pk: "terminated (pl_ap_psk p) \<and> psk_fits (pl_ap_psk p)" if "has_field fs CONFIG_FIELD_AP_PSK"
    using ok(1,2) that by (simp add: payload_ok_def update_accepted_def)
  let ?clear = "has_field fs CONFIG_FIELD_AP_PSK_CLEAR \<and> pl_ap_psk_clear p"
  obtain psk where psk: "merge_psk ?clear (has_field fs CONFIG_FIELD_AP_PSK) (pl_ap_psk p) (ap_psk a) = Some psk"
    "c_array 63 psk" "psk_ok psk" "cstr psk = psk_wanted ?clear (has_field fs CONFIG_FIELD_AP_PSK) (pl_ap_psk p) (ap_psk a)"
    using merge_psk_eq[where clear = ?clear, OF a(2) pk a(3)] by blast
  have psk4: "cstr psk = cstr (psk_wanted ?clear (has_field fs CONFIG_FIELD_AP_PSK) (pl_ap_psk p) (ap_psk a))"
    using psk(4) by simp
  let ?n = "a\<lparr>ap_ssid := ssid, ap_psk := psk\<rparr>"
  have "ap_ok ?n" "ap_sized ?n" using ssid psk by (auto simp: ap_ok_def ap_sized_def c_array_def)
  moreover have "ap_norm ?n = wanted_ap fs p a"
    unfolding ap_norm_def wanted_ap_def zpad_cong[OF ssid(3), symmetric] zpad_cong[OF psk4, symmetric] by simp
  ultimately show ?thesis using ssid(1) psk(1) by (simp add: merge_ap_def)
qed

lemma merge_ais_eq:
  assumes "update_accepted fs p" and "ais_ok a"
  shows "ais_ok (merge_ais fs p a)"
proof (cases "has_field fs CONFIG_FIELD_AIS_OWN_MMSI")
  case True
  then have "0 \<le> pl_ais_own_mmsi p" "pl_ais_own_mmsi p \<le> 999999999" using assms(1) by (auto simp: update_accepted_def)
  then show ?thesis using True mmsi_check[of "pl_ais_own_mmsi p"] by (auto simp: merge_ais_def ais_ok_def not_less)
qed (use assms(2) in \<open>simp add: merge_ais_def ais_ok_def\<close>)

lemma merge_tcp_eq:
  assumes ok: "payload_ok fs p" "update_accepted fs p" "tcp_ok t"
  shows "\<exists>n. merge_tcp fs p t = Some n \<and> tcp_ok n \<and> tcp_sized n \<and> tcp_norm n = wanted_tcp fs p t"
proof -
  have a: "c_array 15 (tcp_host t)" "cstr (tcp_host t) = [] \<or> host_ok (cstr (tcp_host t)) 0" "tcp_port t \<noteq> 0"
    using ok(3) by (simp_all add: tcp_ok_def)
  obtain host where host: "(if has_field fs CONFIG_FIELD_TCP_CLIENT_HOST then strcpy (tcp_host t) (pl_tcp_client_host p) else Some (tcp_host t)) = Some host"
    "c_array 15 host" "cstr host = cstr (if has_field fs CONFIG_FIELD_TCP_CLIENT_HOST then pl_tcp_client_host p else tcp_host t)"
    "cstr host = [] \<or> host_ok (cstr host) 0"
  proof (cases "has_field fs CONFIG_FIELD_TCP_CLIENT_HOST")
    case True
    then have h: "terminated (pl_tcp_client_host p)" "host_fits (pl_tcp_client_host p)"
      using ok by (auto simp: payload_ok_def update_accepted_def)
    then obtain d where "strcpy (tcp_host t) (pl_tcp_client_host p) = Some d" "c_array 15 d" "cstr d = cstr (pl_tcp_client_host p)"
      using strcpy_array[OF h(1) _ a(1)] by (auto simp: host_fits_def)
    then show ?thesis using that[of d] True h by (simp add: host_fits_def)
  next
    case False
    then show ?thesis using that[of "tcp_host t"] a by simp
  qed
  have port: "(of_int (pl_tcp_client_port p) :: u16) \<noteq> 0" if "has_field fs CONFIG_FIELD_TCP_CLIENT_PORT"
  proof -
    have "1 \<le> pl_tcp_client_port p" "pl_tcp_client_port p \<le> 65535" using ok(2) that by (auto simp: update_accepted_def)
    then have "uint (of_int (pl_tcp_client_port p) :: u16) = pl_tcp_client_port p"
      by (simp add: uint_word_of_int mod_pos_pos_trivial)
    then show ?thesis using \<open>1 \<le> pl_tcp_client_port p\<close> by auto
  qed
  define n where "n = t\<lparr>
    tcp_enabled := (if has_field fs CONFIG_FIELD_TCP_CLIENT_ENABLED then pl_tcp_client_enabled p else tcp_enabled t),
    tcp_host := host,
    tcp_port := (if has_field fs CONFIG_FIELD_TCP_CLIENT_PORT then of_int (pl_tcp_client_port p) else tcp_port t)\<rparr>"
  have "tcp_ok n" "tcp_sized n" using host port a(3) by (auto simp: n_def tcp_ok_def tcp_sized_def c_array_def)
  moreover have "tcp_norm n = wanted_tcp fs p t"
    unfolding n_def tcp_norm_def wanted_tcp_def using zpad_cong[OF host(3), of 16] by simp
  moreover have "merge_tcp fs p t = Some n" using host(1) by (cases "has_field fs CONFIG_FIELD_TCP_CLIENT_HOST") (auto simp: merge_tcp_def n_def Let_def)
  ultimately show ?thesis by blast
qed

lemma merge_hostname_eq:
  assumes ok: "payload_ok fs p" "update_accepted fs p" "system_ok y" and h: "has_field fs CONFIG_FIELD_HOSTNAME"
  shows "\<exists>d. strcpy (hostname y) (pl_hostname p) = Some d \<and> system_ok (y\<lparr>hostname := d\<rparr>) \<and>
    system_sized (y\<lparr>hostname := d\<rparr>) \<and> system_norm (y\<lparr>hostname := d\<rparr>) = wanted_system fs p y"
proof -
  have t: "terminated (pl_hostname p)" "hostname_fits (pl_hostname p)"
    using ok h by (auto simp: payload_ok_def update_accepted_def)
  have "c_array 32 (hostname y)" using ok(3) by (simp add: system_ok_def)
  from strcpy_array[OF t(1) _ this] t(2) obtain d where d: "strcpy (hostname y) (pl_hostname p) = Some d" "c_array 32 d"
    "cstr d = cstr (pl_hostname p)" by (auto simp: hostname_fits_def)
  then show ?thesis using t h zpad_cong[OF d(3), of 33]
    by (simp add: system_ok_def system_sized_def system_norm_def wanted_system_def hostname_fits_def c_array_def)
qed

section \<open>An update with a store that works\<close>

text \<open>A store that accepts every save, as long as the flash is not worn out or full.\<close>

definition store_works :: "'s settings_ops \<Rightarrow> ('s \<Rightarrow> bool) \<Rightarrow> bool" where
  "store_works ops sok \<longleftrightarrow> (\<forall>k v s. sok s \<longrightarrow> fst (cfg_settings_save_one ops k v s) = 0)"

definition wanted :: "int \<Rightarrow> config_payload \<Rightarrow> settings \<Rightarrow> settings" where
  "wanted fs p x = (case x of (a, s, w, y, t) \<Rightarrow>
     (merge_ais fs p a, wanted_sta fs p s, wanted_ap fs p w, wanted_system fs p y, wanted_tcp fs p t))"

context settings_store
begin

lemma setter_works:
  assumes "config_inv d view sok c" and works: "store_works ops sok" and "valid"
    and u: "upd_ok d key record upd c"
    and E: "\<And>s. eff (upd (c\<lparr>store := s\<rparr>)) = E" "same \<Longrightarrow> eff c = E"
  shows "\<exists>c'. setter_result ops key record valid same upd c = Some (0, c') \<and> config_inv d view sok c' \<and> eff c' = E"
proof -
  obtain r c' where e: "setter_result ops key record valid same upd c = Some (r, c')"
    using setter_total by blast
  have so: "sok (store c)" using assms(1) by (simp add: config_inv_def)
  obtain r1 s where save: "cfg_settings_save_one ops key record (store c) = (r1, s)" by fastforce
  then have "r1 = 0" using works so unfolding store_works_def by (metis fst_conv)
  then have "r = 0" using e save \<open>valid\<close> by (auto simp: setter_result_def split: if_splits)
  moreover have "eff c' = E"
    using e so
  proof (cases rule: setter_cases)
    case (saved s)
    then show ?thesis using E(1)[of s] by simp
  qed (use \<open>valid\<close> \<open>r = 0\<close> E(2) in auto)
  ultimately show ?thesis using e setter_inv[OF e assms(1) u] by blast
qed

lemma set_ais_works:
  assumes "config_inv d view sok c" and "store_works ops sok" and "ais_ok n"
  shows "\<exists>c'. bridge_config_set_ais ops (Some n) c = Some (0, c') \<and> config_inv d view sok c' \<and>
    eff c' = (n, snd (eff c))"
proof -
  have ok: "config_ok c" using assms by (simp add: config_inv_def)
  show ?thesis unfolding set_ais_eq
    by (rule setter_works[OF assms(1,2,3) upd_oks(1)[OF ok assms(3)]]) (simp_all add: eff_def)
qed

lemma set_sta_works:
  assumes "config_inv d view sok c" and "store_works ops sok" and "sta_ok n" and "sta_sized n"
  shows "\<exists>c'. bridge_config_set_sta ops (Some n) c = Some (0, c') \<and> config_inv d view sok c' \<and>
    eff c' = (fst (eff c), sta_norm n, snd (snd (eff c)))"
proof -
  have ok: "config_ok c" "sta_ok (sta c)" using assms by (simp_all add: config_inv_def config_ok_def)
  show ?thesis unfolding set_sta_eq[OF ok(2) assms(4)]
    by (rule setter_works[OF assms(1,2,3) upd_oks(2)[OF ok(1) assms(3)]]) (simp_all add: eff_def)
qed

lemma set_ap_works:
  assumes "config_inv d view sok c" and "store_works ops sok" and "ap_ok n" and "ap_sized n"
  shows "\<exists>c'. bridge_config_set_ap ops (Some n) c = Some (0, c') \<and> config_inv d view sok c' \<and>
    eff c' = (fst (eff c), fst (snd (eff c)), ap_norm n, snd (snd (snd (eff c))))"
proof -
  have ok: "config_ok c" "ap_ok (ap c)" using assms by (simp_all add: config_inv_def config_ok_def)
  show ?thesis unfolding set_ap_eq[OF ok(2) assms(4)]
    by (rule setter_works[OF assms(1,2,3) upd_oks(3)[OF ok(1) assms(3)]]) (simp_all add: eff_def)
qed

lemma set_system_works:
  assumes "config_inv d view sok c" and "store_works ops sok" and "system_ok n" and "system_sized n"
  shows "\<exists>c'. bridge_config_set_system ops (Some n) c = Some (0, c') \<and> config_inv d view sok c' \<and>
    eff c' = (fst (eff c), fst (snd (eff c)), fst (snd (snd (eff c))), system_norm n, snd (snd (snd (snd (eff c)))))"
proof -
  have ok: "config_ok c" "system_ok (system_cfg c)" using assms by (simp_all add: config_inv_def config_ok_def)
  show ?thesis unfolding set_system_eq[OF ok(2) assms(4)]
    by (rule setter_works[OF assms(1,2,3) upd_oks(4)[OF ok(1) assms(3)]]) (simp_all add: eff_def)
qed

lemma set_tcp_works:
  assumes "config_inv d view sok c" and "store_works ops sok" and "tcp_ok n" and "tcp_sized n"
  shows "\<exists>c'. bridge_config_set_tcp_client ops (Some n) c = Some (0, c') \<and> config_inv d view sok c' \<and>
    eff c' = (fst (eff c), fst (snd (eff c)), fst (snd (snd (eff c))), fst (snd (snd (snd (eff c)))), tcp_norm n)"
proof -
  have ok: "config_ok c" "tcp_ok (tcp_client c)" using assms by (simp_all add: config_inv_def config_ok_def)
  show ?thesis unfolding set_tcp_eq[OF ok(2) assms(4)]
    by (rule setter_works[OF assms(1,2,3) upd_oks(5)[OF ok(1) assms(3)]]) (simp_all add: eff_def)
qed

text \<open>One step of the saving: the settings it leaves, whether it applies or not.\<close>

lemma save_step_works:
  assumes i: "config_inv d view sok c" and e: "eff c = E"
    and set: "b \<Longrightarrow> \<exists>c'. setter c = Some (0, c') \<and> config_inv d view sok c' \<and> eff c' = E'" and skip: "\<not> b \<Longrightarrow> E' = E"
    and rest: "\<And>c'. config_inv d view sok c' \<Longrightarrow> eff c' = E' \<Longrightarrow>
      \<exists>c2. rest c' = Some (Config_saved, c2) \<and> config_inv d view sok c2 \<and> eff c2 = X"
  shows "\<exists>c2. save_step b setter msg rest c = Some (Config_saved, c2) \<and> config_inv d view sok c2 \<and> eff c2 = X"
  using assms by (cases b) (fastforce simp: save_step_def)+

end

text \<open>Fields that are not in the body change nothing.\<close>

lemma wanted_unchanged:
  "\<not> has_field fs CONFIG_FIELDS_AIS \<Longrightarrow> merge_ais fs p a = a"
  "\<not> has_field fs CONFIG_FIELDS_STA \<Longrightarrow> wanted_sta fs p (sta_norm s) = sta_norm s"
  "\<not> has_field fs CONFIG_FIELDS_AP \<Longrightarrow> wanted_ap fs p (ap_norm w) = ap_norm w"
  "\<not> has_field fs CONFIG_FIELD_HOSTNAME \<Longrightarrow> wanted_system fs p (system_norm y) = system_norm y"
  "\<not> has_field fs CONFIG_FIELDS_TCP \<Longrightarrow> wanted_tcp fs p (tcp_norm t) = tcp_norm t"
  by (auto simp: has_fields merge_ais_def wanted_sta_def wanted_ap_def wanted_system_def wanted_tcp_def psk_wanted_def
      sta_norm_def ap_norm_def system_norm_def tcp_norm_def) (simp_all add: zpad_def cstr_no_nul)

text \<open>Padding an array does not change what is wanted.\<close>

lemma wanted_norm:
  "wanted_sta fs p (sta_norm s) = wanted_sta fs p s" "wanted_ap fs p (ap_norm w) = wanted_ap fs p w"
  "wanted_system fs p (system_norm y) = wanted_system fs p y" "wanted_tcp fs p (tcp_norm t) = wanted_tcp fs p t"
  by (simp_all add: wanted_sta_def wanted_ap_def wanted_system_def wanted_tcp_def psk_wanted_def
      sta_norm_def ap_norm_def system_norm_def tcp_norm_def)

context settings_store
begin

lemma save_update_works:
  assumes i: "config_inv d view sok c" and works: "store_works ops sok" and p: "payload_ok fs p" "update_accepted fs p"
    and s: "sta_ok s" "sta_sized s" "sta_norm s = wanted_sta fs p (sta c)"
    and a: "ap_ok a" "ap_sized a" "ap_norm a = wanted_ap fs p (ap c)"
    and y: "system_ok y" "system_sized y" "system_norm y = wanted_system fs p (system_cfg c)"
  shows "\<exists>c'. save_update ops fs p s a y c = Some (Config_saved, c') \<and> config_inv d view sok c' \<and>
    eff c' = wanted fs p (eff c)"
proof -
  have ok: "config_ok c" using i by (simp add: config_inv_def)
  define e0 where "e0 = eff c"
  define ea where "ea = (merge_ais fs p (fst e0), snd e0)"
  define et where "et = (fst ea, fst (snd ea), fst (snd (snd ea)), fst (snd (snd (snd ea))), wanted_tcp fs p (snd (snd (snd (snd ea)))))"
  define es where "es = (fst et, wanted_sta fs p (fst (snd et)), snd (snd et))"
  define ew where "ew = (fst es, fst (snd es), wanted_ap fs p (fst (snd (snd es))), snd (snd (snd es)))"
  define ey where "ey = (fst ew, fst (snd ew), fst (snd (snd ew)), wanted_system fs p (fst (snd (snd (snd ew)))), snd (snd (snd (snd ew))))"
  note es_defs = e0_def ea_def et_def es_def ew_def ey_def eff_def
  have ais: "ais_ok (merge_ais fs p (ais c))" using merge_ais_eq[OF p(2)] ok by (simp add: config_ok_def)
  have A: "\<exists>c'. bridge_config_set_ais ops (Some (merge_ais fs p (bridge_config_get_ais c))) c = Some (0, c') \<and>
      config_inv d view sok c' \<and> eff c' = ea"
    using set_ais_works[OF i works ais] by (simp add: bridge_config_get_ais_def es_defs)
  have T: "\<exists>c'. (merge_tcp fs p (bridge_config_get_tcp_client c1) \<bind> (\<lambda>t. bridge_config_set_tcp_client ops (Some t) c1)) =
      Some (0, c') \<and> config_inv d view sok c' \<and> eff c' = et"
    if i1: "config_inv d view sok c1" and e1: "eff c1 = ea" for c1
  proof -
    have t: "tcp_ok (tcp_client c1)" using i1 by (simp add: config_inv_def config_ok_def)
    obtain n where n: "merge_tcp fs p (tcp_client c1) = Some n" "tcp_ok n" "tcp_sized n" "tcp_norm n = wanted_tcp fs p (tcp_client c1)"
      using merge_tcp_eq[OF p t] by blast
    have "wanted_tcp fs p (tcp_client c1) = wanted_tcp fs p (snd (snd (snd (snd ea))))"
      using e1[symmetric] by (simp add: eff_def wanted_norm)
    then show ?thesis
      using set_tcp_works[OF i1 works n(2,3)] n by (simp add: bridge_config_get_tcp_client_def e1 et_def)
  qed
  have S: "\<exists>c'. bridge_config_set_sta ops (Some s) c2 = Some (0, c') \<and> config_inv d view sok c' \<and> eff c' = es"
    if "config_inv d view sok c2" and "eff c2 = et" for c2
    using set_sta_works[OF that(1) works s(1,2)] that(2) s(3) by (simp add: es_defs wanted_norm)
  have P: "\<exists>c'. bridge_config_set_ap ops (Some a) c3 = Some (0, c') \<and> config_inv d view sok c' \<and> eff c' = ew"
    if "config_inv d view sok c3" and "eff c3 = es" for c3
    using set_ap_works[OF that(1) works a(1,2)] that(2) a(3) by (simp add: es_defs wanted_norm)
  have Y: "\<exists>c'. bridge_config_set_system ops (Some y) c4 = Some (0, c') \<and> config_inv d view sok c' \<and> eff c' = ey"
    if "config_inv d view sok c4" and "eff c4 = ew" for c4
    using set_system_works[OF that(1) works y(1,2)] that(2) y(3) by (simp add: es_defs wanted_norm)
  have skip: "\<not> has_field fs CONFIG_FIELDS_AIS \<Longrightarrow> ea = e0" "\<not> has_field fs CONFIG_FIELDS_TCP \<Longrightarrow> et = ea"
    "\<not> has_field fs CONFIG_FIELDS_STA \<Longrightarrow> es = et" "\<not> has_field fs CONFIG_FIELDS_AP \<Longrightarrow> ew = es"
    "\<not> has_field fs CONFIG_FIELD_HOSTNAME \<Longrightarrow> ey = ew"
    by (simp_all add: es_defs wanted_unchanged)
  have "\<exists>c2. save_update ops fs p s a y c = Some (Config_saved, c2) \<and> config_inv d view sok c2 \<and> eff c2 = ey"
    unfolding save_update_def
    by (rule save_step_works[OF i e0_def[symmetric], where E' = ea], rule A, rule skip(1), assumption,
        rule save_step_works[where E = ea and E' = et], assumption, assumption, rule T, assumption, assumption,
        rule skip(2), assumption,
        rule save_step_works[where E = et and E' = es], assumption, assumption, rule S, assumption, assumption,
        rule skip(3), assumption,
        rule save_step_works[where E = es and E' = ew], assumption, assumption, rule P, assumption, assumption,
        rule skip(4), assumption,
        rule save_step_works[where E = ew and E' = ey], assumption, assumption, rule Y, assumption, assumption,
        rule skip(5), assumption,
        simp)
  moreover have "ey = wanted fs p (eff c)" by (simp add: es_defs wanted_def)
  ultimately show ?thesis by simp
qed

end

text \<open>A valid payload whose only fault is to enable the station although no SSID is known.\<close>

definition ssid_missing :: "int \<Rightarrow> config_payload \<Rightarrow> settings \<Rightarrow> bool" where
  "ssid_missing fs p x \<longleftrightarrow> has_field fs CONFIG_FIELD_STA_ENABLED \<and> pl_sta_enabled p \<and>
     cstr (sta_ssid (fst (snd (wanted fs p x)))) = []"

text \<open>A reply whose text fits its array.\<close>

definition reply_fits :: "config_reply \<Rightarrow> bool" where
  "reply_fits r \<longleftrightarrow>
     (case r of
        Field_error f m \<Rightarrow> length f + length m \<le> 90 \<and> 0 \<notin> set (bytes_of (f @ m))
      | Save_failed m \<Rightarrow> length m \<le> 90 \<and> 0 \<notin> set (bytes_of m)
      | _ \<Rightarrow> True)"

context settings_store
begin

text \<open>What the checks and merges come to: a refusal, or three structures that the setters will accept.\<close>

lemma apply_update_split:
  assumes i: "config_inv d view sok c" and p: "payload_ok fs p"
  shows "(\<exists>f m. apply_update ops fs p c = Some (Field_error f m, c) \<and>
      \<not> (update_accepted fs p \<and> \<not> ssid_missing fs p (eff c)) \<and>
      (check_payload fs p = Some (Some (f, m)) \<or> f = ''sta_ssid'' \<and> m = ''required when enabling station mode'')) \<or>
    (\<exists>s a y. apply_update ops fs p c = save_update ops fs p s a y c \<and>
      update_accepted fs p \<and> \<not> ssid_missing fs p (eff c) \<and>
      sta_ok s \<and> sta_sized s \<and> sta_norm s = wanted_sta fs p (sta c) \<and>
      ap_ok a \<and> ap_sized a \<and> ap_norm a = wanted_ap fs p (ap c) \<and>
      system_ok y \<and> system_sized y \<and> system_norm y = wanted_system fs p (system_cfg c))"
proof -
  have ok: "sta_ok (sta c)" "ap_ok (ap c)" "system_ok (system_cfg c)"
    using i by (simp_all add: config_inv_def config_ok_def)
  obtain e where e: "check_payload fs p = Some e" "e = None \<longleftrightarrow> update_accepted fs p"
    using check_payload_eq[OF p] by blast
  show ?thesis
  proof (cases "update_accepted fs p")
    case False
    then obtain f m where "e = Some (f, m)" using e(2) by (cases e) auto
    then show ?thesis using e False by (simp add: apply_update_def)
  next
    case acc: True
    have miss: "ssid_missing fs p (eff c) \<longleftrightarrow> has_field fs CONFIG_FIELD_STA_ENABLED \<and> pl_sta_enabled p \<and>
        cstr (sta_ssid (wanted_sta fs p (sta c))) = []"
      by (simp add: ssid_missing_def wanted_def eff_def wanted_norm)
    obtain s where s: "(if has_field fs CONFIG_FIELDS_STA then merge_sta fs p (bridge_config_get_sta c)
         else Some (Inr (bridge_config_get_sta c))) = Some s"
      "case s of Inl fm \<Rightarrow> ssid_missing fs p (eff c)
       | Inr n \<Rightarrow> sta_ok n \<and> sta_sized n \<and> sta_norm n = wanted_sta fs p (sta c) \<and> \<not> ssid_missing fs p (eff c)"
    proof (cases "has_field fs CONFIG_FIELDS_STA")
      case True
      obtain x where x: "merge_sta fs p (sta c) = Some x" "case x of
          Inl fm \<Rightarrow> ssid_missing fs p (eff c)
        | Inr n \<Rightarrow> sta_ok n \<and> sta_sized n \<and> sta_norm n = wanted_sta fs p (sta c) \<and> \<not> ssid_missing fs p (eff c)"
        unfolding miss using merge_sta_eq[OF p acc ok(1)] by blast
      then show ?thesis using that[of x] True by (simp add: bridge_config_get_sta_def)
    next
      case False
      have "sta_sized (sta c)" using ok(1) by (simp add: sta_ok_def sta_sized_def c_array_def)
      moreover have "sta_norm (sta c) = wanted_sta fs p (sta c)"
        using wanted_unchanged(2)[OF False, of p "sta c"] by (simp add: wanted_norm)
      moreover have "\<not> ssid_missing fs p (eff c)" using False by (simp add: ssid_missing_def has_fields)
      ultimately show ?thesis using that[of "Inr (sta c)"] False ok(1) by (simp add: bridge_config_get_sta_def)
    qed
    obtain a where a: "(if has_field fs CONFIG_FIELDS_AP then merge_ap fs p (bridge_config_get_ap c)
         else Some (bridge_config_get_ap c)) = Some a" "ap_ok a" "ap_sized a" "ap_norm a = wanted_ap fs p (ap c)"
    proof (cases "has_field fs CONFIG_FIELDS_AP")
      case False
      then show ?thesis using that[of "ap c"] ok(2) wanted_unchanged(3)[OF False, of p "ap c"]
        by (auto simp: bridge_config_get_ap_def wanted_norm ap_ok_def ap_sized_def c_array_def)
    qed (use that merge_ap_eq[OF p acc ok(2)] in \<open>auto simp: bridge_config_get_ap_def\<close>)
    obtain y where y: "(if has_field fs CONFIG_FIELD_HOSTNAME
         then do { h \<leftarrow> strcpy (hostname (bridge_config_get_system c)) (pl_hostname p);
                   Some ((bridge_config_get_system c)\<lparr>hostname := h\<rparr>) }
         else Some (bridge_config_get_system c)) = Some y"
      "system_ok y" "system_sized y" "system_norm y = wanted_system fs p (system_cfg c)"
    proof (cases "has_field fs CONFIG_FIELD_HOSTNAME")
      case False
      then show ?thesis using that[of "system_cfg c"] ok(3) wanted_unchanged(4)[OF False, of p "system_cfg c"]
        by (auto simp: bridge_config_get_system_def wanted_norm system_ok_def system_sized_def c_array_def)
    qed (use that merge_hostname_eq[OF p acc ok(3)] in \<open>auto simp: bridge_config_get_system_def\<close>)
    show ?thesis
    proof (cases s)
      case (Inl fm)
      have "fm = (''sta_ssid'', ''required when enabling station mode'')"
        using s(1) Inl by (auto simp: merge_sta_def Let_def split: if_splits bind_splits)
      then show ?thesis using e acc s Inl by (simp add: apply_update_def)
    next
      case (Inr n)
      then have n: "sta_ok n" "sta_sized n" "sta_norm n = wanted_sta fs p (sta c)" "\<not> ssid_missing fs p (eff c)"
        using s(2) by auto
      have "apply_update ops fs p c = save_update ops fs p n a y c"
        using e acc s(1) Inr a(1) y(1) by (simp add: apply_update_def)
      then show ?thesis using n a(2-) y(2-) acc by blast
    qed
  qed
qed

lemma apply_update_eq:
  assumes i: "config_inv d view sok c" and works: "store_works ops sok" and p: "payload_ok fs p"
  shows "\<exists>r c'. apply_update ops fs p c = Some (r, c') \<and> config_inv d view sok c' \<and>
    (if update_accepted fs p \<and> \<not> ssid_missing fs p (eff c) then r = Config_saved \<and> eff c' = wanted fs p (eff c)
     else (\<exists>f m. r = Field_error f m) \<and> c' = c)"
  using apply_update_split[OF i p]
proof (elim disjE exE conjE)
  fix s a y
  assume e: "apply_update ops fs p c = save_update ops fs p s a y c"
    and acc: "update_accepted fs p" "\<not> ssid_missing fs p (eff c)"
    and sat: "sta_ok s" "sta_sized s" "sta_norm s = wanted_sta fs p (sta c)"
      "ap_ok a" "ap_sized a" "ap_norm a = wanted_ap fs p (ap c)"
      "system_ok y" "system_sized y" "system_norm y = wanted_system fs p (system_cfg c)"
  show ?thesis
    using save_update_works[OF i works p acc(1) sat] e acc by simp
qed (use i in simp_all)

text \<open>Over a store that may fail the update still ends, with one of the answers, and keeps the invariant.\<close>

lemma save_step_total:
  assumes "config_inv d view sok c"
    and "b \<Longrightarrow> \<exists>r c'. setter c = Some (r, c') \<and> config_inv d view sok c'"
    and "\<And>c'. config_inv d view sok c' \<Longrightarrow> \<exists>r c2. rest c' = Some (r, c2) \<and> config_inv d view sok c2 \<and> P r"
    and "P (Save_failed msg)"
  shows "\<exists>r c2. save_step b setter msg rest c = Some (r, c2) \<and> config_inv d view sok c2 \<and> P r"
proof (cases b)
  case True
  then obtain r c' where "setter c = Some (r, c')" "config_inv d view sok c'" using assms(2) by blast
  then show ?thesis using assms(3)[of c'] assms(4) True by (cases "r = 0") (simp_all add: save_step_def)
qed (use assms(1,3) in \<open>simp add: save_step_def\<close>)

lemma save_update_total:
  assumes i: "config_inv d view sok c" and p: "payload_ok fs p" "update_accepted fs p"
    and sized: "sta_sized s" "ap_sized a" "system_sized y"
  shows "\<exists>r c'. save_update ops fs p s a y c = Some (r, c') \<and> config_inv d view sok c' \<and> reply_fits r"
proof -
  have T: "\<exists>r c'. (merge_tcp fs p (bridge_config_get_tcp_client c1) \<bind> (\<lambda>t. bridge_config_set_tcp_client ops (Some t) c1)) =
      Some (r, c') \<and> config_inv d view sok c'" if i1: "config_inv d view sok c1" for c1
  proof -
    have t: "tcp_ok (tcp_client c1)" using i1 by (simp add: config_inv_def config_ok_def)
    obtain n where n: "merge_tcp fs p (tcp_client c1) = Some n" "tcp_sized n" using merge_tcp_eq[OF p t] by blast
    then show ?thesis using set_tcp_inv[OF i1 n(2)] by (auto simp: bridge_config_get_tcp_client_def)
  qed
  have fits: "reply_fits (Save_failed ''saving AIS configuration failed'')"
    "reply_fits (Save_failed ''saving TCP client configuration failed'')"
    "reply_fits (Save_failed ''saving WiFi configuration failed'')"
    "reply_fits (Save_failed ''saving access point configuration failed'')"
    "reply_fits (Save_failed ''saving system configuration failed'')" "reply_fits Config_saved"
    by (simp_all add: reply_fits_def bytes_of_def)
  have S: "\<exists>r c'. bridge_config_set_ais ops (Some n) c1 = Some (r, c') \<and> config_inv d view sok c'"
    "\<exists>r c'. bridge_config_set_sta ops (Some s) c1 = Some (r, c') \<and> config_inv d view sok c'"
    "\<exists>r c'. bridge_config_set_ap ops (Some a) c1 = Some (r, c') \<and> config_inv d view sok c'"
    "\<exists>r c'. bridge_config_set_system ops (Some y) c1 = Some (r, c') \<and> config_inv d view sok c'"
    if "config_inv d view sok c1" for n c1
    using set_ais_inv[OF that] set_sta_inv[OF that sized(1)] set_ap_inv[OF that sized(2)] set_system_inv[OF that sized(3)]
    by blast+
  show ?thesis
    unfolding save_update_def
    by (rule save_step_total[OF i], rule S(1)[OF i], rule save_step_total, assumption, erule T,
        rule save_step_total, assumption, erule S(2), rule save_step_total, assumption, erule S(3),
        rule save_step_total, assumption, erule S(4)) (simp_all add: fits)
qed

end

text \<open>Every message of the checks fits.\<close>

definition error_fits :: "field_error option \<Rightarrow> bool" where
  "error_fits r \<longleftrightarrow> (\<forall>f m. r = Some (Some (f, m)) \<longrightarrow> reply_fits (Field_error f m))"

lemma error_fits_intros:
  "error_fits None" "error_fits (Some None)" "error_fits (Some (Some (f, m))) \<longleftrightarrow> reply_fits (Field_error f m)"
  by (simp_all add: error_fits_def)

lemma first_error_fits: "list_all (\<lambda>(b, c). error_fits c) cs \<Longrightarrow> error_fits (first_error cs)"
  by (induction cs rule: first_error.induct) (auto simp: error_fits_def split: if_splits bind_splits)

lemma field_fits:
  "length f \<le> 20 \<Longrightarrow> length m \<le> 70 \<Longrightarrow> 0 \<notin> set (bytes_of f) \<Longrightarrow> 0 \<notin> set (bytes_of m) \<Longrightarrow> reply_fits (Field_error f m)"
  by (auto simp: reply_fits_def bytes_of_def)

lemma check_fits:
  "length f \<le> 20 \<Longrightarrow> 0 \<notin> set (bytes_of f) \<Longrightarrow> error_fits (check_ssid f s)"
  "length f \<le> 20 \<Longrightarrow> 0 \<notin> set (bytes_of f) \<Longrightarrow> error_fits (check_psk f s)"
  "length f \<le> 20 \<Longrightarrow> 0 \<notin> set (bytes_of f) \<Longrightarrow> error_fits (check_psk_clear f c h s)"
  "error_fits (check_hostname s)" "error_fits (check_host s)"
proof -
  show "error_fits (check_ssid f s)" if "length f \<le> 20" "0 \<notin> set (bytes_of f)"
    using field_fits[OF that(1) _ that(2), of "''must be 1 to 32 bytes''"]
      field_fits[OF that(1) _ that(2), of "''must be printable UTF-8''"]
    by (auto simp: error_fits_def check_ssid_def bytes_of_def split: bind_splits)
  show "error_fits (check_psk f s)" if "length f \<le> 20" "0 \<notin> set (bytes_of f)"
    using field_fits[OF that(1) _ that(2), of "''must be 8 to 63 characters or blank''"]
    by (auto simp: error_fits_def check_psk_def bytes_of_def split: bind_splits)
  show "error_fits (check_psk_clear f c h s)" if "length f \<le> 20" "0 \<notin> set (bytes_of f)"
    using field_fits[OF that(1) _ that(2), of "''cannot be combined with a new password''"]
    by (auto simp: error_fits_def check_psk_clear_def bytes_of_def split: bind_splits)
  have "reply_fits (Field_error ''hostname'' ''must be 1 to 32 lowercase letters, digits, or inner hyphens'')"
    "reply_fits (Field_error ''tcp_client_host'' ''must be an IPv4 address or blank'')"
    by (rule field_fits; simp add: bytes_of_def)+
  then show "error_fits (check_hostname s)" "error_fits (check_host s)"
    by (auto simp: error_fits_def check_hostname_def check_host_def split: bind_splits)
qed

lemma if_error_fits: "error_fits (Some (Some e)) \<Longrightarrow> error_fits (Some (if b then Some e else None))"
  by (simp add: error_fits_def)

lemma check_payload_fits: "check_payload fs p = Some (Some (f, m)) \<Longrightarrow> reply_fits (Field_error f m)"
proof -
  have "error_fits (check_payload fs p)"
    unfolding check_payload_def
    by (rule first_error_fits, simp only: list.pred_inject prod.case, intro conjI TrueI)
      (rule check_fits if_error_fits | simp only: error_fits_intros | rule field_fits | simp add: bytes_of_def)+
  then show "check_payload fs p = Some (Some (f, m)) \<Longrightarrow> reply_fits (Field_error f m)" by (simp add: error_fits_def)
qed

context settings_store
begin

lemma apply_update_total:
  assumes i: "config_inv d view sok c" and p: "payload_ok fs p"
  shows "\<exists>r c'. apply_update ops fs p c = Some (r, c') \<and> config_inv d view sok c' \<and> reply_fits r"
  using apply_update_split[OF i p]
proof (elim disjE exE conjE)
  fix s a y
  assume e: "apply_update ops fs p c = save_update ops fs p s a y c" "update_accepted fs p"
    and sized: "sta_sized s" "ap_sized a" "system_sized y"
  show ?thesis using save_update_total[OF i p e(2) sized] e(1) by simp
qed (use i check_payload_fits in \<open>auto simp: reply_fits_def bytes_of_def\<close>)

end

section \<open>The answers\<close>

text \<open>The JSON form of a valid configuration fits its 640 bytes.\<close>

lemma bool_text_fits: "length (bool_text b) \<le> 5 \<and> 0 \<notin> set (bool_text b)"
  by (simp add: bool_text_def bytes_of_def)

lemma nat_text_unat: "length (nat_text (unat (v :: u32))) \<le> 10" "length (nat_text (unat (h :: 16 word))) \<le> 5"
proof -
  have "unat v < 10 ^ 10" using unat_less_len[of v] by simp
  then show "length (nat_text (unat v)) \<le> 10" using length_nat_text[of "unat v" 10] by simp
  have "unat h < 10 ^ 5" using unat_less_len[of h] by simp
  then show "length (nat_text (unat h)) \<le> 5" using length_nat_text[of "unat h" 5] by simp
qed

lemma terminated_rd: "terminated a \<Longrightarrow> \<exists>x. rd a 0 = Some x"
  by (cases a) (simp_all add: rd_def terminated_def)

lemma config_json_fits:
  assumes "config_ok c"
  shows "\<exists>t. config_json c = Some t \<and> length t < 640 \<and> 0 \<notin> set t"
proof -
  have t: "terminated (sta_ssid (sta c))" "terminated (sta_psk (sta c))" "terminated (ap_ssid (ap c))"
    "terminated (ap_psk (ap c))" "terminated (hostname (system_cfg c))" "terminated (tcp_host (tcp_client c))"
    and l: "length (cstr (sta_ssid (sta c))) \<le> 32" "length (cstr (ap_ssid (ap c))) \<le> 32"
    "length (cstr (hostname (system_cfg c))) \<le> 32" "length (cstr (tcp_host (tcp_client c))) \<le> 15"
    using assms length_cstr_less[of "sta_ssid (sta c)"] length_cstr_less[of "ap_ssid (ap c)"]
      length_cstr_less[of "hostname (system_cfg c)"] length_cstr_less[of "tcp_host (tcp_client c)"]
    by (auto simp: config_ok_def sta_ok_def ap_ok_def system_ok_def tcp_ok_def c_array_def)
  obtain s0 a0 where "rd (sta_psk (sta c)) 0 = Some s0" "rd (ap_psk (ap c)) 0 = Some a0"
    using terminated_rd[OF t(2)] terminated_rd[OF t(4)] by blast
  moreover have "json_escape_string (Some (sta_ssid (sta c))) 65 = Some (json_escape (cstr (sta_ssid (sta c))) @ [0])"
    "json_escape_string (Some (ap_ssid (ap c))) 65 = Some (json_escape (cstr (ap_ssid (ap c))) @ [0])"
    using t l by (simp_all add: json_escape_string_eq)
  moreover have "length (json_escape (cstr (sta_ssid (sta c)))) \<le> 64" "length (json_escape (cstr (ap_ssid (ap c)))) \<le> 64"
    using length_json_escape[of "cstr (sta_ssid (sta c))"] length_json_escape[of "cstr (ap_ssid (ap c))"] l by linarith+
  moreover note l t nul_nat_text json_escape_no_nul cstr_no_nul
    nat_text_unat(1)[of "cfg_own_mmsi (ais c)"] nat_text_unat(2)[of "tcp_port (tcp_client c)"]
  ultimately show ?thesis
    using bool_text_fits
    by (simp add: config_json_def str_arg_def bridge_config_get_ais_def bridge_config_get_sta_def bridge_config_get_ap_def
        bridge_config_get_system_def bridge_config_get_tcp_client_def BRIDGE_CONFIG_WIFI_SSID_MAX_def)
      (simp add: bytes_of_def bool_text_def)
qed

text \<open>What a reply is on the wire.\<close>

definition reply_text :: "config_reply \<Rightarrow> 's config \<Rightarrow> byte list" where
  "reply_text r c =
     (case r of
        Field_error field message \<Rightarrow> field_error_text field message
      | Payload_too_large \<Rightarrow> bytes_of ''{\"ok\":false,\"errors\":{\"body\":\"payload too large\"}}'' @ [10]
      | Save_failed message \<Rightarrow> bytes_of ''{\"ok\":false,\"errors\":{\"body\":\"'' @ bytes_of message @ bytes_of ''\"}}'' @ [10]
      | Config_saved \<Rightarrow> the (config_json c))"

definition reply_status :: "config_reply \<Rightarrow> string" where
  "reply_status r =
     (case r of
        Field_error field message \<Rightarrow> ''400 Bad Request''
      | Payload_too_large \<Rightarrow> ''413 Payload Too Large''
      | Save_failed message \<Rightarrow> ''500 Internal Server Error''
      | Config_saved \<Rightarrow> ''200 OK'')"

definition reply_response :: "config_reply \<Rightarrow> 's config \<Rightarrow> byte list" where
  "reply_response r c = response (reply_status r) ''application/json'' (reply_text r c)"

lemma field_error_fits:
  assumes "reply_fits (Field_error f m)"
  shows "length (field_error_text f m) < 128 \<and> 0 \<notin> set (field_error_text f m)"
  using assms by (auto simp: reply_fits_def field_error_text_def bytes_of_def)

lemma snprintk_text: "length t < n \<Longrightarrow> fst (snprintk n t) = t @ [0]"
  by (simp add: snprintk_def)

context web_client
begin

lemma config_json_sent:
  assumes "config_ok c" and "length st \<le> 60"
  shows "\<exists>w'. write_config_json wo st c w = Some (0, w') \<and>
    wire w' = wire w @ response st ''application/json'' (the (config_json c)) \<and> incoming w' = incoming w"
proof -
  obtain t where t: "config_json c = Some t" "length t < 640" "0 \<notin> set t" using config_json_fits[OF assms(1)] by blast
  then show ?thesis
    using text_response_sent[of st "''application/json''" "t @ [0]" w] assms(2)
    by (simp add: write_config_json_def snprintk_text)
qed

lemma reply_sent:
  assumes "reply_fits r" and "config_ok c"
  shows "\<exists>w'. send_reply wo r c w = Some w' \<and> wire w' = wire w @ reply_response r c \<and> incoming w' = incoming w"
proof (cases r)
  case (Field_error f m)
  note fits = field_error_fits[OF assms(1)[unfolded Field_error]]
  obtain w' where "write_text_response wo ''400 Bad Request'' ''application/json'' (field_error_text f m @ [0]) w = Some (0, w')"
    "wire w' = wire w @ response ''400 Bad Request'' ''application/json'' (field_error_text f m)" "incoming w' = incoming w"
    using text_response_sent[of "''400 Bad Request''" "''application/json''" "field_error_text f m @ [0]" w] fits by auto
  then show ?thesis
    using fits Field_error
    by (simp add: send_reply_def write_config_field_error_def snprintk_text reply_response_def reply_status_def reply_text_def)
next
  case Payload_too_large
  define t where "t = bytes_of ''{\"ok\":false,\"errors\":{\"body\":\"payload too large\"}}'' @ [10]"
  have t: "0 \<notin> set t" "length t < 10 ^ 10" by (simp_all add: t_def bytes_of_def)
  obtain w' where "write_text_response wo ''413 Payload Too Large'' ''application/json'' (t @ [0]) w = Some (0, w')"
    "wire w' = wire w @ response ''413 Payload Too Large'' ''application/json'' t" "incoming w' = incoming w"
    using text_response_sent[of "''413 Payload Too Large''" "''application/json''" "t @ [0]" w] t by auto
  then show ?thesis using Payload_too_large
    by (simp add: send_reply_def reply_response_def reply_status_def reply_text_def t_def)
next
  case (Save_failed m)
  define t where "t = bytes_of ''{\"ok\":false,\"errors\":{\"body\":\"'' @ bytes_of m @ bytes_of ''\"}}'' @ [10]"
  have t: "0 \<notin> set t" "length t < 10 ^ 10" using assms(1) Save_failed by (auto simp: t_def bytes_of_def reply_fits_def)
  obtain w' where "write_text_response wo ''500 Internal Server Error'' ''application/json'' (t @ [0]) w = Some (0, w')"
    "wire w' = wire w @ response ''500 Internal Server Error'' ''application/json'' t" "incoming w' = incoming w"
    using text_response_sent[of "''500 Internal Server Error''" "''application/json''" "t @ [0]" w] t by auto
  then show ?thesis using Save_failed
    by (simp add: send_reply_def reply_response_def reply_status_def reply_text_def t_def)
next
  case Config_saved
  then show ?thesis using config_json_sent[OF assms(2), of "''200 OK''" w]
    by (auto simp: send_reply_def reply_response_def reply_status_def reply_text_def)
qed

end

text \<open>What the handler makes of a body that is sent as announced; \<open>room\<close> is what the header leaves of the buffer.\<close>

definition update_request ::
  "(byte list \<Rightarrow> int \<times> config_payload) \<Rightarrow> nat \<Rightarrow> u32 option \<Rightarrow> byte list \<Rightarrow> config_reply + int \<times> config_payload"
where
  "update_request json_obj_parse room len body =
     (case len of
        None \<Rightarrow> Inl (Field_error ''body'' ''Content-Length required'')
      | Some n \<Rightarrow>
          if unat n > WEB_APP_CONFIG_BODY_MAX then Inl Payload_too_large
          else if unat n \<ge> room then Inl (Field_error ''body'' ''body ended early'')
          else
            let (fs, payload) = json_obj_parse body in
            if fs < 0 then Inl (Field_error ''body'' ''invalid JSON'')
            else if fs = 0 then Inl (Field_error ''body'' ''no recognised configuration fields'')
            else Inr (fs, payload))"

lemma update_request_fits: "update_request jp room len body = Inl r \<Longrightarrow> reply_fits r"
  by (auto simp: update_request_def Let_def reply_fits_def bytes_of_def split: option.splits if_splits prod.splits)

context prompt_client
begin

text \<open>Receiving the rest of the body.\<close>

lemma remaining_body:
  assumes "n = unat (content_length p)" and "rq_body p + n \<le> length buf" and "body_len p \<le> n"
    and "n \<le> body_len p + length (incoming w)"
  shows "\<exists>p' buf' w'. remaining_body_loop so buf p w = Some ((0, p', buf'), w') \<and> wire w' = wire w \<and>
    rq_body p' = rq_body p \<and> content_length p' = content_length p \<and>
    take n (drop (rq_body p) buf') = take (body_len p) (drop (rq_body p) buf) @ take (n - body_len p) (incoming w)"
  using assms
proof (induction "length (incoming w)" arbitrary: p buf w rule: less_induct)
  case less
  note received = less
  show ?case
    using received(2-5) received(1)
  proof (induction "interrupts w" arbitrary: w rule: less_induct)
    case (less w)
    note interrupted = less(1) and n = less(2) and b = less(3,4,5) and IH = less(6)
    show ?case
    proof (cases "body_len p < n")
      case False
      then show ?thesis using n b by (subst remaining_body_loop.simps) auto
    next
      case True
      then have room: "0 < n - body_len p" and inc: "incoming w \<noteq> []" using b(3) by auto
      obtain x w1 where x: "zsock_recv so (n - body_len p) w = (x, w1)" by fastforce
      show ?thesis
      proof (cases x)
        case (Inl e)
        note e = recv_interrupted[OF x[unfolded Inl] room inc]
        have "\<exists>p' buf' w'. remaining_body_loop so buf p w1 = Some ((0, p', buf'), w') \<and> wire w' = wire w1 \<and>
          rq_body p' = rq_body p \<and> content_length p' = content_length p \<and>
          take n (drop (rq_body p) buf') = take (body_len p) (drop (rq_body p) buf) @ take (n - body_len p) (incoming w1)"
          using interrupted[of w1] e n b IH by simp
        then show ?thesis using x e True n recv_silent[OF x] by (subst remaining_body_loop.simps) (simp add: Inl)
      next
        case (Inr chunk)
        note c = recv_gives[OF x[unfolded Inr]] recv_some[OF x[unfolded Inr] room inc]
        define p1 where "p1 = p\<lparr>body_len := body_len p + length chunk\<rparr>"
        define at where "at = rq_body p + body_len p"
        define buf1 where "buf1 = take at buf @ chunk @ drop (at + length chunk) buf"
        have fit: "at + length chunk \<le> length buf" using conjunct1[OF c(1)] b(1) True unfolding at_def by arith
        have m: "memcpy buf at chunk 0 (length chunk) = Some buf1"
          using fit by (simp add: memcpy_def buf1_def)
        have l1: "length buf1 = length buf" using fit by (simp add: buf1_def)
        have step: "remaining_body_loop so buf p w = remaining_body_loop so buf1 p1 w1"
          using x c True n m by (subst remaining_body_loop.simps) (simp add: Inr p1_def at_def)
        have smaller: "length (incoming w1) < length (incoming w)" using c by simp
        have "\<exists>p' buf' w'. remaining_body_loop so buf1 p1 w1 = Some ((0, p', buf'), w') \<and> wire w' = wire w1 \<and>
          rq_body p' = rq_body p1 \<and> content_length p' = content_length p1 \<and>
          take n (drop (rq_body p1) buf') = take (body_len p1) (drop (rq_body p1) buf1) @ take (n - body_len p1) (incoming w1)"
          by (rule IH[OF smaller]) (use n b c True l1 in \<open>auto simp: p1_def\<close>)
        moreover have "take (body_len p1) (drop (rq_body p1) buf1) = take (body_len p) (drop (rq_body p) buf) @ chunk"
          using fit c(2) unfolding p1_def buf1_def at_def by (simp add: drop_take add.commute min_absorb2)
        moreover have "take (n - body_len p) (incoming w) = chunk @ take (n - body_len p1) (incoming w1)"
          using c True by (simp add: p1_def)
        ultimately show ?thesis using step recv_silent[OF x] by (simp add: p1_def)
      qed
    qed
  qed
qed

lemma receive_update_eq:
  assumes f: "request_found hl meth path len body p buf (incoming w)" and b: "\<forall>n. len = Some n \<longrightarrow> length body = unat n"
  shows "\<exists>w'. receive_update so jp buf WEB_APP_RX_BUF_SIZE p w =
      Some (update_request jp (WEB_APP_RX_BUF_SIZE - hl) len body, w') \<and> wire w' = wire w"
proof (cases len)
  case None
  then show ?thesis using f by (simp add: receive_update_def update_request_def request_found_def)
next
  case (Some k)
  define n where "n = unat k"
  have p: "has_content_length p" "content_length p = k" "rq_body p = hl" "length buf = WEB_APP_RX_BUF_SIZE"
    "hl + body_len p \<le> WEB_APP_RX_BUF_SIZE" "body = take (body_len p) (drop hl buf) @ incoming w"
    using f Some by (auto simp: request_found_def)
  have lb: "length body = n" using b Some by (simp add: n_def)
  have bl: "body_len p \<le> n" "n = body_len p + length (incoming w)"
    using arg_cong[OF p(6), of length] p(4,5) lb by auto
  show ?thesis
  proof (cases "n > WEB_APP_CONFIG_BODY_MAX \<or> n \<ge> WEB_APP_RX_BUF_SIZE - hl")
    case True
    then show ?thesis using p bl Some
      by (auto simp: receive_update_def update_request_def read_remaining_body_def n_def errno_defs)
  next
    case False
    have room: "rq_body p + n \<le> length buf" using False p(3,4,5) by linarith
    have nl: "n = unat (content_length p)" using p(2) by (simp add: n_def)
    obtain p' buf' w' where r: "remaining_body_loop so buf p w = Some ((0, p', buf'), w')" "wire w' = wire w"
      "rq_body p' = hl" "content_length p' = k" "take n (drop hl buf') = body"
      using remaining_body[OF nl _ bl(1), of buf w] p bl(2) room lb by auto
    then show ?thesis using p bl Some False
      by (auto simp: receive_update_def update_request_def read_remaining_body_def n_def split: prod.splits)
  qed
qed

end

section \<open>Properties\<close>


definition demo_payload :: "int \<Rightarrow> config_payload" where
  "demo_payload port = \<lparr>pl_ais_filter_enabled = True, pl_ais_own_mmsi = 0, pl_sta_enabled = False,
     pl_sta_ssid = [], pl_sta_psk = [], pl_sta_psk_clear = False, pl_sta_rotate_mac = False,
     pl_tcp_client_enabled = True, pl_tcp_client_host = tcp_host new_tcp, pl_tcp_client_port = port,
     pl_ap_ssid = [], pl_ap_psk = [], pl_ap_psk_clear = False, pl_hostname = []\<rparr>"

text \<open>The fields \<open>tcp_client_enabled\<close>, \<open>tcp_client_host\<close> and \<open>tcp_client_port\<close>.\<close>

lemma demo_fields:
  "has_field 896 CONFIG_FIELD_AIS_FILTER_ENABLED = False" "has_field 896 CONFIG_FIELD_AIS_OWN_MMSI = False"
  "has_field 896 CONFIG_FIELD_STA_ENABLED = False" "has_field 896 CONFIG_FIELD_STA_SSID = False"
  "has_field 896 CONFIG_FIELD_STA_PSK = False" "has_field 896 CONFIG_FIELD_STA_PSK_CLEAR = False"
  "has_field 896 CONFIG_FIELD_STA_ROTATE_MAC = False" "has_field 896 CONFIG_FIELD_TCP_CLIENT_ENABLED = True"
  "has_field 896 CONFIG_FIELD_TCP_CLIENT_HOST = True" "has_field 896 CONFIG_FIELD_TCP_CLIENT_PORT = True"
  "has_field 896 CONFIG_FIELD_AP_SSID = False" "has_field 896 CONFIG_FIELD_AP_PSK = False"
  "has_field 896 CONFIG_FIELD_AP_PSK_CLEAR = False" "has_field 896 CONFIG_FIELD_HOSTNAME = False"
  by (simp_all add: has_field_def CONFIG_FIELD_AIS_FILTER_ENABLED_def CONFIG_FIELD_AIS_OWN_MMSI_def
      CONFIG_FIELD_STA_ENABLED_def CONFIG_FIELD_STA_SSID_def CONFIG_FIELD_STA_PSK_def CONFIG_FIELD_STA_PSK_CLEAR_def
      CONFIG_FIELD_STA_ROTATE_MAC_def CONFIG_FIELD_TCP_CLIENT_ENABLED_def CONFIG_FIELD_TCP_CLIENT_HOST_def
      CONFIG_FIELD_TCP_CLIENT_PORT_def CONFIG_FIELD_AP_SSID_def CONFIG_FIELD_AP_PSK_def
      CONFIG_FIELD_AP_PSK_CLEAR_def CONFIG_FIELD_HOSTNAME_def)

lemma alist_works: "store_works alist_ops alist_ok"
  by (simp add: store_works_def alist_ops_def)


end
