(* ===== verification/Ais_Mmsi_Filter.thy ===== *)
theory Ais_Mmsi_Filter
  imports Bridge_Prelude
begin

text \<open>
  The AIS self-MMSI filter, \<open>src/src/ais_mmsi_filter.c\<close>: it decides for one NMEA
  frame whether it is an AIS VDM sentence of the own vessel, and remembers the
  fragments of a multi-sentence message that are still to come.

  The first section translates the C functions, with every read of the frame and
  of the sequence buffer checked (\<open>None\<close> is an access outside the object). The
  second states the same decision over lists, without indices, and shows that the
  C functions compute it and never leave the frame. The theory
  \<open>Ais_Mmsi_Properties\<close> has the properties of the decision.
\<close>

section \<open>Translation\<close>

definition AIS_MMSI_FILTER_SEQ_ID_MAX_LEN :: nat where
  "AIS_MMSI_FILTER_SEQ_ID_MAX_LEN = 8"

record ais_mmsi_filter_sequence =
  seq_active :: bool
  total_fragments :: byte
  next_fragment :: byte
  sequence_id :: "byte list"
  seq_channel :: byte

record ais_mmsi_filter =
  own_mmsi :: u32
  sequence :: ais_mmsi_filter_sequence

text \<open>A field of the sentence: an offset into the frame and a length.\<close>

record field_view =
  fv_ptr :: nat
  fv_len :: nat

definition hex_value :: "byte \<Rightarrow> int" where
  "hex_value c =
     (if ch CHR ''0'' \<le> c \<and> c \<le> ch CHR ''9'' then uint c - 48
      else if ch CHR ''A'' \<le> c \<and> c \<le> ch CHR ''F'' then uint c - 65 + 10
      else if ch CHR ''a'' \<le> c \<and> c \<le> ch CHR ''f'' then uint c - 97 + 10
      else -1)"

function find_star :: "byte list \<Rightarrow> nat \<Rightarrow> nat \<Rightarrow> nat option" where
  "find_star frame len i =
     (if i < len then
        do { c \<leftarrow> rd frame i;
             if c = ch CHR ''*'' then Some i else find_star frame len (Suc i) }
      else Some 0)"
  by pat_completeness auto
termination
  by (relation "measure (\<lambda>(frame, len, i). len - i)") auto

function xor_body :: "byte list \<Rightarrow> nat \<Rightarrow> nat \<Rightarrow> byte \<Rightarrow> byte option" where
  "xor_body frame star i actual =
     (if i < star then
        do { c \<leftarrow> rd frame i; xor_body frame star (Suc i) (actual XOR c) }
      else Some actual)"
  by pat_completeness auto
termination
  by (relation "measure (\<lambda>(frame, star, i, actual). star - i)") auto

declare find_star.simps [simp del] xor_body.simps [simp del]

text \<open>The result is \<open>Some (body_start, body_len)\<close> when the C function returns true.\<close>

definition checksum_is_valid :: "byte list \<Rightarrow> nat \<Rightarrow> (nat \<times> nat) option option" where
  "checksum_is_valid frame len =
     (if len < 5 then Some None
      else do {
        c0 \<leftarrow> rd frame 0;
        if c0 \<noteq> ch CHR ''!'' \<and> c0 \<noteq> ch CHR ''$'' then Some None
        else do {
          star \<leftarrow> find_star frame len 1;
          if star = 0 \<or> star + 2 \<ge> len then Some None
          else do {
            h \<leftarrow> rd frame (star + 1);
            l \<leftarrow> rd frame (star + 2);
            (let hi = hex_value h; lo = hex_value l in
             if hi < 0 \<or> lo < 0 then Some None
             else do {
               actual \<leftarrow> xor_body frame star 1 0;
               if actual \<noteq> word_of_int (push_bit 4 hi OR lo) then Some None
               else Some (Some (1, star - 1))
             })
          }
        }
      })"

text \<open>The loop of \<open>split_fields\<close>; \<open>body\<close> is the offset of the body in the frame.\<close>

function split_fields_loop ::
  "byte list \<Rightarrow> nat \<Rightarrow> nat \<Rightarrow> nat \<Rightarrow> nat \<Rightarrow> nat \<Rightarrow> nat \<Rightarrow> field_view list
    \<Rightarrow> (bool \<times> field_view list) option"
where
  "split_fields_loop frame body body_len field_count i field start flds =
     (if i \<le> body_len then
        do {
          delim \<leftarrow> (if i = body_len then Some True
                    else do { c \<leftarrow> rd frame (body + i); Some (c = ch CHR '','') });
          if \<not> delim then
            split_fields_loop frame body body_len field_count (Suc i) field start flds
          else if field \<ge> field_count then Some (True, flds)
          else split_fields_loop frame body body_len field_count (Suc i) (Suc field) (Suc i)
                 (flds[field := \<lparr>fv_ptr = body + start, fv_len = i - start\<rparr>])
        }
      else Some (field \<ge> field_count, flds))"
  by pat_completeness auto
termination
  by (relation "measure (\<lambda>(frame, body, body_len, fc, i, field, start, flds).
        Suc body_len - i)") auto

declare split_fields_loop.simps [simp del]

definition split_fields ::
  "byte list \<Rightarrow> nat \<Rightarrow> nat \<Rightarrow> field_view list \<Rightarrow> nat \<Rightarrow> (bool \<times> field_view list) option"
where
  "split_fields frame body body_len flds field_count =
     split_fields_loop frame body body_len field_count 0 0 0 flds"

definition isdigit :: "byte \<Rightarrow> bool" where
  "isdigit c \<longleftrightarrow> ch CHR ''0'' \<le> c \<and> c \<le> ch CHR ''9''"

text \<open>The digit loop works on a \<open>uint16_t\<close>; \<open>Some None\<close> is the result false.\<close>

function parse_uint_loop ::
  "byte list \<Rightarrow> field_view \<Rightarrow> nat \<Rightarrow> u16 \<Rightarrow> byte option option"
where
  "parse_uint_loop frame field i parsed =
     (if i < fv_len field then
        do {
          c \<leftarrow> rd frame (fv_ptr field + i);
          if \<not> isdigit c then Some None
          else (let parsed' = parsed * 10 + (ucast c - 48) in
                if parsed' > 255 then Some None
                else parse_uint_loop frame field (Suc i) parsed')
        }
      else Some (Some (ucast parsed)))"
  by pat_completeness auto
termination
  by (relation "measure (\<lambda>(frame, field, i, parsed). fv_len field - i)") auto

declare parse_uint_loop.simps [simp del]

definition parse_uint_field :: "byte list \<Rightarrow> field_view \<Rightarrow> byte option option" where
  "parse_uint_field frame field =
     (if fv_len field = 0 \<or> fv_len field > 3 then Some None
      else parse_uint_loop frame field 0 0)"

definition ais_sixbit_value :: "byte \<Rightarrow> int" where
  "ais_sixbit_value c =
     (if c < 48 \<or> c > 119 then -1
      else (let value = uint c - 48;
                value = (if value > 40 then value - 8 else value)
            in if value < 0 \<or> value > 63 then -1 else value))"

function decode_bits :: "byte list \<Rightarrow> nat \<Rightarrow> nat \<Rightarrow> u64 \<Rightarrow> u64 option option" where
  "decode_bits frame p i bits =
     (if i < 7 then
        do {
          c \<leftarrow> rd frame (p + i);
          (let value = ais_sixbit_value c in
           if value < 0 then Some None
           else decode_bits frame p (Suc i) (push_bit 6 bits OR word_of_int value))
        }
      else Some (Some bits))"
  by pat_completeness auto
termination
  by (relation "measure (\<lambda>(frame, p, i, bits). 7 - i)") auto

declare decode_bits.simps [simp del]

definition decode_mmsi :: "byte list \<Rightarrow> field_view \<Rightarrow> u32 option option" where
  "decode_mmsi frame payload =
     (if fv_len payload < 7 then Some None
      else do {
        r \<leftarrow> decode_bits frame (fv_ptr payload) 0 0;
        Some (map_option (\<lambda>bits. ucast (drop_bit 4 bits AND 0x3fffffff)) r)
      })"

definition formatter_is_vdm :: "byte list \<Rightarrow> field_view \<Rightarrow> bool option" where
  "formatter_is_vdm frame formatter =
     (if fv_len formatter \<noteq> 5 then Some False
      else do {
        c2 \<leftarrow> rd frame (fv_ptr formatter + 2);
        if c2 \<noteq> ch CHR ''V'' then Some False
        else do {
          c3 \<leftarrow> rd frame (fv_ptr formatter + 3);
          if c3 \<noteq> ch CHR ''D'' then Some False
          else do {
            c4 \<leftarrow> rd frame (fv_ptr formatter + 4);
            Some (c4 = ch CHR ''M'')
          }
        }
      })"

definition channel_value :: "byte list \<Rightarrow> field_view \<Rightarrow> byte option" where
  "channel_value frame channel =
     (if fv_len channel = 1 then rd frame (fv_ptr channel) else Some 0)"

definition sequence_matches ::
  "ais_mmsi_filter_sequence \<Rightarrow> byte list \<Rightarrow> field_view \<Rightarrow> byte \<Rightarrow> byte \<Rightarrow> byte \<Rightarrow> bool option"
where
  "sequence_matches seq frame seq_id channel tot fragment =
     (if seq_active seq \<and> total_fragments seq = tot \<and> next_fragment seq = fragment
         \<and> seq_channel seq = channel
      then do {
        n \<leftarrow> strlen (sequence_id seq);
        if n \<noteq> fv_len seq_id then Some False
        else strncmp_eq (sequence_id seq) 0 frame (fv_ptr seq_id) (fv_len seq_id)
      }
      else Some False)"

text \<open>\<open>memcpy\<close> of the identifier into the nine-byte array and its terminator. The
  guard keeps the copy inside the array, and the source is read in the frame.\<close>

definition remember_sequence ::
  "ais_mmsi_filter \<Rightarrow> byte list \<Rightarrow> field_view \<Rightarrow> byte \<Rightarrow> byte \<Rightarrow> ais_mmsi_filter option"
where
  "remember_sequence flt frame seq_id channel tot =
     (if fv_len seq_id = 0 \<or> fv_len seq_id > AIS_MMSI_FILTER_SEQ_ID_MAX_LEN \<or> tot < 2
      then Some (flt\<lparr>sequence := (sequence flt)\<lparr>seq_active := False\<rparr>\<rparr>)
      else if fv_ptr seq_id + fv_len seq_id > length frame then None
      else (let n = fv_len seq_id; sid = sequence_id (sequence flt) in
        Some (flt\<lparr>sequence :=
          \<lparr>seq_active = True, total_fragments = tot, next_fragment = 2,
           sequence_id = take n (drop (fv_ptr seq_id) frame) @ [0] @ drop (n + 1) sid,
           seq_channel = channel\<rparr>\<rparr>)))"

text \<open>The record after \<open>memset\<close> to zero and the assignment of the MMSI.\<close>

definition cleared_filter :: "u32 \<Rightarrow> ais_mmsi_filter" where
  "cleared_filter mmsi =
     \<lparr>own_mmsi = mmsi, sequence =
        \<lparr>seq_active = False, total_fragments = 0, next_fragment = 0,
         sequence_id = replicate (AIS_MMSI_FILTER_SEQ_ID_MAX_LEN + 1) 0, seq_channel = 0\<rparr>\<rparr>"

text \<open>A NULL argument is \<open>None\<close>.\<close>

definition ais_mmsi_filter_init ::
  "ais_mmsi_filter option \<Rightarrow> u32 \<Rightarrow> ais_mmsi_filter option"
where
  "ais_mmsi_filter_init flt mmsi =
     (case flt of None \<Rightarrow> None | Some _ \<Rightarrow> Some (cleared_filter mmsi))"

text \<open>The part of \<open>ais_mmsi_filter_should_drop\<close> for a fragment after the first.\<close>

definition drop_continuation ::
  "ais_mmsi_filter \<Rightarrow> byte list \<Rightarrow> field_view \<Rightarrow> byte \<Rightarrow> byte \<Rightarrow> byte
    \<Rightarrow> (bool \<times> ais_mmsi_filter) option"
where
  "drop_continuation flt frame seq_id channel tot fragment =
     do {
       m \<leftarrow> sequence_matches (sequence flt) frame seq_id channel tot fragment;
       if \<not> m then Some (False, flt)
       else (let s = (sequence flt)\<lparr>next_fragment := next_fragment (sequence flt) + 1\<rparr>;
                 s = (if next_fragment s > total_fragments s then s\<lparr>seq_active := False\<rparr> else s)
             in Some (True, flt\<lparr>sequence := s\<rparr>))
     }"

text \<open>The part for a single sentence or a first fragment.\<close>

definition drop_first ::
  "ais_mmsi_filter \<Rightarrow> byte list \<Rightarrow> field_view \<Rightarrow> field_view \<Rightarrow> byte \<Rightarrow> byte
    \<Rightarrow> (bool \<times> ais_mmsi_filter) option"
where
  "drop_first flt frame seq_id payload channel tot =
     do {
       mmsi \<leftarrow> decode_mmsi frame payload;
       if mmsi \<noteq> Some (own_mmsi flt) then Some (False, flt)
       else if tot > 1 then
         do { f \<leftarrow> remember_sequence flt frame seq_id channel tot; Some (True, f) }
       else Some (True, flt\<lparr>sequence := (sequence flt)\<lparr>seq_active := False\<rparr>\<rparr>)
     }"

text \<open>The whole decision, after the NULL checks of the entry point.\<close>

definition should_drop_frame ::
  "ais_mmsi_filter \<Rightarrow> byte list \<Rightarrow> nat \<Rightarrow> (bool \<times> ais_mmsi_filter) option"
where
  "should_drop_frame flt frame len =
     (if len = 0 \<or> own_mmsi flt = 0 then Some (False, flt)
      else do {
        body \<leftarrow> checksum_is_valid frame len;
        case body of
          None \<Rightarrow> Some (False, flt)
        | Some (body_start, body_len) \<Rightarrow>
            do {
              (ok, flds) \<leftarrow> split_fields frame body_start body_len
                 (replicate 7 \<lparr>fv_ptr = 0, fv_len = 0\<rparr>) 7;
              vdm \<leftarrow> (if ok then formatter_is_vdm frame (flds ! 0) else Some False);
              if \<not> vdm then Some (False, flt)
              else do {
                t \<leftarrow> parse_uint_field frame (flds ! 1);
                case t of
                  None \<Rightarrow> Some (False, flt)
                | Some tot \<Rightarrow>
                    do {
                      n \<leftarrow> parse_uint_field frame (flds ! 2);
                      case n of
                        None \<Rightarrow> Some (False, flt)
                      | Some fragment \<Rightarrow>
                          if tot = 0 \<or> fragment = 0 \<or> fragment > tot
                          then Some (False, flt)
                          else do {
                            channel \<leftarrow> channel_value frame (flds ! 4);
                            if fragment > 1
                            then drop_continuation flt frame (flds ! 3) channel tot
                                   fragment
                            else drop_first flt frame (flds ! 3) (flds ! 5) channel
                                   tot
                          }
                    }
              }
            }
      })"

definition ais_mmsi_filter_should_drop ::
  "ais_mmsi_filter option \<Rightarrow> byte list option \<Rightarrow> nat
    \<Rightarrow> (bool \<times> ais_mmsi_filter option) option"
where
  "ais_mmsi_filter_should_drop flt frame len =
     (case (flt, frame) of
        (Some f, Some text) \<Rightarrow>
          map_option (\<lambda>(d, f'). (d, Some f')) (should_drop_frame f text len)
      | _ \<Rightarrow> Some (False, flt))"

section \<open>The decision over lists\<close>

definition fv_bytes :: "byte list \<Rightarrow> field_view \<Rightarrow> byte list" where
  "fv_bytes frame v = take (fv_len v) (drop (fv_ptr v) frame)"

definition fv_inside :: "byte list \<Rightarrow> field_view \<Rightarrow> bool" where
  "fv_inside frame v \<longleftrightarrow> fv_ptr v + fv_len v \<le> length frame"

text \<open>The body of a sentence with a correct checksum.\<close>

definition sentence_body :: "byte list \<Rightarrow> byte list option" where
  "sentence_body fr =
     (case fr of
        [] \<Rightarrow> None
      | c # rest \<Rightarrow>
          if length fr < 5 \<or> (c \<noteq> ch CHR ''!'' \<and> c \<noteq> ch CHR ''$'') then None
          else (let body = takeWhile (\<lambda>b. b \<noteq> ch CHR ''*'') rest in
                case dropWhile (\<lambda>b. b \<noteq> ch CHR ''*'') rest of
                  _ # h # l # _ \<Rightarrow>
                    if 0 \<le> hex_value h \<and> 0 \<le> hex_value l \<and>
                       foldl (XOR) 0 body = word_of_int (push_bit 4 (hex_value h) OR hex_value l)
                    then Some body else None
                | _ \<Rightarrow> None))"

fun split_commas :: "byte list \<Rightarrow> byte list list" where
  "split_commas [] = [[]]"
| "split_commas (c # cs) =
     (if c = ch CHR '','' then [] # split_commas cs
      else case split_commas cs of [] \<Rightarrow> [[c]] | f # fs \<Rightarrow> (c # f) # fs)"

definition dec_digits :: "nat \<Rightarrow> byte list \<Rightarrow> nat" where
  "dec_digits n cs = foldl (\<lambda>n c. 10 * n + (unat c - 48)) n cs"

definition field_uint :: "byte list \<Rightarrow> byte option" where
  "field_uint cs =
     (if cs \<noteq> [] \<and> length cs \<le> 3 \<and> list_all isdigit cs \<and> dec_digits 0 cs \<le> 255
      then Some (of_nat (dec_digits 0 cs)) else None)"

definition sixbits :: "nat \<Rightarrow> byte list \<Rightarrow> nat" where
  "sixbits n cs = foldl (\<lambda>n c. 64 * n + nat (ais_sixbit_value c)) n cs"

definition payload_mmsi :: "byte list \<Rightarrow> u32 option" where
  "payload_mmsi cs =
     (if 7 \<le> length cs \<and> list_all (\<lambda>c. 0 \<le> ais_sixbit_value c) (take 7 cs)
      then Some (of_nat (sixbits 0 (take 7 cs) div 16 mod 2 ^ 30)) else None)"

definition is_vdm :: "byte list \<Rightarrow> bool" where
  "is_vdm cs \<longleftrightarrow> length cs = 5 \<and> drop 2 cs = bytes_of ''VDM''"

definition channel_of :: "byte list \<Rightarrow> byte" where
  "channel_of cs = (if length cs = 1 then hd cs else 0)"

text \<open>A parsed VDM sentence.\<close>

record vdm =
  vdm_total :: byte
  vdm_fragment :: byte
  vdm_seq :: "byte list"
  vdm_channel :: byte
  vdm_payload :: "byte list"

definition parse_vdm :: "byte list \<Rightarrow> vdm option" where
  "parse_vdm fr =
     (case sentence_body fr of
        None \<Rightarrow> None
      | Some body \<Rightarrow>
          (let fs = split_commas body in
           if length fs < 7 \<or> \<not> is_vdm (fs ! 0) then None
           else (case (field_uint (fs ! 1), field_uint (fs ! 2)) of
                   (Some t, Some n) \<Rightarrow>
                     if t = 0 \<or> n = 0 \<or> n > t then None
                     else Some \<lparr>vdm_total = t, vdm_fragment = n, vdm_seq = fs ! 3,
                                vdm_channel = channel_of (fs ! 4), vdm_payload = fs ! 5\<rparr>
                 | _ \<Rightarrow> None)))"

definition next_matches :: "ais_mmsi_filter_sequence \<Rightarrow> vdm \<Rightarrow> bool" where
  "next_matches seq v \<longleftrightarrow>
     seq_active seq \<and> total_fragments seq = vdm_total v \<and> next_fragment seq = vdm_fragment v
     \<and> seq_channel seq = vdm_channel v \<and> cstr (sequence_id seq) = vdm_seq v"

definition after_match :: "ais_mmsi_filter_sequence \<Rightarrow> ais_mmsi_filter_sequence" where
  "after_match seq =
     (let s = seq\<lparr>next_fragment := next_fragment seq + 1\<rparr>
      in if next_fragment s > total_fragments s then s\<lparr>seq_active := False\<rparr> else s)"

definition start_sequence :: "ais_mmsi_filter_sequence \<Rightarrow> vdm \<Rightarrow> ais_mmsi_filter_sequence" where
  "start_sequence seq v =
     (if vdm_total v \<le> 1 \<or> vdm_seq v = [] \<or> length (vdm_seq v) > AIS_MMSI_FILTER_SEQ_ID_MAX_LEN
      then seq\<lparr>seq_active := False\<rparr>
      else \<lparr>seq_active = True, total_fragments = vdm_total v, next_fragment = 2,
            sequence_id = vdm_seq v @ [0] @ drop (length (vdm_seq v) + 1) (sequence_id seq),
            seq_channel = vdm_channel v\<rparr>)"

text \<open>The decision for one frame, and the state it leaves.\<close>

definition vdm_decision :: "ais_mmsi_filter \<Rightarrow> vdm \<Rightarrow> bool \<times> ais_mmsi_filter" where
  "vdm_decision flt v =
     (if vdm_fragment v > 1 then
        if next_matches (sequence flt) v
        then (True, flt\<lparr>sequence := after_match (sequence flt)\<rparr>) else (False, flt)
      else if payload_mmsi (vdm_payload v) = Some (own_mmsi flt)
      then (True, flt\<lparr>sequence := start_sequence (sequence flt) v\<rparr>) else (False, flt))"

definition ais_decision :: "ais_mmsi_filter \<Rightarrow> byte list \<Rightarrow> bool \<times> ais_mmsi_filter" where
  "ais_decision flt fr =
     (if own_mmsi flt = 0 then (False, flt)
      else case parse_vdm fr of None \<Rightarrow> (False, flt) | Some v \<Rightarrow> vdm_decision flt v)"

definition filter_ok :: "ais_mmsi_filter \<Rightarrow> bool" where
  "filter_ok flt \<longleftrightarrow>
     (let s = sequence flt in
      length (sequence_id s) = AIS_MMSI_FILTER_SEQ_ID_MAX_LEN + 1 \<and> terminated (sequence_id s) \<and>
      (seq_active s \<longrightarrow> 2 \<le> total_fragments s \<and>
         (next_fragment s = 0 \<or> (2 \<le> next_fragment s \<and> next_fragment s \<le> total_fragments s))))"

section \<open>The C functions compute the decision\<close>

subsection \<open>Checksum\<close>

lemma find_star_eq:
  assumes "len \<le> length frame" and "i \<le> len" and "0 < i"
  shows "find_star frame len i =
    Some (let n = length (takeWhile (\<lambda>b. b \<noteq> ch CHR ''*'') (drop i (take len frame)))
          in if i + n < len then i + n else 0)"
  using assms
proof (induction frame len i rule: find_star.induct)
  case (1 frame len i)
  show ?case
  proof (cases "i < len")
    case True
    then have d: "drop i (take len frame) = frame ! i # drop (Suc i) (take len frame)"
      using 1 by (simp add: Cons_nth_drop_Suc[symmetric])
    show ?thesis
      using True 1 by (subst find_star.simps) (simp add: d Let_def)
  next
    case False
    then show ?thesis using 1 by (subst find_star.simps) simp
  qed
qed

lemma xor_body_eq:
  assumes "star \<le> length frame" and "i \<le> star"
  shows "xor_body frame star i a = Some (foldl (XOR) a (drop i (take star frame)))"
  using assms
proof (induction frame star i a rule: xor_body.induct)
  case (1 frame star i a)
  show ?case
  proof (cases "i < star")
    case True
    then have "drop i (take star frame) = frame ! i # drop (Suc i) (take star frame)"
      using 1 by (simp add: Cons_nth_drop_Suc[symmetric])
    then show ?thesis
      using True 1 by (subst xor_body.simps) simp
  next
    case False
    then show ?thesis using 1 by (subst xor_body.simps) simp
  qed
qed

lemma length_ge3_cases:
  "(case xs of _ # h # l # _ \<Rightarrow> f h l | _ \<Rightarrow> d) = (if 3 \<le> length xs then f (xs ! 1) (xs ! 2) else d)"
  by (auto split: list.splits)

lemma sentence_body_short: "length fr < 5 \<Longrightarrow> sentence_body fr = None"
  by (cases fr) (simp_all add: sentence_body_def)

lemma sentence_body_nth:
  assumes "fr \<noteq> []"
  shows "sentence_body fr =
    (let n = length (takeWhile (\<lambda>b. b \<noteq> ch CHR ''*'') (tl fr)) in
     if length fr < 5 \<or> (hd fr \<noteq> ch CHR ''!'' \<and> hd fr \<noteq> ch CHR ''$'') \<or> n + 4 > length fr then None
     else if 0 \<le> hex_value (fr ! (n + 2)) \<and> 0 \<le> hex_value (fr ! (n + 3)) \<and>
       foldl (XOR) 0 (take n (tl fr)) =
         word_of_int (push_bit 4 (hex_value (fr ! (n + 2))) OR hex_value (fr ! (n + 3)))
     then Some (take n (tl fr)) else None)"
proof -
  obtain c rest where fr: "fr = c # rest" using assms by (cases fr) auto
  define n where "n = length (takeWhile (\<lambda>b. b \<noteq> ch CHR ''*'') rest)"
  have d: "dropWhile (\<lambda>b. b \<noteq> ch CHR ''*'') rest = drop n rest"
    unfolding n_def by (rule dropWhile_eq_drop)
  have t: "takeWhile (\<lambda>b. b \<noteq> ch CHR ''*'') rest = take n rest"
    unfolding n_def by (rule takeWhile_eq_take)
  have idx: "n + 3 \<le> length rest \<Longrightarrow> drop n rest ! 1 = fr ! (n + 2) \<and> drop n rest ! 2 = fr ! (n + 3)"
    by (simp add: fr numeral_eq_Suc)
  have le: "(3 \<le> length (drop n rest)) = (\<not> n + 4 > length fr)"
    by (auto simp: fr)
  show ?thesis
    using idx le
    unfolding sentence_body_def fr list.case Let_def length_ge3_cases t d list.sel n_def[symmetric]
    by auto
qed

lemma checksum_is_valid_eq:
  assumes "len \<le> length frame"
  shows "checksum_is_valid frame len =
    Some (map_option (\<lambda>b. (1, length b)) (sentence_body (take len frame)))"
proof (cases "len < 5")
  case True
  then have "sentence_body (take len frame) = None"
    by (intro sentence_body_short) simp
  then show ?thesis
    using True by (simp add: checksum_is_valid_def)
next
  case False
  define fr where "fr = take len frame"
  have fr: "fr \<noteq> []" "length fr = len" "hd fr = frame ! 0" "drop (Suc 0) fr = tl fr"
    using assms False by (cases frame; cases len; auto simp: fr_def drop_Suc)+
  define n where "n = length (takeWhile (\<lambda>b. b \<noteq> ch CHR ''*'') (tl fr))"
  have n: "n \<le> length (tl fr)" unfolding n_def by (rule length_takeWhile_le)
  have star: "find_star frame len 1 = Some (if n + 1 < len then n + 1 else 0)"
    using assms False by (subst find_star_eq) (auto simp: n_def fr_def drop_Suc Let_def)
  have "n \<le> len - 1" using n fr by simp
  then have "drop 1 (take (n + 1) frame) = take n (tl fr)"
    using False by (cases frame; cases len) (simp_all add: fr_def min_absorb1)
  then have xor: "n + 1 \<le> len \<Longrightarrow> xor_body frame (n + 1) 1 0 = Some (foldl (XOR) 0 (take n (tl fr)))"
    using assms by (subst xor_body_eq) simp_all
  have nth: "k < len \<Longrightarrow> rd frame k = Some (fr ! k)" for k
    using assms by (simp add: fr_def)
  then have r0: "rd frame 0 = Some (hd fr)"
    using False fr by (simp add: hd_conv_nth)
  show ?thesis
  proof (cases "n + 4 \<le> len")
    case True
    then have "rd frame (n + 1 + 1) = Some (fr ! (n + 2))" "rd frame (n + 1 + 2) = Some (fr ! (n + 3))"
      using nth[of "n + 2"] nth[of "n + 3"] by (simp_all add: numeral_3_eq_3)
    then show ?thesis
      unfolding fr_def[symmetric] sentence_body_nth[OF fr(1)] n_def[symmetric] Let_def
        checksum_is_valid_def star r0
      using True False fr(2) n xor by (auto simp: min_absorb2)
  next
    case no: False
    then show ?thesis
      unfolding fr_def[symmetric] sentence_body_nth[OF fr(1)] n_def[symmetric] Let_def
        checksum_is_valid_def star r0
      using False fr(2) by auto
  qed
qed

lemma sentence_body_prefix:
  "sentence_body fr = Some b \<Longrightarrow> 1 + length b \<le> length fr \<and> take (length b) (drop 1 fr) = b"
  by (cases fr) (auto simp: sentence_body_short sentence_body_nth Let_def min_def split: if_splits)

subsection \<open>Fields\<close>

lemma split_commas_nonempty [simp]: "split_commas s \<noteq> []"
  by (cases s) (auto split: list.splits)

lemma split_commas_append:
  "ch CHR '','' \<notin> set u \<Longrightarrow> split_commas (u @ ch CHR '','' # r) = u # split_commas r"
  by (induction u) auto

lemma split_commas_single: "ch CHR '','' \<notin> set u \<Longrightarrow> split_commas u = [u]"
  by (induction u) auto

definition views_agree :: "byte list \<Rightarrow> field_view list \<Rightarrow> byte list list \<Rightarrow> nat \<Rightarrow> bool" where
  "views_agree frame flds segs field \<longleftrightarrow>
     (\<forall>k < length segs. field + k < length flds \<longrightarrow>
        fv_inside frame (flds ! (field + k)) \<and> fv_bytes frame (flds ! (field + k)) = segs ! k)"

lemma views_agree_Cons:
  "views_agree frame flds (s # segs) field \<longleftrightarrow>
     (field < length flds \<longrightarrow> fv_inside frame (flds ! field) \<and> fv_bytes frame (flds ! field) = s) \<and>
     views_agree frame flds segs (Suc field)"
  unfolding views_agree_def
  by (auto simp: less_Suc_eq_0_disj all_conj_distrib) 

text \<open>What the loop promises from a state on: \<open>segs\<close> are the fields that are left.\<close>

definition split_post ::
  "byte list \<Rightarrow> byte list list \<Rightarrow> nat \<Rightarrow> nat \<Rightarrow> field_view list \<Rightarrow> (bool \<times> field_view list) option \<Rightarrow> bool"
where
  "split_post frame segs field_count field flds res \<longleftrightarrow>
     (\<exists>flds'. res = Some (field_count \<le> field + length segs, flds') \<and> length flds' = field_count \<and>
        (\<forall>k < field. flds' ! k = flds ! k) \<and> views_agree frame flds' segs field)"

lemma split_post_full:
  "field_count \<le> field \<Longrightarrow> length flds = field_count \<Longrightarrow>
    split_post frame segs field_count field flds (Some (True, flds))"
  by (auto simp: split_post_def views_agree_def)

lemma split_post_done:
  "length flds = field_count \<Longrightarrow>
    split_post frame [] field_count field flds (Some (field_count \<le> field, flds))"
  by (auto simp: split_post_def views_agree_def)

lemma split_post_Cons:
  assumes "split_post frame segs field_count (Suc field) (flds[field := v]) res"
    and "field < field_count" and "length flds = field_count"
    and "fv_inside frame v" and "fv_bytes frame v = seg"
  shows "split_post frame (seg # segs) field_count field flds res"
  using assms by (auto simp: split_post_def views_agree_Cons)

lemma split_fields_loop_eq:
  assumes "body + body_len \<le> length frame" and "start \<le> i" and "i \<le> body_len"
    and "ch CHR '','' \<notin> set (take (i - start) (drop (body + start) frame))"
    and "length flds = field_count"
  shows "split_post frame (split_commas (drop start (take body_len (drop body frame))))
      field_count field flds (split_fields_loop frame body body_len field_count i field start flds)"
  using assms
proof (induction frame body body_len field_count i field start flds rule: split_fields_loop.induct)
  case (1 frame body body_len field_count i field start flds)
  let ?B = "take body_len (drop body frame)"
  let ?u = "take (i - start) (drop (body + start) frame)"
  let ?v = "\<lparr>fv_ptr = body + start, fv_len = i - start\<rparr>"
  have v: "fv_inside frame ?v" "fv_bytes frame ?v = ?u"
    using "1.prems" by (auto simp: fv_inside_def fv_bytes_def)
  have "body_len - start = (i - start) + (body_len - i)"
    using "1.prems" by simp
  then have "take (body_len - start) (drop (body + start) frame) =
      ?u @ take (body_len - i) (drop (i - start) (drop (body + start) frame))"
    by (simp only: take_add)
  then have split: "drop start ?B = ?u @ drop i ?B"
    using "1.prems" by (simp add: drop_take add.commute)
  show ?case
  proof (cases "i = body_len")
    case True
    then have s: "split_commas (drop start ?B) = [?u]"
      using split "1.prems" by (simp add: split_commas_single)
    have "split_post frame [?u] field_count field flds
        (Some (field_count \<le> Suc field, flds[field := ?v]))" if "field < field_count"
      using that v "1.prems" by (intro split_post_Cons[OF split_post_done]) auto
    then show ?thesis
      unfolding s using True "1.prems" split_post_full
      by (subst split_fields_loop.simps) (auto simp: split_fields_loop.simps not_le)
  next
    case False
    then have i: "i < body_len" using "1.prems" by simp
    then have ri: "rd frame (body + i) = Some (frame ! (body + i))" using "1.prems" by simp
    have d: "drop i ?B = frame ! (body + i) # drop (Suc i) ?B"
      using i "1.prems" Cons_nth_drop_Suc[of i ?B] by simp
    show ?thesis
    proof (cases "frame ! (body + i) = ch CHR '',''")
      case True
      then have s: "split_commas (drop start ?B) = ?u # split_commas (drop (Suc i) ?B)"
        using split d "1.prems"(4) by (simp add: split_commas_append[simplified])
      have "split_post frame (split_commas (drop start ?B)) field_count field flds
          (split_fields_loop frame body body_len field_count (Suc i) (Suc field) (Suc i) (flds[field := ?v]))"
        if "field < field_count"
        unfolding s using "1.IH"(2)[of True] that i ri True "1.prems" v
        by (intro split_post_Cons) auto
      then show ?thesis
        using i ri True "1.prems" split_post_full
        by (subst split_fields_loop.simps) (auto simp: not_le)
    next
      case False
      have "take (Suc i - start) (drop (body + start) frame) = ?u @ [frame ! (body + i)]"
        using i "1.prems" by (simp add: Suc_diff_le take_Suc_conv_app_nth)
      then show ?thesis
        using "1.IH"(1)[of False] False i ri "1.prems" by (subst split_fields_loop.simps) simp
    qed
  qed
qed

subsection \<open>Numbers\<close>

lemma isdigit_unat: "isdigit c \<longleftrightarrow> 48 \<le> unat c \<and> unat c \<le> 57"
  by (simp add: isdigit_def word_le_nat_alt)

lemma dec_digits_Nil [simp]: "dec_digits n [] = n"
  by (simp add: dec_digits_def)

lemma dec_digits_Cons [simp]: "dec_digits n (c # cs) = dec_digits (10 * n + (unat c - 48)) cs"
  by (simp add: dec_digits_def)

lemma dec_digits_mono: "n \<le> dec_digits n cs"
proof (induction cs arbitrary: n)
  case (Cons c cs)
  show ?case using Cons[of "10 * n + (unat c - 48)"] by simp
qed simp

lemma fv_bytes_drop:
  assumes "fv_inside frame v" and "i < fv_len v"
  shows "drop i (fv_bytes frame v) = frame ! (fv_ptr v + i) # drop (Suc i) (fv_bytes frame v)"
    and "rd frame (fv_ptr v + i) = Some (frame ! (fv_ptr v + i))"
  using assms Cons_nth_drop_Suc[of i "fv_bytes frame v"]
  by (auto simp: fv_inside_def fv_bytes_def)

lemma length_fv_bytes [simp]: "fv_inside frame v \<Longrightarrow> length (fv_bytes frame v) = fv_len v"
  by (simp add: fv_inside_def fv_bytes_def)

lemma uint_step:
  fixes parsed :: u16
  assumes "isdigit c" and "parsed \<le> 255"
  shows "unat (parsed * 10 + (ucast c - 48)) = 10 * unat parsed + (unat c - 48)"
proof -
  have c: "48 \<le> unat c" "unat c \<le> 57" using assms by (auto simp: isdigit_unat)
  have p: "unat parsed \<le> 255" using assms(2) by (simp add: word_le_nat_alt)
  have u: "unat (ucast c :: u16) = unat c" by simp
  have s: "unat (ucast c - 48 :: u16) = unat c - 48"
    using c u by (subst unat_sub) (auto simp: word_le_nat_alt)
  show ?thesis using c p by (simp add: unat_word_ariths s)
qed

lemma parse_uint_loop_eq:
  assumes "fv_inside frame v" and "i \<le> fv_len v" and "parsed \<le> 255"
  shows "parse_uint_loop frame v i parsed =
    Some (let cs = drop i (fv_bytes frame v) in
          if list_all isdigit cs \<and> dec_digits (unat parsed) cs \<le> 255
          then Some (of_nat (dec_digits (unat parsed) cs)) else None)"
  using assms
proof (induction frame v i parsed rule: parse_uint_loop.induct)
  case (1 frame v i parsed)
  show ?case
  proof (cases "i < fv_len v")
    case True
    define c where "c = frame ! (fv_ptr v + i)"
    define p' where "p' = parsed * 10 + (ucast c - 48 :: u16)"
    have d: "drop i (fv_bytes frame v) = c # drop (Suc i) (fv_bytes frame v)"
      and r: "rd frame (fv_ptr v + i) = Some c"
      using fv_bytes_drop[OF "1.prems"(1) True] by (simp_all add: c_def)
    have p': "isdigit c \<Longrightarrow> unat p' = 10 * unat parsed + (unat c - 48)"
      using uint_step "1.prems"(3) by (simp add: p'_def)
    show ?thesis
    proof (cases "isdigit c")
      case dig: True
      show ?thesis
      proof (cases "p' > 255")
        case over: True
        then have "unat p' > 255" by (simp add: word_less_nat_alt)
        then have "dec_digits (unat p') (drop (Suc i) (fv_bytes frame v)) > 255"
          using dec_digits_mono order_less_le_trans by blast
        then show ?thesis
          using True r dig over p'
          by (subst parse_uint_loop.simps) (simp add: d Let_def p'_def[symmetric])
      next
        case False
        then have "parse_uint_loop frame v (Suc i) p' =
            Some (let cs = drop (Suc i) (fv_bytes frame v) in
              if list_all isdigit cs \<and> dec_digits (unat p') cs \<le> 255
              then Some (of_nat (dec_digits (unat p') cs)) else None)"
          using "1.IH"[OF True r _ p'_def] dig "1.prems" True by (simp add: not_less)
        then show ?thesis
          using True r dig False p'
          by (subst parse_uint_loop.simps) (simp add: d Let_def p'_def[symmetric])
      qed
    next
      case False
      then show ?thesis
        using True r by (subst parse_uint_loop.simps) (simp add: d)
    qed
  next
    case False
    then have "unat parsed \<le> 255" "drop i (fv_bytes frame v) = []"
      using "1.prems" by (simp_all add: word_le_nat_alt)
    then show ?thesis
      using False by (subst parse_uint_loop.simps) simp
  qed
qed

lemma parse_uint_field_eq:
  "fv_inside frame v \<Longrightarrow> parse_uint_field frame v = Some (field_uint (fv_bytes frame v))"
  by (auto simp: parse_uint_field_def field_uint_def parse_uint_loop_eq Let_def
      simp flip: length_0_conv)

subsection \<open>The MMSI\<close>

lemma ais_sixbit_value_le: "ais_sixbit_value c \<le> 63"
  by (auto simp: ais_sixbit_value_def Let_def)

lemma sixbits_Nil [simp]: "sixbits n [] = n"
  by (simp add: sixbits_def)

lemma sixbits_Cons [simp]: "sixbits n (c # cs) = sixbits (64 * n + nat (ais_sixbit_value c)) cs"
  by (simp add: sixbits_def)

text \<open>One round of the shift-and-or loop appends six bits without overflow.\<close>

lemma append_sixbits:
  fixes bits :: u64
  assumes "unat bits < 2 ^ 58" and "0 \<le> v" and "v < 64"
  shows "unat (push_bit 6 bits OR word_of_int v) = 64 * unat bits + nat v"
proof -
  have v: "nat v < 2 ^ 6" using assms by simp
  have low: "\<not> bit (nat v) n" if "6 \<le> n" for n
    using that v by (metis bit_take_bit_iff not_le take_bit_nat_eq_self)
  have "push_bit 6 bits OR word_of_int v = of_nat (push_bit 6 (unat bits) OR nat v)"
  proof -
    have "word_of_int v = (of_nat (nat v) :: u64)" using assms by simp
    moreover have "push_bit 6 bits = of_nat (push_bit 6 (unat bits))"
      by (simp add: of_nat_push_bit)
    ultimately show ?thesis by (simp only: of_nat_or_eq)
  qed
  moreover have "push_bit 6 (unat bits) OR nat v = 64 * unat bits + nat v"
  proof -
    have "push_bit 6 (unat bits) OR nat v = push_bit 6 (unat bits) + nat v"
      using low by (intro disjunctive_add_eq_or [symmetric])
         (auto simp: bit_eq_iff bit_and_iff bit_push_bit_iff_nat simp del: bit_nat_iff)
    then show ?thesis by (simp add: push_bit_eq_mult mult.commute)
  qed
  moreover have "64 * unat bits + nat v < 2 ^ 64" using assms by simp
  ultimately show ?thesis
    by (simp only: unat_of_nat_u64)
qed


lemma decode_bits_eq:
  assumes "p + 7 \<le> length frame" and "i \<le> 7" and "unat bits < 64 ^ i"
  shows "decode_bits frame p i bits =
    Some (let cs = drop i (take 7 (drop p frame)) in
          if list_all (\<lambda>c. 0 \<le> ais_sixbit_value c) cs
          then Some (of_nat (sixbits (unat bits) cs)) else None)"
  using assms
proof (induction frame p i bits rule: decode_bits.induct)
  case (1 frame p i bits)
  show ?case
  proof (cases "i < 7")
    case True
    define c where "c = frame ! (p + i)"
    let ?v = "ais_sixbit_value c"
    have r: "rd frame (p + i) = Some c" using "1.prems" True by (simp add: c_def)
    have d: "drop i (take 7 (drop p frame)) = c # drop (Suc i) (take 7 (drop p frame))"
      using "1.prems" True Cons_nth_drop_Suc[of i "take 7 (drop p frame)"] by (simp add: c_def)
    have "(64::nat) ^ i \<le> 64 ^ 6" using True by (intro power_increasing) auto
    then have small: "unat bits < 2 ^ 58" using "1.prems"(3) by simp
    show ?thesis
    proof (cases "0 \<le> ?v")
      case pos: True
      have u: "unat (push_bit 6 bits OR word_of_int ?v) = 64 * unat bits + nat ?v"
        using append_sixbits[OF small pos] ais_sixbit_value_le[of c] by simp
      have "64 * unat bits + nat ?v < 64 ^ Suc i"
        using "1.prems"(3) ais_sixbit_value_le[of c] by simp
      then show ?thesis
        using "1.IH"[OF True r refl] pos "1.prems" True r u
        by (subst decode_bits.simps) (simp add: d Let_def)
    next
      case False
      then show ?thesis
        using True r by (subst decode_bits.simps) (simp add: d Let_def)
    qed
  next
    case False
    then show ?thesis using "1.prems" by (subst decode_bits.simps) simp
  qed
qed

lemma sixbits_bound: "n < 64 ^ k \<Longrightarrow> sixbits n cs < 64 ^ (k + length cs)"
proof (induction cs arbitrary: n k)
  case (Cons c cs)
  have "64 * n + nat (ais_sixbit_value c) < 64 ^ Suc k"
    using Cons.prems ais_sixbit_value_le[of c] by simp
  from Cons.IH[OF this] show ?case by simp
qed simp

lemma mmsi_bits:
  assumes "n < 2 ^ 42"
  shows "ucast (drop_bit 4 (of_nat n :: u64) AND 0x3fffffff) = (of_nat (n div 16 mod 2 ^ 30) :: u32)"
proof -
  have "(0x3fffffff :: u64) = mask 30" by (simp add: mask_eq_exp_minus_1)
  then have "drop_bit 4 (of_nat n :: u64) AND 0x3fffffff = take_bit 30 (drop_bit 4 (of_nat n))"
    by (simp only: take_bit_eq_mask)
  also have "\<dots> = (of_nat (take_bit 30 (drop_bit 4 n)) :: u64)"
  proof -
    have "unat (of_nat n :: u64) = n" using assms by (simp add: unat_of_nat)
    then have "unat (take_bit 30 (drop_bit 4 (of_nat n :: u64))) = take_bit 30 (drop_bit 4 n)"
      using assms by (simp add: unsigned_take_bit_eq unsigned_drop_bit_eq take_bit_nat_eq_self)
    then show ?thesis by (rule word_of_nat_unat)
  qed
  also have "take_bit 30 (drop_bit 4 n) = n div 16 mod 2 ^ 30"
    by (simp add: take_bit_eq_mod drop_bit_eq_div)
  finally have e: "drop_bit 4 (of_nat n :: u64) AND 0x3fffffff = of_nat (n div 16 mod 2 ^ 30)" .
  have "n div 16 mod 2 ^ 30 < 2 ^ 30" by simp
  then have "unat (of_nat (n div 16 mod 2 ^ 30) :: u64) = n div 16 mod 2 ^ 30"
    by (simp add: unat_of_nat)
  then show ?thesis unfolding e by (metis of_nat_unat)
qed

lemma decode_mmsi_eq:
  assumes "fv_inside frame v"
  shows "decode_mmsi frame v = Some (payload_mmsi (fv_bytes frame v))"
proof (cases "fv_len v < 7")
  case True
  then show ?thesis using assms by (simp add: decode_mmsi_def payload_mmsi_def)
next
  case False
  have t: "take 7 (drop (fv_ptr v) frame) = take 7 (fv_bytes frame v)"
    using False by (simp add: fv_bytes_def min_absorb1)
  have d: "decode_bits frame (fv_ptr v) 0 0 =
      Some (if list_all (\<lambda>c. 0 \<le> ais_sixbit_value c) (take 7 (fv_bytes frame v))
            then Some (of_nat (sixbits 0 (take 7 (fv_bytes frame v)))) else None)"
    using False assms by (subst decode_bits_eq) (auto simp: fv_inside_def t Let_def)
  have "sixbits 0 (take 7 (fv_bytes frame v)) < 2 ^ 42"
    using sixbits_bound[of 0 0 "take 7 (fv_bytes frame v)"] False assms by simp
  then show ?thesis
    using False assms by (simp add: decode_mmsi_def payload_mmsi_def d mmsi_bits)
qed

subsection \<open>The entry point\<close>

lemma fv_bytes_nth: "fv_inside frame v \<Longrightarrow> i < fv_len v \<Longrightarrow> fv_bytes frame v ! i = frame ! (fv_ptr v + i)"
  by (simp add: fv_bytes_def fv_inside_def)

lemma fv_rd: "fv_inside frame v \<Longrightarrow> i < fv_len v \<Longrightarrow> rd frame (fv_ptr v + i) = Some (fv_bytes frame v ! i)"
  by (simp add: fv_bytes_def fv_inside_def)

lemma formatter_is_vdm_eq:
  assumes "fv_inside frame v"
  shows "formatter_is_vdm frame v = Some (is_vdm (fv_bytes frame v))"
proof (cases "fv_len v = 5")
  case True
  then have "length (fv_bytes frame v) = Suc (Suc (Suc (Suc (Suc 0))))" using assms by simp
  then obtain a b c d e where "fv_bytes frame v = [a, b, c, d, e]"
    by (auto simp: length_Suc_conv)
  then show ?thesis
    using True assms fv_rd[OF assms, of 2] fv_rd[OF assms, of 3] fv_rd[OF assms, of 4]
    by (simp add: formatter_is_vdm_def is_vdm_def bytes_of_def numeral_eq_Suc)
next
  case False
  then show ?thesis using assms by (simp add: formatter_is_vdm_def is_vdm_def)
qed

lemma channel_value_eq:
  assumes "fv_inside frame v"
  shows "channel_value frame v = Some (channel_of (fv_bytes frame v))"
  using assms fv_rd[OF assms, of 0] length_fv_bytes[OF assms]
  by (cases "fv_bytes frame v") (auto simp: channel_value_def channel_of_def)

lemma sequence_matches_eq:
  assumes "terminated (sequence_id seq)" and "fv_inside frame v"
  shows "sequence_matches seq frame v channel tot fragment =
    Some (seq_active seq \<and> total_fragments seq = tot \<and> next_fragment seq = fragment
      \<and> seq_channel seq = channel \<and> cstr (sequence_id seq) = fv_bytes frame v)"
proof -
  let ?s = "sequence_id seq"
  obtain t where t: "?s = cstr ?s @ 0 # t" using cstr_split_ex[OF assms(1)] by blast
  then have tk: "take (length (cstr ?s)) ?s = cstr ?s" by (metis append_eq_conv_conj)
  have "length (cstr ?s) = fv_len v \<Longrightarrow>
      strncmp_eq ?s 0 frame (fv_ptr v) (fv_len v) = Some (cstr ?s = fv_bytes frame v)"
    using assms tk cstr_no_nul[of ?s] length_cstr_le[of ?s]
    by (subst strncmp_eq_exact) (auto simp: fv_inside_def fv_bytes_def)
  moreover have "cstr ?s = fv_bytes frame v \<Longrightarrow> length (cstr ?s) = fv_len v"
    using assms(2) by simp
  ultimately show ?thesis
    using assms(1) by (auto simp: sequence_matches_def strlen_eq)
qed

lemma drop_continuation_eq:
  assumes "filter_ok flt" and "fv_inside frame v"
    and "vdm_total d = tot" "vdm_fragment d = fragment" "vdm_channel d = channel"
    and "vdm_seq d = fv_bytes frame v"
  shows "drop_continuation flt frame v channel tot fragment =
    Some (if next_matches (sequence flt) d
          then (True, flt\<lparr>sequence := after_match (sequence flt)\<rparr>) else (False, flt))"
  using assms
  by (auto simp: drop_continuation_def sequence_matches_eq filter_ok_def Let_def next_matches_def
      after_match_def)

lemma remember_sequence_eq:
  assumes "fv_inside frame v" and "vdm_total d = tot" and "vdm_channel d = channel"
    and "vdm_seq d = fv_bytes frame v"
  shows "remember_sequence flt frame v channel tot =
    Some (flt\<lparr>sequence := start_sequence (sequence flt) d\<rparr>)"
proof -
  have "tot \<le> 1 \<longleftrightarrow> tot < 2" by (simp add: word_le_nat_alt word_less_nat_alt) linarith
  moreover have "fv_bytes frame v = [] \<longleftrightarrow> fv_len v = 0"
    using assms(1) by (metis length_0_conv length_fv_bytes)
  ultimately show ?thesis
    using assms
    by (auto simp: remember_sequence_def start_sequence_def Let_def fv_inside_def fv_bytes_def)
qed

lemma drop_first_eq:
  assumes "fv_inside frame v" and "fv_inside frame w" and "vdm_total d = tot" "vdm_channel d = channel"
    and "vdm_seq d = fv_bytes frame v" and "vdm_payload d = fv_bytes frame w"
  shows "drop_first flt frame v w channel tot =
    Some (if payload_mmsi (vdm_payload d) = Some (own_mmsi flt)
          then (True, flt\<lparr>sequence := start_sequence (sequence flt) d\<rparr>) else (False, flt))"
proof -
  have "\<not> 1 < tot \<Longrightarrow> start_sequence (sequence flt) d = (sequence flt)\<lparr>seq_active := False\<rparr>"
    using assms(3) by (auto simp: start_sequence_def not_less)
  then show ?thesis
    using assms(2,6) remember_sequence_eq[OF assms(1,3,4,5), of flt]
    by (auto simp: drop_first_def decode_mmsi_eq)
qed

lemma split_fields_eq:
  assumes "1 + length b \<le> length frame" and "take (length b) (drop 1 frame) = b"
  obtains flds where "split_fields frame 1 (length b) (replicate 7 \<lparr>fv_ptr = 0, fv_len = 0\<rparr>) 7 =
      Some (7 \<le> length (split_commas b), flds)"
    and "length flds = 7"
    and "\<And>k. k < 7 \<Longrightarrow> 7 \<le> length (split_commas b) \<Longrightarrow>
      fv_inside frame (flds ! k) \<and> fv_bytes frame (flds ! k) = split_commas b ! k"
proof -
  from split_fields_loop_eq[of 1 "length b" frame 0 0 "replicate 7 \<lparr>fv_ptr = 0, fv_len = 0\<rparr>" 7 0]
    assms obtain flds where "split_fields frame 1 (length b) (replicate 7 \<lparr>fv_ptr = 0, fv_len = 0\<rparr>) 7 =
      Some (7 \<le> length (split_commas b), flds)" "length flds = 7" "views_agree frame flds (split_commas b) 0"
    by (auto simp: split_fields_def split_post_def)
  then show ?thesis
    using that by (simp add: views_agree_def)
qed

lemma should_drop_fields_eq:
  assumes ok: "filter_ok flt" and nz: "len \<noteq> 0" "own_mmsi flt \<noteq> 0"
    and cs: "checksum_is_valid frame len = Some (Some (1, length b))"
    and body: "sentence_body (take len frame) = Some b"
    and sf: "split_fields frame 1 (length b) (replicate 7 \<lparr>fv_ptr = 0, fv_len = 0\<rparr>) 7 = Some (True, flds)"
    and seven: "7 \<le> length (split_commas b)"
    and v: "\<And>k. k < 7 \<Longrightarrow> fv_inside frame (flds ! k) \<and> fv_bytes frame (flds ! k) = split_commas b ! k"
  shows "should_drop_frame flt frame len = Some (ais_decision flt (take len frame))"
proof (cases "parse_vdm (take len frame)")
  case None
  then show ?thesis
    using nz cs body seven sf v[of 0] v[of 1] v[of 2]
    by (auto simp: should_drop_frame_def ais_decision_def parse_vdm_def Let_def
        formatter_is_vdm_eq parse_uint_field_eq channel_value_eq split: option.splits if_splits)
next
  case (Some d)
  then have d: "is_vdm (split_commas b ! 0)" "field_uint (split_commas b ! 1) = Some (vdm_total d)"
    "field_uint (split_commas b ! 2) = Some (vdm_fragment d)" "vdm_seq d = split_commas b ! 3"
    "vdm_channel d = channel_of (split_commas b ! 4)" "vdm_payload d = split_commas b ! 5"
    "vdm_total d \<noteq> 0" "vdm_fragment d \<noteq> 0" "\<not> vdm_fragment d > vdm_total d"
    using body seven by (auto simp: parse_vdm_def Let_def split: option.splits if_splits)
  have "should_drop_frame flt frame len = Some (vdm_decision flt d)"
    using nz cs body sf seven d v[of 0] v[of 1] v[of 2] v[of 3] v[of 4] v[of 5]
      drop_continuation_eq[OF ok, of frame "flds ! 3" d]
      drop_first_eq[of frame "flds ! 3" "flds ! 5" d]
    by (simp add: should_drop_frame_def vdm_decision_def
        formatter_is_vdm_eq parse_uint_field_eq channel_value_eq)
  then show ?thesis using nz Some by (simp add: ais_decision_def)
qed

lemma should_drop_frame_eq:
  assumes len: "len \<le> length frame" and ok: "filter_ok flt"
  shows "should_drop_frame flt frame len = Some (ais_decision flt (take len frame))"
proof (cases "len = 0 \<or> own_mmsi flt = 0")
  case True
  then show ?thesis
    by (auto simp: should_drop_frame_def ais_decision_def parse_vdm_def sentence_body_def)
next
  case nz: False
  note cs = checksum_is_valid_eq[OF len]
  show ?thesis
  proof (cases "sentence_body (take len frame)")
    case None
    then show ?thesis
      using nz cs by (simp add: should_drop_frame_def ais_decision_def parse_vdm_def)
  next
    case (Some b)
    have b: "1 + length b \<le> length frame" "take (length b) (drop 1 frame) = b"
      using sentence_body_prefix[OF Some] len by (auto simp: drop_take min_absorb1)
    obtain flds where sf: "split_fields frame 1 (length b) (replicate 7 \<lparr>fv_ptr = 0, fv_len = 0\<rparr>) 7 =
        Some (7 \<le> length (split_commas b), flds)"
      and v: "\<And>k. k < 7 \<Longrightarrow> 7 \<le> length (split_commas b) \<Longrightarrow>
        fv_inside frame (flds ! k) \<and> fv_bytes frame (flds ! k) = split_commas b ! k"
      using split_fields_eq[OF b] by metis
    show ?thesis
    proof (cases "7 \<le> length (split_commas b)")
      case True
      then show ?thesis
        using nz cs Some sf v by (intro should_drop_fields_eq[OF ok]) auto
    next
      case False
      then show ?thesis
        using nz cs Some sf
        by (simp add: should_drop_frame_def ais_decision_def parse_vdm_def Let_def)
    qed
  qed
qed

end
