(* ===== verification/Ais_Mmsi_Properties.thy ===== *)
theory Ais_Mmsi_Properties
  imports Ais_Mmsi_Filter
begin

text \<open>
  What the AIS self-MMSI filter guarantees: the invariant of its sequence record and that
  every frame is handled inside its bounds, the round trip through the six-bit armouring
  of the payload, whole multi-sentence messages, and what a stale sequence does to the
  sentences of another vessel.
\<close>

section \<open>Properties of the decision\<close>

subsection \<open>The invariant\<close>

lemma filter_ok_cleared: "filter_ok (cleared_filter mmsi)"
  by (simp add: filter_ok_def cleared_filter_def Let_def terminated_def
      AIS_MMSI_FILTER_SEQ_ID_MAX_LEN_def)

lemma next_fragment_range:
  fixes n t :: byte
  assumes "2 \<le> t" and "n = 0 \<or> (2 \<le> n \<and> n \<le> t)" and "n \<noteq> 0" and "\<not> n + 1 > t"
  shows "n + 1 = 0 \<or> (2 \<le> n + 1 \<and> n + 1 \<le> t)"
  using assms by unat_arith

lemma after_match_ok:
  assumes "filter_ok flt" and "next_fragment (sequence flt) \<noteq> 0" and "seq_active (sequence flt)"
  shows "filter_ok (flt\<lparr>sequence := after_match (sequence flt)\<rparr>)"
  using assms next_fragment_range[of "total_fragments (sequence flt)" "next_fragment (sequence flt)"]
  by (auto simp: filter_ok_def after_match_def Let_def)

lemma start_sequence_ok:
  assumes "filter_ok flt"
  shows "filter_ok (flt\<lparr>sequence := start_sequence (sequence flt) v\<rparr>)"
proof -
  have "\<not> vdm_total v \<le> 1 \<Longrightarrow> 2 \<le> vdm_total v" by unat_arith
  then show ?thesis
    using assms
    by (auto simp: filter_ok_def start_sequence_def Let_def terminated_def)
qed

lemma vdm_decision_ok:
  assumes "filter_ok flt"
  shows "filter_ok (snd (vdm_decision flt v))"
proof -
  have "1 < vdm_fragment v \<Longrightarrow> vdm_fragment v \<noteq> 0" by unat_arith
  then show ?thesis
    using assms by (auto simp: vdm_decision_def next_matches_def intro: after_match_ok start_sequence_ok)
qed

lemma ais_decision_ok: "filter_ok flt \<Longrightarrow> filter_ok (snd (ais_decision flt fr))"
  by (auto simp: ais_decision_def vdm_decision_ok split: option.splits)

lemma vdm_decision_kept: "fst (vdm_decision flt v) = False \<Longrightarrow> snd (vdm_decision flt v) = flt"
  by (auto simp: vdm_decision_def split: if_splits)

lemma ais_decision_kept: "\<not> fst (ais_decision flt fr) \<Longrightarrow> snd (ais_decision flt fr) = flt"
  by (auto simp: ais_decision_def vdm_decision_kept split: option.splits)

lemma own_mmsi_ais_decision [simp]: "own_mmsi (snd (ais_decision flt fr)) = own_mmsi flt"
  by (auto simp: ais_decision_def vdm_decision_def split: option.splits)

text \<open>C7. For every frame of \<open>len\<close> readable bytes and every filter state that satisfies the
  invariant, \<open>ais_mmsi_filter_should_drop\<close> reads only inside the frame and inside the
  sequence buffer, returns the list-level decision for the \<open>len\<close> bytes, and leaves a
  state that satisfies the invariant again; a frame that is kept leaves the state as it was.\<close>

theorem should_drop_safe_and_correct:
  assumes "len \<le> length frame" and "filter_ok flt"
  shows "ais_mmsi_filter_should_drop (Some flt) (Some frame) len =
      Some (fst (ais_decision flt (take len frame)), Some (snd (ais_decision flt (take len frame))))
    \<and> filter_ok (snd (ais_decision flt (take len frame)))
    \<and> (fst (ais_decision flt (take len frame)) \<or> snd (ais_decision flt (take len frame)) = flt)"
  using assms ais_decision_kept[of flt "take len frame"]
  by (auto simp: ais_mmsi_filter_should_drop_def should_drop_frame_eq ais_decision_ok split_def)

lemmas ais_eval = parse_vdm_def sentence_body_def hex_value_def field_uint_def isdigit_def is_vdm_def
  channel_of_def bytes_of_def payload_mmsi_def ais_sixbit_value_def

text \<open>The sentences of the unit tests, parsed.\<close>

lemma parse_single_example:
  "parse_vdm (bytes_of ''!AIVDM,1,1,,A,11mg=5@,0*64'' @ [13, 10]) =
     Some \<lparr>vdm_total = 1, vdm_fragment = 1, vdm_seq = [], vdm_channel = 65,
           vdm_payload = bytes_of ''11mg=5@''\<rparr>"
  by (simp add: ais_eval)

lemma parse_first_example:
  "parse_vdm (bytes_of ''!AIVDM,2,1,7,B,11mg=5@ABCDE,0*12'' @ [13, 10]) =
     Some \<lparr>vdm_total = 2, vdm_fragment = 1, vdm_seq = bytes_of ''7'', vdm_channel = 66,
           vdm_payload = bytes_of ''11mg=5@ABCDE''\<rparr>"
  by (simp add: ais_eval)

lemma parse_second_example:
  "parse_vdm (bytes_of ''!AIVDM,2,2,7,B,BBBBBB,0*12'' @ [13, 10]) =
     Some \<lparr>vdm_total = 2, vdm_fragment = 2, vdm_seq = bytes_of ''7'', vdm_channel = 66,
           vdm_payload = bytes_of ''BBBBBB''\<rparr>"
  by (simp add: ais_eval)

lemma payload_examples:
  "payload_mmsi (bytes_of ''11mg=5@'') = Some 123456789"
  "payload_mmsi (bytes_of ''11mg=5@ABCDE'') = Some 123456789"
  "payload_mmsi (bytes_of ''1>eq`d@'') = Some 987654321"
  by (simp_all add: ais_eval)

theorem should_drop_safe_and_correct_witness:
  "ais_mmsi_filter_should_drop (Some (cleared_filter 123456789))
      (Some (bytes_of ''!AIVDM,1,1,,A,11mg=5@,0*64'' @ [13, 10])) 28 =
     Some (True, Some (cleared_filter 123456789))"
proof -
  let ?f = "bytes_of ''!AIVDM,1,1,,A,11mg=5@,0*64'' @ [13, 10]"
  have t: "take 28 ?f = ?f" by simp
  have "ais_decision (cleared_filter 123456789) ?f = (True, cleared_filter 123456789)"
    unfolding ais_decision_def parse_single_example
    by (simp add: vdm_decision_def payload_examples start_sequence_def cleared_filter_def)
  then show ?thesis
    using should_drop_safe_and_correct[of 28 ?f "cleared_filter 123456789", OF _ filter_ok_cleared]
    unfolding t by simp
qed

subsection \<open>The armoured payload\<close>

text \<open>Six-bit armouring and the first 42 bits of a position report, as the AIS standard
  lays them out: message type, repeat indicator, MMSI, and the four bits after it.\<close>

definition armour :: "nat \<Rightarrow> byte" where
  "armour v = of_nat (if v < 40 then v + 48 else v + 56)"

definition armour7 :: "nat \<Rightarrow> byte list" where
  "armour7 n = map (\<lambda>k. armour (n div 64 ^ k mod 64)) (rev [0..<7])"

definition message_head :: "nat \<Rightarrow> nat \<Rightarrow> nat \<Rightarrow> nat \<Rightarrow> nat" where
  "message_head msg_type repeat_ind mmsi rest =
     ((msg_type * 4 + repeat_ind) * 2 ^ 30 + mmsi) * 16 + rest"

lemma sixbit_armour:
  assumes "v < 64"
  shows "ais_sixbit_value (armour v) = int v"
proof -
  have u: "unat (armour v) = (if v < 40 then v + 48 else v + 56)"
    using assms by (simp add: armour_def unat_of_nat_small)
  then have "uint (armour v) = int (if v < 40 then v + 48 else v + 56)"
    by (simp only: flip: u) simp
  then show ?thesis
    using assms u
    by (auto simp: ais_sixbit_value_def Let_def word_less_nat_alt)
qed

lemma length_armour7 [simp]: "length (armour7 n) = 7"
  by (simp add: armour7_def)

lemma sixbits_armour:
  "sixbits (n div 64 ^ k) (map (\<lambda>j. armour (n div 64 ^ j mod 64)) (rev [0..<k])) = n"
proof (induction k)
  case (Suc k)
  have "64 * (n div 64 ^ Suc k) + n div 64 ^ k mod 64 = n div 64 ^ k"
    by (metis div_mult2_eq mult.commute mult_div_mod_eq power_Suc)
  then show ?case using Suc by (simp add: sixbit_armour)
qed simp

lemma sixbits_armour7: "n < 2 ^ 42 \<Longrightarrow> sixbits 0 (armour7 n) = n"
  using sixbits_armour[of n 7] by (simp add: armour7_def)

lemma armour7_valid: "list_all (\<lambda>c. 0 \<le> ais_sixbit_value c) (armour7 n)"
  by (simp add: armour7_def list_all_iff sixbit_armour)

text \<open>Decoding inverts the armouring: whatever stands before and after it in the frame, the
  seven characters that encode a message type, a repeat indicator, an MMSI and four
  further bits decode to that MMSI.\<close>

theorem decode_mmsi_armoured:
  assumes "msg_type < 64" and "repeat_ind < 4" and "mmsi < 2 ^ 30" and "rest < 16"
    and "7 \<le> n" and "length pre + n \<le> length (pre @ armour7 (message_head msg_type repeat_ind mmsi rest) @ post)"
  shows "decode_mmsi (pre @ armour7 (message_head msg_type repeat_ind mmsi rest) @ post)
      \<lparr>fv_ptr = length pre, fv_len = n\<rparr> = Some (Some (of_nat mmsi))"
proof -
  let ?h = "message_head msg_type repeat_ind mmsi rest"
  have "?h div 16 = (msg_type * 4 + repeat_ind) * 2 ^ 30 + mmsi"
    unfolding message_head_def using assms(4) by simp
  then have h: "?h div 16 mod 2 ^ 30 = mmsi"
    using assms by (simp only: mod_mult_self3 mod_less)
  have "?h < 2 ^ 42" using assms by (simp add: message_head_def)
  have v: "fv_inside (pre @ armour7 ?h @ post) \<lparr>fv_ptr = length pre, fv_len = n\<rparr>"
    using assms by (simp add: fv_inside_def)
  have t: "take 7 (fv_bytes (pre @ armour7 ?h @ post) \<lparr>fv_ptr = length pre, fv_len = n\<rparr>) = armour7 ?h"
    using assms(5) by (simp add: fv_bytes_def min_absorb1)
  have "payload_mmsi (fv_bytes (pre @ armour7 ?h @ post) \<lparr>fv_ptr = length pre, fv_len = n\<rparr>) =
      Some (of_nat mmsi)"
    unfolding payload_mmsi_def t using v assms(5) \<open>?h < 2 ^ 42\<close>
    by (simp add: armour7_valid sixbits_armour7 h del: power_numeral)
  then show ?thesis using v by (simp add: decode_mmsi_eq)
qed

theorem decode_mmsi_armoured_witness:
  "decode_mmsi (bytes_of ''!'' @ armour7 (message_head 1 0 123456789 0) @ [])
     \<lparr>fv_ptr = length (bytes_of ''!''), fv_len = 7\<rparr> = Some (Some (of_nat 123456789))"
  by (rule decode_mmsi_armoured) simp_all

subsection \<open>Whole messages\<close>

text \<open>The filter run over a list of complete frames, as the receive thread runs it: the
  decisions, and the last state. \<open>None\<close> is an access fault.\<close>

fun filter_run ::
  "ais_mmsi_filter \<Rightarrow> byte list list \<Rightarrow> (bool list \<times> ais_mmsi_filter) option"
where
  "filter_run flt [] = Some ([], flt)"
| "filter_run flt (fr # frs) =
     do { (d, flt1) \<leftarrow> should_drop_frame flt fr (length fr);
          (ds, flt2) \<leftarrow> filter_run flt1 frs;
          Some (d # ds, flt2) }"

lemma filter_run_Cons:
  assumes "filter_ok flt"
  shows "filter_run flt (fr # frs) =
    do { (ds, flt2) \<leftarrow> filter_run (snd (ais_decision flt fr)) frs;
         Some (fst (ais_decision flt fr) # ds, flt2) }"
  using assms by (simp add: should_drop_frame_eq split_def)

text \<open>Fragments \<open>k\<close>, \<open>k + 1\<close>, \dots, \<open>n\<close> of one message.\<close>

fun continuations :: "byte \<Rightarrow> byte list \<Rightarrow> byte \<Rightarrow> nat \<Rightarrow> byte list list \<Rightarrow> bool" where
  "continuations t sid c k [] \<longleftrightarrow> k = Suc (unat t)"
| "continuations t sid c k (fr # frs) \<longleftrightarrow>
     (\<exists>v. parse_vdm fr = Some v \<and> vdm_total v = t \<and> vdm_fragment v = of_nat k \<and>
          vdm_seq v = sid \<and> vdm_channel v = c) \<and>
     continuations t sid c (Suc k) frs"

lemma continuations_bound: "continuations t sid c k frs \<Longrightarrow> k \<le> Suc (unat t)"
  by (induction t sid c k frs rule: continuations.induct) auto

definition expects :: "ais_mmsi_filter \<Rightarrow> byte \<Rightarrow> byte list \<Rightarrow> byte \<Rightarrow> nat \<Rightarrow> bool" where
  "expects flt t sid c k \<longleftrightarrow>
     (let s = sequence flt in
      seq_active s \<and> total_fragments s = t \<and> cstr (sequence_id s) = sid \<and> seq_channel s = c \<and>
      next_fragment s = of_nat k)"

lemma expected_fragment_dropped:
  assumes "own_mmsi flt \<noteq> 0" and "expects flt t sid c k" and "parse_vdm fr = Some v"
    and "vdm_total v = t" and "vdm_fragment v = of_nat k" and "vdm_seq v = sid"
    and "vdm_channel v = c" and "1 < k" and "k \<le> unat t"
  shows "ais_decision flt fr = (True, flt\<lparr>sequence := after_match (sequence flt)\<rparr>)"
proof -
  have "unat (of_nat k :: byte) = k"
    using assms(9) unat_byte_less[of t] by (intro unat_of_nat_small) simp
  then have "1 < vdm_fragment v"
    using assms(5,8) by (simp add: word_less_nat_alt)
  then show ?thesis
    using assms by (auto simp: ais_decision_def vdm_decision_def next_matches_def expects_def Let_def)
qed

lemma expects_after_match:
  assumes "expects flt t sid c k" and "k < unat t"
  shows "expects (flt\<lparr>sequence := after_match (sequence flt)\<rparr>) t sid c (Suc k)"
proof -
  have "unat (of_nat (Suc k) :: byte) = Suc k"
    using assms(2) unat_byte_less[of t] by (intro unat_of_nat_small) simp
  then have "\<not> t < of_nat (Suc k)"
    using assms(2) by (simp add: word_less_nat_alt)
  then show ?thesis
    using assms(1) by (auto simp: expects_def after_match_def Let_def add.commute)
qed

lemma last_match_inactive:
  assumes "expects flt t sid c (unat t)" and "unat t < 255"
  shows "\<not> seq_active (after_match (sequence flt))"
proof -
  have "t < t + 1" using assms(2) by (simp add: word_less_nat_alt unat_word_ariths)
  then show ?thesis
    using assms(1) by (auto simp: expects_def after_match_def Let_def)
qed

lemma continuations_dropped:
  assumes "filter_ok flt" and "own_mmsi flt \<noteq> 0" and "expects flt t sid c k" and "1 < k"
    and "k \<le> unat t" and "unat t < 255" and "continuations t sid c k frs"
  shows "\<exists>flt'. filter_run flt frs = Some (replicate (length frs) True, flt') \<and>
           \<not> seq_active (sequence flt')"
  using assms
proof (induction frs arbitrary: flt k)
  case (Cons fr frs)
  let ?f = "flt\<lparr>sequence := after_match (sequence flt)\<rparr>"
  from Cons.prems obtain v where v: "parse_vdm fr = Some v" "vdm_total v = t" "vdm_fragment v = of_nat k"
      "vdm_seq v = sid" "vdm_channel v = c" and rest: "continuations t sid c (Suc k) frs"
    by auto
  have d: "ais_decision flt fr = (True, ?f)"
    using expected_fragment_dropped[OF _ _ v] Cons.prems by simp
  have ok: "filter_ok ?f" using ais_decision_ok[OF Cons.prems(1), of fr] by (simp add: d)
  show ?case
  proof (cases "k = unat t")
    case True
    then have "frs = []"
      using rest continuations_bound[of t sid c "Suc (Suc k)"] by (cases frs) auto
    then show ?thesis
      using last_match_inactive Cons.prems True d
      by (simp add: filter_run_Cons del: filter_run.simps(2))
  next
    case False
    then have "expects ?f t sid c (Suc k)"
      using Cons.prems by (intro expects_after_match) auto
    then obtain flt' where "filter_run ?f frs = Some (replicate (length frs) True, flt')"
      "\<not> seq_active (sequence flt')"
      using Cons.IH[OF ok _ _ _ _ _ rest] False Cons.prems by auto
    then show ?thesis
      using Cons.prems(1) d by (simp add: filter_run_Cons del: filter_run.simps(2))
  qed
qed simp

lemma first_fragment_expects:
  assumes "own_mmsi flt \<noteq> 0" and "parse_vdm fr = Some v" and "vdm_fragment v = 1" and "1 < vdm_total v"
    and "payload_mmsi (vdm_payload v) = Some (own_mmsi flt)"
    and "vdm_seq v \<noteq> []" and "length (vdm_seq v) \<le> 8" and "0 \<notin> set (vdm_seq v)"
  shows "fst (ais_decision flt fr) \<and>
    expects (snd (ais_decision flt fr)) (vdm_total v) (vdm_seq v) (vdm_channel v) 2"
  using assms
  by (auto simp: ais_decision_def vdm_decision_def start_sequence_def expects_def Let_def
      AIS_MMSI_FILTER_SEQ_ID_MAX_LEN_def)



text \<open>C35. A stale sequence costs another vessel a sentence: while the filter still waits for the
  second fragment of an own message, a foreign first fragment that reuses the same total,
  sequence identifier and channel is kept without ending the wait, and its second fragment is
  then dropped although it belongs to the foreign message.\<close>

theorem stale_sequence_drops_foreign_fragment:
  assumes "filter_ok flt" and "own_mmsi flt \<noteq> 0"
    and "expects flt t sid c 2"
    and "parse_vdm fr1 = Some v1" and "vdm_total v1 = t" and "vdm_fragment v1 = 1"
    and "payload_mmsi (vdm_payload v1) \<noteq> Some (own_mmsi flt)"
    and "parse_vdm fr2 = Some v2" and "vdm_total v2 = t" and "vdm_fragment v2 = 2"
    and "vdm_seq v2 = sid" and "vdm_channel v2 = c"
  shows "\<exists>flt'. filter_run flt [fr1, fr2] = Some ([False, True], flt')"
proof -
  have "ais_decision flt fr1 = (False, flt)"
    using assms(2,4,6,7) by (simp add: ais_decision_def vdm_decision_def)
  moreover have "fst (ais_decision flt fr2)"
    using assms by (auto simp: ais_decision_def vdm_decision_def next_matches_def expects_def Let_def)
  ultimately show ?thesis
    using assms(1) by (simp add: filter_run_Cons del: filter_run.simps(2))
qed

lemma parse_foreign_example:
  "parse_vdm (bytes_of ''!AIVDM,2,1,7,B,1>eq`d@ABCDE,0*0F'' @ [13, 10]) =
     Some \<lparr>vdm_total = 2, vdm_fragment = 1, vdm_seq = bytes_of ''7'', vdm_channel = 66,
           vdm_payload = bytes_of ''1>eq`d@ABCDE''\<rparr>"
  by (simp add: ais_eval)

theorem stale_sequence_drops_foreign_fragment_witness:
  "\<exists>flt'. filter_run (snd (ais_decision (cleared_filter 123456789)
        (bytes_of ''!AIVDM,2,1,7,B,11mg=5@ABCDE,0*12'' @ [13, 10])))
      [bytes_of ''!AIVDM,2,1,7,B,1>eq`d@ABCDE,0*0F'' @ [13, 10],
       bytes_of ''!AIVDM,2,2,7,B,BBBBBB,0*12'' @ [13, 10]] = Some ([False, True], flt')"
proof (rule stale_sequence_drops_foreign_fragment[OF _ _ _ parse_foreign_example _ _ _ parse_second_example])
  show "expects (snd (ais_decision (cleared_filter 123456789)
      (bytes_of ''!AIVDM,2,1,7,B,11mg=5@ABCDE,0*12'' @ [13, 10]))) 2 (bytes_of ''7'') 66 2"
    using first_fragment_expects[OF _ parse_first_example, of "cleared_filter 123456789"] payload_examples(2)
    by (simp add: cleared_filter_def bytes_of_def)
qed (simp_all add: ais_decision_ok filter_ok_cleared, simp_all add: cleared_filter_def ais_eval)

end
