(* ===== verification/Uart_Nmea.thy ===== *)
theory Uart_Nmea
  imports Ais_Mmsi_Properties Nmea_Bridge_Properties
begin

text \<open>
  The UART receiver, \<open>src/src/uart_nmea.c\<close>: a thread that polls the UART, cuts the byte
  stream into lines of at most one frame buffer, runs the AIS filter on each complete line
  and publishes what the filter keeps.

  The record \<open>uart\<close> holds the statics of the file, the locals of the thread, the bridge it
  publishes to and the state of the status LED, whose notification is the parameter
  \<open>led_frame\<close> here (\<open>Status_Led\<close> models it). The thread's inner loop is \<open>rx_bytes\<close> over the bytes
  that \<open>uart_poll_in\<close> has ready, one iteration \<open>rx_byte\<close>; an outer iteration is \<open>rx_round\<close>.
  The result \<open>None\<close> says that the filter read outside the frame buffer.
\<close>

section \<open>Translation\<close>

record uart_nmea_stats =
  bytes_rx :: u32
  frames_rx :: u32
  overlong_frames :: u32
  ais_self_mmsi_filtered :: u32

record ('q, 'l) uart =
  uart_stats :: uart_nmea_stats
  ais_filter :: ais_mmsi_filter
  ais_effective_mmsi :: u32
  applied_mmsi :: u32
  rx_frame :: "byte list"
  rx_frame_len :: nat
  dropping_overlong :: bool
  uart_bridge :: "'q bridge"
  uart_led :: 'l

definition uart_nmea_set_ais_config :: "bool \<Rightarrow> u32 \<Rightarrow> ('q, 'l) uart \<Rightarrow> ('q, 'l) uart" where
  "uart_nmea_set_ais_config filter_enabled mmsi u =
     u\<lparr>ais_effective_mmsi := (if filter_enabled then mmsi else 0)\<rparr>"

definition apply_ais_config_if_changed :: "('q, 'l) uart \<Rightarrow> ('q, 'l) uart" where
  "apply_ais_config_if_changed u =
     (let mmsi = ais_effective_mmsi u in
      if mmsi = applied_mmsi u then u
      else u\<lparr>applied_mmsi := mmsi,
             ais_filter := the (ais_mmsi_filter_init (Some (ais_filter u)) mmsi)\<rparr>)"

text \<open>The end of a line: lines 90 to 101 of the loop body.\<close>

definition rx_line_end ::
  "nmea_cfg \<Rightarrow> ('q, nmea_frame) msgq_ops \<Rightarrow> ('l \<Rightarrow> 'l) \<Rightarrow> ('q, 'l) uart \<Rightarrow> ('q, 'l) uart option"
where
  "rx_line_end cfg ops led_frame u =
     (let st = (uart_stats u)\<lparr>frames_rx := frames_rx (uart_stats u) + 1\<rparr> in
      do {
        (drop, flt) \<leftarrow> ais_mmsi_filter_should_drop (Some (ais_filter u)) (Some (rx_frame u)) (rx_frame_len u);
        let u = u\<lparr>ais_filter := the flt\<rparr>;
        if drop then
          Some (u\<lparr>uart_stats := st\<lparr>ais_self_mmsi_filtered := ais_self_mmsi_filtered st + 1\<rparr>,
                  rx_frame_len := 0\<rparr>)
        else
          (case nmea_bridge_publish_frame cfg ops (uart_bridge u) (Some (rx_frame u)) (rx_frame_len u) of
             (r, br) \<Rightarrow>
               Some (u\<lparr>uart_stats := st, uart_bridge := br,
                       uart_led := (if r = 0 then led_frame (uart_led u) else uart_led u),
                       rx_frame_len := 0\<rparr>))
      })"

definition rx_byte ::
  "nmea_cfg \<Rightarrow> ('q, nmea_frame) msgq_ops \<Rightarrow> ('l \<Rightarrow> 'l) \<Rightarrow> byte \<Rightarrow> ('q, 'l) uart \<Rightarrow> ('q, 'l) uart option"
where
  "rx_byte cfg ops led_frame c u =
     (let u = u\<lparr>uart_stats := (uart_stats u)\<lparr>bytes_rx := bytes_rx (uart_stats u) + 1\<rparr>\<rparr> in
      if dropping_overlong u then
        Some (if c = 10 then u\<lparr>dropping_overlong := False, rx_frame_len := 0\<rparr> else u)
      else if rx_frame_len u < length (rx_frame u) then
        (let u = u\<lparr>rx_frame := (rx_frame u)[rx_frame_len u := c], rx_frame_len := rx_frame_len u + 1\<rparr> in
         if c = 10 then rx_line_end cfg ops led_frame u else Some u)
      else
        Some (u\<lparr>uart_stats := (uart_stats u)\<lparr>overlong_frames := overlong_frames (uart_stats u) + 1\<rparr>,
                dropping_overlong := True, rx_frame_len := 0\<rparr>))"

fun rx_bytes ::
  "nmea_cfg \<Rightarrow> ('q, nmea_frame) msgq_ops \<Rightarrow> ('l \<Rightarrow> 'l) \<Rightarrow> byte list \<Rightarrow> ('q, 'l) uart \<Rightarrow> ('q, 'l) uart option"
where
  "rx_bytes cfg ops led_frame [] u = Some u"
| "rx_bytes cfg ops led_frame (c # cs) u =
     do { u \<leftarrow> rx_byte cfg ops led_frame c u; rx_bytes cfg ops led_frame cs u }"

text \<open>One iteration of the outer loop, given the bytes that are ready.\<close>

definition rx_round ::
  "nmea_cfg \<Rightarrow> ('q, nmea_frame) msgq_ops \<Rightarrow> ('l \<Rightarrow> 'l) \<Rightarrow> byte list \<Rightarrow> ('q, 'l) uart \<Rightarrow> ('q, 'l) uart option"
where
  "rx_round cfg ops led_frame ready u =
     rx_bytes cfg ops led_frame ready (apply_ais_config_if_changed u)"

text \<open>The state when the thread starts: zero statics, an uninitialised frame buffer.\<close>

definition uart_start ::
  "byte list \<Rightarrow> 'q bridge \<Rightarrow> 'l \<Rightarrow> ('q, 'l) uart"
where
  "uart_start frame br led =
     \<lparr>uart_stats = \<lparr>bytes_rx = 0, frames_rx = 0, overlong_frames = 0, ais_self_mmsi_filtered = 0\<rparr>,
      ais_filter = cleared_filter 0, ais_effective_mmsi = 0, applied_mmsi = 0, rx_frame = frame,
      rx_frame_len = 0, dropping_overlong = False, uart_bridge = br, uart_led = led\<rparr>"

text \<open>\<open>uart_nmea_start\<close>: the return value and whether it creates the thread.\<close>

definition uart_nmea_start :: "bool \<Rightarrow> bool \<Rightarrow> rc \<times> bool \<times> bool" where
  "uart_nmea_start device_ready started =
     (if \<not> device_ready then (- ENODEV, started, False)
      else (0, True, \<not> started))"

definition uart_nmea_get_stats :: "('q, 'l) uart \<Rightarrow> uart_nmea_stats" where
  "uart_nmea_get_stats u = uart_stats u"

section \<open>Framing\<close>

text \<open>A line of the stream: bytes up to and including a newline.\<close>

definition is_line :: "byte list \<Rightarrow> bool" where
  "is_line l \<longleftrightarrow> l \<noteq> [] \<and> last l = 10 \<and> 10 \<notin> set (butlast l)"

text \<open>What the receiver keeps of a sequence of lines, starting with the flag
  \<open>dropping_overlong\<close>: a line that fits the buffer is kept, a longer one is dropped. If the
  byte that does not fit is the newline itself, the flag stays set after the line, and the
  next line is dropped whatever its length. The result ends with the flag.\<close>

fun received_lines :: "nat \<Rightarrow> bool \<Rightarrow> byte list list \<Rightarrow> byte list list \<times> bool" where
  "received_lines n dropping [] = ([], dropping)"
| "received_lines n True (l # ls) = received_lines n False ls"
| "received_lines n False (l # ls) =
     (if length l \<le> n
      then (case received_lines n False ls of (ls', d) \<Rightarrow> (l # ls', d))
      else received_lines n (length l = Suc n) ls)"

text \<open>What one kept line does to the filter, the bridge, the LED and the two counters of complete
  and of filtered frames.\<close>

type_synonym ('q, 'l) uart_view = "ais_mmsi_filter \<times> 'q bridge \<times> 'l \<times> u32 \<times> u32"

definition uart_view :: "('q, 'l) uart \<Rightarrow> ('q, 'l) uart_view" where
  "uart_view u = (ais_filter u, uart_bridge u, uart_led u, frames_rx (uart_stats u),
     ais_self_mmsi_filtered (uart_stats u))"

definition line_effect ::
  "nmea_cfg \<Rightarrow> ('q, nmea_frame) msgq_ops \<Rightarrow> ('l \<Rightarrow> 'l) \<Rightarrow> byte list \<Rightarrow> ('q, 'l) uart_view \<Rightarrow> ('q, 'l) uart_view"
where
  "line_effect cfg ops led_frame l v =
     (case v of (flt, br, led, frames, filtered) \<Rightarrow>
        if fst (ais_decision flt l)
        then (snd (ais_decision flt l), br, led, frames + 1, filtered + 1)
        else (snd (ais_decision flt l), snd (nmea_bridge_publish_frame cfg ops br (Some l) (length l)),
              led_frame led, frames + 1, filtered))"

definition uart_ok :: "nmea_cfg \<Rightarrow> ('q, 'l) uart \<Rightarrow> bool" where
  "uart_ok cfg u \<longleftrightarrow> cfg_ok cfg \<and> length (rx_frame u) = frame_max_len cfg \<and>
     rx_frame_len u \<le> frame_max_len cfg \<and> filter_ok (ais_filter u)"

definition count_bytes :: "nat \<Rightarrow> ('q, 'l) uart \<Rightarrow> ('q, 'l) uart" where
  "count_bytes n u = u\<lparr>uart_stats := (uart_stats u)\<lparr>bytes_rx := bytes_rx (uart_stats u) + of_nat n\<rparr>\<rparr>"

lemma publish_take:
  assumes "cfg_ok cfg" and "len \<le> frame_max_len cfg"
  shows "nmea_bridge_publish_frame cfg ops br (Some (take len frame)) len =
    nmea_bridge_publish_frame cfg ops br (Some frame) len"
proof -
  have "unat (of_nat len :: u16) = len"
    using assms by (intro unat_of_nat_small) (auto simp: cfg_ok_def)
  then show ?thesis by (simp add: nmea_bridge_publish_frame_def Let_def)
qed

lemma publish_rc:
  assumes "0 < len" and "len \<le> frame_max_len cfg"
  shows "fst (nmea_bridge_publish_frame cfg ops br (Some frame) len) = 0"
  using assms by (simp add: nmea_bridge_publish_frame_def Let_def split: prod.splits)

lemma rx_line_end_effect:
  assumes "uart_ok cfg u" and "0 < rx_frame_len u"
  shows "\<exists>u'. rx_line_end cfg ops led_frame u = Some u' \<and> uart_ok cfg u' \<and> rx_frame_len u' = 0 \<and>
    dropping_overlong u' = dropping_overlong u \<and> bytes_rx (uart_stats u') = bytes_rx (uart_stats u) \<and>
    uart_view u' = line_effect cfg ops led_frame (take (rx_frame_len u) (rx_frame u)) (uart_view u)"
proof -
  let ?n = "rx_frame_len u"
  have n: "?n \<le> length (rx_frame u)" "?n \<le> frame_max_len cfg" "cfg_ok cfg" "filter_ok (ais_filter u)"
    using assms by (simp_all add: uart_ok_def)
  have "length (take ?n (rx_frame u)) = ?n" using n by simp
  moreover have "fst (nmea_bridge_publish_frame cfg ops (uart_bridge u) (Some (rx_frame u)) ?n) = 0"
    using publish_rc assms(2) n(2) .
  ultimately show ?thesis
    using n assms
    by (auto simp: rx_line_end_def ais_mmsi_filter_should_drop_def should_drop_frame_eq Let_def split_def
        uart_ok_def ais_decision_ok uart_view_def line_effect_def publish_take min_def)
qed

lemma rx_collect:
  assumes "\<not> dropping_overlong u" and "10 \<notin> set xs" and "rx_frame_len u + length xs \<le> length (rx_frame u)"
  shows "\<exists>arr. rx_bytes cfg ops led_frame xs u = Some (count_bytes (length xs) (u\<lparr>rx_frame := arr,
        rx_frame_len := rx_frame_len u + length xs\<rparr>)) \<and>
    length arr = length (rx_frame u) \<and>
    take (rx_frame_len u + length xs) arr = take (rx_frame_len u) (rx_frame u) @ xs"
  using assms
proof (induction xs arbitrary: u)
  case Nil
  show ?case by (intro exI[of _ "rx_frame u"]) (simp add: count_bytes_def)
next
  case (Cons c xs)
  let ?u = "count_bytes 1 (u\<lparr>rx_frame := (rx_frame u)[rx_frame_len u := c], rx_frame_len := rx_frame_len u + 1\<rparr>)"
  have u: "rx_byte cfg ops led_frame c u = Some ?u"
    using Cons.prems by (simp add: rx_byte_def Let_def count_bytes_def)
  obtain arr where arr: "rx_bytes cfg ops led_frame xs ?u = Some (count_bytes (length xs) (?u\<lparr>rx_frame := arr,
        rx_frame_len := rx_frame_len ?u + length xs\<rparr>))" "length arr = length (rx_frame u)"
      "take (rx_frame_len ?u + length xs) arr = take (rx_frame_len ?u) (rx_frame ?u) @ xs"
    using Cons.IH[of ?u] Cons.prems by (auto simp: count_bytes_def)
  have "take (Suc (rx_frame_len u)) ((rx_frame u)[rx_frame_len u := c]) = take (rx_frame_len u) (rx_frame u) @ [c]"
    using Cons.prems by (simp add: take_Suc_conv_app_nth)
  with arr u show ?case
    by (intro exI[of _ arr]) (simp add: count_bytes_def add.assoc)
qed

lemma rx_drop:
  assumes "dropping_overlong u" and "10 \<notin> set xs"
  shows "rx_bytes cfg ops led_frame xs u = Some (count_bytes (length xs) u)"
  using assms
proof (induction xs arbitrary: u)
  case (Cons c xs)
  have "rx_byte cfg ops led_frame c u = Some (count_bytes 1 u)"
    using Cons.prems by (simp add: rx_byte_def Let_def count_bytes_def)
  then show ?case
    using Cons.IH[of "count_bytes 1 u"] Cons.prems by (simp add: count_bytes_def add.assoc)
qed (simp add: count_bytes_def)

lemma rx_bytes_append:
  "rx_bytes cfg ops led_frame (xs @ ys) u =
     do { u \<leftarrow> rx_bytes cfg ops led_frame xs u; rx_bytes cfg ops led_frame ys u }"
  by (induction xs arbitrary: u) (auto split: Option.bind_splits)

text \<open>A whole line, in each of the three situations.\<close>

lemma is_lineE:
  assumes "is_line l"
  obtains xs where "l = xs @ [10]" and "10 \<notin> set xs"
  using assms by (metis append_butlast_last_id is_line_def)

lemma rx_line_kept:
  assumes "uart_ok cfg u" and "rx_frame_len u = 0" and "\<not> dropping_overlong u"
    and "is_line l" and "length l \<le> frame_max_len cfg"
  shows "\<exists>u'. rx_bytes cfg ops led_frame l u = Some u' \<and> uart_ok cfg u' \<and> rx_frame_len u' = 0 \<and>
    \<not> dropping_overlong u' \<and> bytes_rx (uart_stats u') = bytes_rx (uart_stats u) + of_nat (length l) \<and>
    uart_view u' = line_effect cfg ops led_frame l (uart_view u)"
proof -
  obtain xs where l: "l = xs @ [10]" "10 \<notin> set xs" using assms(4) by (rule is_lineE)
  have n: "length (rx_frame u) = frame_max_len cfg" using assms(1) by (simp add: uart_ok_def)
  obtain arr where arr: "rx_bytes cfg ops led_frame xs u = Some (count_bytes (length xs) (u\<lparr>rx_frame := arr,
        rx_frame_len := length xs\<rparr>))" "length arr = frame_max_len cfg" "take (length xs) arr = xs"
    using rx_collect[OF assms(3) l(2), of cfg ops led_frame] assms(2,5) l(1) n by auto
  let ?u = "count_bytes (length l) (u\<lparr>rx_frame := arr[length xs := 10], rx_frame_len := length l\<rparr>)"
  have "rx_byte cfg ops led_frame 10 (count_bytes (length xs) (u\<lparr>rx_frame := arr, rx_frame_len := length xs\<rparr>)) =
      rx_line_end cfg ops led_frame ?u"
    using arr(2) assms(3,5) l(1) by (cases u) (simp add: rx_byte_def Let_def count_bytes_def ac_simps)
  then have run: "rx_bytes cfg ops led_frame l u = rx_line_end cfg ops led_frame ?u"
    using arr(1) l(1) by (simp add: rx_bytes_append bind_eq_Some_conv split: Option.bind_splits)
  have "take (length l) (arr[length xs := 10]) = l"
    using arr(2,3) l(1) assms(5) by (simp add: take_Suc_conv_app_nth)
  moreover have "uart_ok cfg ?u" "0 < rx_frame_len ?u"
    using assms(1,5) arr(2) l(1) by (simp_all add: uart_ok_def count_bytes_def)
  moreover have "uart_view ?u = uart_view u" by (simp add: uart_view_def count_bytes_def)
  ultimately show ?thesis
    using rx_line_end_effect[of cfg ?u ops led_frame] run assms(3)
    by (auto simp: count_bytes_def)
qed

lemma rx_line_skipped:
  assumes "uart_ok cfg u" and "dropping_overlong u" and "is_line l"
  shows "\<exists>u'. rx_bytes cfg ops led_frame l u = Some u' \<and> uart_ok cfg u' \<and> rx_frame_len u' = 0 \<and>
    \<not> dropping_overlong u' \<and> bytes_rx (uart_stats u') = bytes_rx (uart_stats u) + of_nat (length l) \<and>
    uart_view u' = uart_view u"
proof -
  obtain xs where l: "l = xs @ [10]" "10 \<notin> set xs" using assms(3) by (rule is_lineE)
  have "rx_bytes cfg ops led_frame l u =
      Some ((count_bytes (length l) u)\<lparr>dropping_overlong := False, rx_frame_len := 0\<rparr>)"
    using rx_drop[OF assms(2) l(2)] l(1) assms(2)
    by (simp add: rx_bytes_append rx_byte_def Let_def count_bytes_def)
  then show ?thesis
    using assms(1) by (simp add: uart_ok_def uart_view_def count_bytes_def)
qed

lemma rx_line_overlong:
  assumes "uart_ok cfg u" and "rx_frame_len u = 0" and "\<not> dropping_overlong u"
    and "is_line l" and "frame_max_len cfg < length l"
  shows "\<exists>u'. rx_bytes cfg ops led_frame l u = Some u' \<and> uart_ok cfg u' \<and> rx_frame_len u' = 0 \<and>
    dropping_overlong u' = (length l = Suc (frame_max_len cfg)) \<and>
    bytes_rx (uart_stats u') = bytes_rx (uart_stats u) + of_nat (length l) \<and>
    uart_view u' = uart_view u"
proof -
  let ?n = "frame_max_len cfg"
  obtain xs where l: "l = xs @ [10]" "10 \<notin> set xs" using assms(4) by (rule is_lineE)
  define pre where "pre = take ?n xs"
  have pre: "length pre = ?n" "10 \<notin> set pre"
    using l assms(5) by (auto simp: pre_def dest: in_set_takeD)
  have n: "length (rx_frame u) = ?n" using assms(1) by (simp add: uart_ok_def)
  obtain arr where arr: "rx_bytes cfg ops led_frame pre u = Some (count_bytes ?n (u\<lparr>rx_frame := arr,
        rx_frame_len := ?n\<rparr>))" "length arr = ?n"
    using rx_collect[OF assms(3) pre(2), of cfg ops led_frame] assms(2) n pre(1) by auto
  define u1 where "u1 = (count_bytes (Suc ?n) (u\<lparr>rx_frame := arr, rx_frame_len := 0, dropping_overlong := True\<rparr>))"
  define u2 where "u2 = u1\<lparr>uart_stats := (uart_stats u1)\<lparr>overlong_frames := overlong_frames (uart_stats u) + 1\<rparr>\<rparr>"
  have stop: "rx_bytes cfg ops led_frame (pre @ [c]) u = Some u2" for c
    using arr assms(3) by (simp add: rx_bytes_append rx_byte_def Let_def count_bytes_def u1_def u2_def)
  have ok: "uart_ok cfg u2" "dropping_overlong u2" "rx_frame_len u2 = 0" "uart_view u2 = uart_view u"
      "bytes_rx (uart_stats u2) = bytes_rx (uart_stats u) + of_nat (Suc ?n)"
    using assms(1) arr(2) by (simp_all add: uart_ok_def u1_def u2_def count_bytes_def uart_view_def)
  show ?thesis
  proof (cases "length l = Suc ?n")
    case True
    then have "l = pre @ [10]" using l(1) by (simp add: pre_def)
    then show ?thesis using stop[of 10] ok True by simp
  next
    case False
    then obtain c rest where r: "l = (pre @ [c]) @ rest" "rest = drop (Suc ?n) l"
      using l(1) assms(5) unfolding pre_def
      by (metis append_take_drop_id take_Suc_conv_app_nth take_append length_append_singleton
          less_Suc_eq_le diff_is_0_eq' take0 append_Nil2)
    have "is_line rest"
      unfolding is_line_def r(2)
      using False assms(5) l by (auto simp: butlast_append dest: in_set_dropD)
    from rx_line_skipped[OF ok(1,2) this, of ops led_frame] obtain u' where
      "rx_bytes cfg ops led_frame rest u2 = Some u'" "uart_ok cfg u'" "rx_frame_len u' = 0"
      "\<not> dropping_overlong u'" "bytes_rx (uart_stats u') = bytes_rx (uart_stats u2) + of_nat (length rest)"
      "uart_view u' = uart_view u2" by blast
    moreover have "rx_bytes cfg ops led_frame l u = rx_bytes cfg ops led_frame rest u2"
      using stop[of c] by (simp add: r(1) rx_bytes_append[of _ _ _ "pre @ [c]"] del: append_assoc)
    moreover have "length l = Suc ?n + length rest" using r(1) pre(1) by simp
    ultimately show ?thesis using ok False by (simp add: add.assoc)
  qed
qed

lemma rx_lines:
  assumes "uart_ok cfg u" and "rx_frame_len u = 0" and "list_all is_line ls"
  shows "\<exists>u'. rx_bytes cfg ops led_frame (concat ls) u = Some u' \<and> uart_ok cfg u' \<and> rx_frame_len u' = 0 \<and>
    dropping_overlong u' = snd (received_lines (frame_max_len cfg) (dropping_overlong u) ls) \<and>
    bytes_rx (uart_stats u') = bytes_rx (uart_stats u) + of_nat (length (concat ls)) \<and>
    uart_view u' = fold (line_effect cfg ops led_frame)
      (fst (received_lines (frame_max_len cfg) (dropping_overlong u) ls)) (uart_view u)"
  using assms
proof (induction ls arbitrary: u)
  case (Cons l ls)
  let ?n = "frame_max_len cfg"
  have step: ?case
    if "rx_bytes cfg ops led_frame l u = Some u1" "uart_ok cfg u1" "rx_frame_len u1 = 0"
      "bytes_rx (uart_stats u1) = bytes_rx (uart_stats u) + of_nat (length l)"
      "uart_view u1 = fold (line_effect cfg ops led_frame) kept (uart_view u)"
      "received_lines ?n (dropping_overlong u) (l # ls) =
         (kept @ fst (received_lines ?n (dropping_overlong u1) ls), snd (received_lines ?n (dropping_overlong u1) ls))"
    for u1 kept
    using Cons.IH[OF that(2,3)] Cons.prems(3) that by (auto simp: rx_bytes_append add.assoc)
  have l: "is_line l" using Cons.prems(3) by simp
  consider "dropping_overlong u" | "\<not> dropping_overlong u" "length l \<le> ?n"
    | "\<not> dropping_overlong u" "?n < length l" by linarith
  then show ?case
  proof cases
    case 1
    then show ?thesis
      using rx_line_skipped[OF Cons.prems(1) 1 l, of ops led_frame] step[of _ "[]"] by auto
  next
    case 2
    then show ?thesis
      using rx_line_kept[OF Cons.prems(1,2) 2(1) l 2(2), of ops led_frame] step[of _ "[l]"]
      by (auto split: prod.splits)
  next
    case 3
    then show ?thesis
      using rx_line_overlong[OF Cons.prems(1,2) 3(1) l 3(2), of ops led_frame] step[of _ "[]"] by auto
  qed
qed simp

text \<open>Without a line of exactly the forbidden length, the kept lines are those that fit.\<close>

lemma received_lines_fitting:
  "Suc n \<notin> length ` set ls \<Longrightarrow> received_lines n False ls = ([l \<leftarrow> ls. length l \<le> n], False)"
  by (induction ls) auto

section \<open>Runs with configuration changes\<close>

datatype uart_call = SetAis bool u32 | Ready "byte list"

fun uart_event ::
  "nmea_cfg \<Rightarrow> ('q, nmea_frame) msgq_ops \<Rightarrow> ('l \<Rightarrow> 'l) \<Rightarrow> uart_call \<Rightarrow> ('q, 'l) uart \<Rightarrow> ('q, 'l) uart option"
where
  "uart_event cfg ops led_frame (SetAis e m) u = Some (uart_nmea_set_ais_config e m u)"
| "uart_event cfg ops led_frame (Ready bs) u = rx_round cfg ops led_frame bs u"

fun uart_run ::
  "nmea_cfg \<Rightarrow> ('q, nmea_frame) msgq_ops \<Rightarrow> ('l \<Rightarrow> 'l) \<Rightarrow> uart_call list \<Rightarrow> ('q, 'l) uart \<Rightarrow> ('q, 'l) uart option"
where
  "uart_run cfg ops led_frame [] u = Some u"
| "uart_run cfg ops led_frame (e # es) u =
     do { u \<leftarrow> uart_event cfg ops led_frame e u; uart_run cfg ops led_frame es u }"

text \<open>The filter works with the MMSI that was applied last.\<close>

definition uart_inv :: "nmea_cfg \<Rightarrow> ('q, 'l) uart \<Rightarrow> bool" where
  "uart_inv cfg u \<longleftrightarrow> uart_ok cfg u \<and> own_mmsi (ais_filter u) = applied_mmsi u"

lemma rx_line_end_inv:
  assumes "uart_inv cfg u"
  shows "\<exists>u'. rx_line_end cfg ops led_frame u = Some u' \<and> uart_inv cfg u' \<and> applied_mmsi u' = applied_mmsi u \<and>
    ais_effective_mmsi u' = ais_effective_mmsi u"
  using assms
  by (auto simp: rx_line_end_def ais_mmsi_filter_should_drop_def should_drop_frame_eq Let_def split_def
      uart_inv_def uart_ok_def ais_decision_ok)

lemma rx_byte_inv:
  assumes "uart_inv cfg u"
  shows "\<exists>u'. rx_byte cfg ops led_frame c u = Some u' \<and> uart_inv cfg u' \<and> applied_mmsi u' = applied_mmsi u \<and>
    ais_effective_mmsi u' = ais_effective_mmsi u"
proof -
  let ?u = "u\<lparr>uart_stats := (uart_stats u)\<lparr>bytes_rx := bytes_rx (uart_stats u) + 1\<rparr>,
      rx_frame := (rx_frame u)[rx_frame_len u := c], rx_frame_len := rx_frame_len u + 1\<rparr>"
  show ?thesis
  proof (cases "\<not> dropping_overlong u \<and> rx_frame_len u < length (rx_frame u) \<and> c = 10")
    case True
    then have "uart_inv cfg ?u" using assms by (auto simp: uart_inv_def uart_ok_def)
    from rx_line_end_inv[OF this, of ops led_frame] True show ?thesis by (auto simp: rx_byte_def Let_def)
  next
    case False
    then show ?thesis using assms by (auto simp: rx_byte_def Let_def uart_inv_def uart_ok_def)
  qed
qed

lemma rx_bytes_inv:
  "uart_inv cfg u \<Longrightarrow> \<exists>u'. rx_bytes cfg ops led_frame bs u = Some u' \<and> uart_inv cfg u' \<and>
     applied_mmsi u' = applied_mmsi u \<and> ais_effective_mmsi u' = ais_effective_mmsi u"
proof (induction bs arbitrary: u)
  case (Cons c bs)
  obtain u1 where u1: "rx_byte cfg ops led_frame c u = Some u1" "uart_inv cfg u1"
      "applied_mmsi u1 = applied_mmsi u" "ais_effective_mmsi u1 = ais_effective_mmsi u"
    using rx_byte_inv[OF Cons.prems] by blast
  then show ?case using Cons.IH[OF u1(2)] by auto
qed simp

lemma apply_config_inv:
  assumes "uart_inv cfg u"
  shows "uart_inv cfg (apply_ais_config_if_changed u)"
    and "applied_mmsi (apply_ais_config_if_changed u) = ais_effective_mmsi u"
    and "ais_effective_mmsi (apply_ais_config_if_changed u) = ais_effective_mmsi u"
  using assms
  by (auto simp: apply_ais_config_if_changed_def uart_inv_def uart_ok_def Let_def ais_mmsi_filter_init_def
      filter_ok_cleared) (simp add: cleared_filter_def)

lemma rx_round_inv:
  assumes "uart_inv cfg u"
  shows "\<exists>u'. rx_round cfg ops led_frame bs u = Some u' \<and> uart_inv cfg u' \<and> applied_mmsi u' = ais_effective_mmsi u"
  using rx_bytes_inv[OF apply_config_inv(1)[OF assms], of ops led_frame bs] apply_config_inv(2)[OF assms]
  by (auto simp: rx_round_def)

lemma uart_run_inv:
  "uart_inv cfg u \<Longrightarrow> \<exists>u'. uart_run cfg ops led_frame es u = Some u' \<and> uart_inv cfg u'"
proof (induction es arbitrary: u)
  case (Cons e es)
  have "\<exists>u1. uart_event cfg ops led_frame e u = Some u1 \<and> uart_inv cfg u1"
  proof (cases e)
    case SetAis
    then show ?thesis
      using Cons.prems by (simp add: uart_nmea_set_ais_config_def uart_inv_def uart_ok_def)
  next
    case (Ready bs)
    then show ?thesis using rx_round_inv[OF Cons.prems, of ops led_frame bs] by auto
  qed
  then show ?case using Cons.IH by auto
qed simp

section \<open>Properties\<close>


definition demo_uart :: "(nmea_frame ring, nat) uart" where
  "demo_uart = uart_start (replicate 32 0) (nmea_bridge_init small_cfg ring_ops) 0"

lemma demo_uart_ok: "uart_ok small_cfg demo_uart" "rx_frame_len demo_uart = 0" "\<not> dropping_overlong demo_uart"
  by (simp_all add: demo_uart_def uart_start_def uart_ok_def small_cfg_def cfg_ok_def filter_ok_cleared)

lemma line_effect_plain:
  assumes "own_mmsi flt = 0"
  shows "line_effect cfg ops led_frame l (flt, br, led, n, m) =
    (flt, snd (nmea_bridge_publish_frame cfg ops br (Some l) (length l)), led_frame led, n + 1, m)"
  using assms by (simp add: line_effect_def ais_decision_def)


text \<open>C34. A line one byte longer than the frame buffer costs the next line too: the receiver
  discovers the overflow at the newline, keeps discarding up to the following newline, and so
  swallows the whole next line, however short; it is neither published nor counted as a frame.\<close>

theorem uart_swallows_next_line:
  assumes "uart_ok cfg u" and "rx_frame_len u = 0" and "\<not> dropping_overlong u"
    and "is_line l1" and "length l1 = frame_max_len cfg + 1" and "is_line l2"
  shows "\<exists>u'. rx_bytes cfg ops led_frame (l1 @ l2) u = Some u' \<and> uart_view u' = uart_view u \<and>
    \<not> dropping_overlong u'"
  using rx_lines[OF assms(1,2), of "[l1, l2]" ops led_frame] assms(3-6) by auto

theorem uart_swallows_next_line_witness:
  "\<exists>u'. rx_bytes small_cfg ring_ops Suc ((replicate 32 65 @ [10]) @ (bytes_of ''$GPGLL'' @ [13, 10])) demo_uart =
     Some u' \<and> uart_view u' = uart_view demo_uart \<and> \<not> dropping_overlong u'"
  by (rule uart_swallows_next_line[OF demo_uart_ok]) (simp_all add: is_line_def bytes_of_def small_cfg_def)

text \<open>C29. From the start of the thread, under every sequence of received bytes and of live
  changes of the AIS setting, the receiver never reads or writes outside the frame buffer,
  and the filter always works with one coherent MMSI, the one applied last.\<close>

theorem uart_never_faults:
  assumes "cfg_ok cfg" and "length frame = frame_max_len cfg"
  shows "\<exists>u. uart_run cfg ops led_frame es (uart_start frame br led) = Some u \<and>
    rx_frame_len u \<le> length (rx_frame u) \<and> filter_ok (ais_filter u) \<and>
    own_mmsi (ais_filter u) = applied_mmsi u"
proof -
  have "uart_inv cfg (uart_start frame br led)"
    using assms by (simp add: uart_inv_def uart_ok_def uart_start_def filter_ok_cleared)
      (simp add: cleared_filter_def)
  from uart_run_inv[OF this, of ops led_frame es] show ?thesis by (auto simp: uart_inv_def uart_ok_def)
qed

theorem uart_never_faults_witness:
  "\<exists>u. uart_run small_cfg ring_ops Suc [SetAis True 123456789, Ready [36, 10]] demo_uart = Some u \<and>
     rx_frame_len u \<le> length (rx_frame u) \<and> filter_ok (ais_filter u) \<and> own_mmsi (ais_filter u) = applied_mmsi u"
  unfolding demo_uart_def by (rule uart_never_faults) (simp_all add: small_cfg_def cfg_ok_def)

text \<open>A change of the AIS setting is in force for every line that ends in the next round:
  the round filters with the new effective MMSI, and with the old state of the filter,
  a half-received message included, if and only if the effective MMSI did not change.\<close>

theorem ais_config_applies_next_round:
  assumes "uart_inv cfg u"
  shows "\<exists>u'. rx_round cfg ops led_frame bs (uart_nmea_set_ais_config enabled mmsi u) = Some u' \<and>
    own_mmsi (ais_filter u') = (if enabled then mmsi else 0) \<and>
    (bs = [] \<longrightarrow> ais_filter u' =
      (if (if enabled then mmsi else 0) = own_mmsi (ais_filter u) then ais_filter u
       else cleared_filter (if enabled then mmsi else 0)))"
proof -
  let ?u = "uart_nmea_set_ais_config enabled mmsi u"
  have "uart_inv cfg ?u" using assms by (simp add: uart_nmea_set_ais_config_def uart_inv_def uart_ok_def)
  from rx_round_inv[OF this, of ops led_frame bs] obtain u' where u':
    "rx_round cfg ops led_frame bs ?u = Some u'" "own_mmsi (ais_filter u') = ais_effective_mmsi ?u"
    by (auto simp: uart_inv_def)
  moreover have "bs = [] \<Longrightarrow> u' = apply_ais_config_if_changed ?u" using u'(1) by (simp add: rx_round_def)
  ultimately show ?thesis
    using assms by (auto simp: uart_inv_def apply_ais_config_if_changed_def Let_def
        ais_mmsi_filter_init_def uart_nmea_set_ais_config_def)
qed

theorem ais_config_applies_next_round_witness:
  "\<exists>u'. rx_round small_cfg ring_ops Suc [] (uart_nmea_set_ais_config True 7 demo_uart) = Some u' \<and>
     ais_filter u' = cleared_filter 7"
proof -
  have "uart_inv small_cfg demo_uart"
    using demo_uart_ok(1) by (simp add: uart_inv_def demo_uart_def uart_start_def cleared_filter_def)
  from ais_config_applies_next_round[OF this, of ring_ops Suc "[]" True 7] show ?thesis
    by (auto simp: demo_uart_def uart_start_def cleared_filter_def)
qed

end
