(* ===== verification/Tcp_Nmea_Server.thy ===== *)
theory Tcp_Nmea_Server
  imports Bridge_Prelude
begin

text \<open>
  The TCP server, \<open>src/src/tcp_nmea_server.c\<close>: a thread that accepts connections and gives each one a
  slot with a thread of its own, which runs a session and then closes the connection and frees
  the slot.

  The listening socket and the connections belong to Zephyr: the calls are the record
  \<open>listen_ops\<close> over the state of the network, and the locale \<open>listener_sockets\<close> names what the server relies
  on, with \<open>open_fds\<close> the descriptors that are open. A peer's thread is a program counter per slot;
  \<open>server_step\<close> interleaves the accept loop with the threads of the peers.
\<close>

section \<open>Translation\<close>

record 'n listen_ops =
  zsock_socket :: "'n \<Rightarrow> int \<times> 'n"
  zsock_bind :: "int \<Rightarrow> 'n \<Rightarrow> rc \<times> 'n"
  zsock_listen :: "int \<Rightarrow> 'n \<Rightarrow> rc \<times> 'n"
  zsock_accept :: "int \<Rightarrow> 'n \<Rightarrow> int \<times> 'n"
  zsock_close :: "int \<Rightarrow> 'n \<Rightarrow> 'n"

record peer_slot =
  peer_fd :: int
  peer_active :: bool

record 'n server =
  peers :: "peer_slot list"
  listen_fd :: int
  server_started :: bool
  sv_net :: 'n

definition close_peer_fd :: "'n listen_ops \<Rightarrow> nat \<Rightarrow> 'n server \<Rightarrow> 'n server" where
  "close_peer_fd lo i sv =
     (let peer = peers sv ! i in
      if peer_fd peer \<ge> 0 then
        sv\<lparr>sv_net := zsock_close lo (peer_fd peer) (sv_net sv), peers := (peers sv)[i := peer\<lparr>peer_fd := -1\<rparr>]\<rparr>
      else sv)"

definition release_peer :: "nat \<Rightarrow> 'n server \<Rightarrow> 'n server" where
  "release_peer i sv = sv\<lparr>peers := (peers sv)[i := (peers sv ! i)\<lparr>peer_active := False\<rparr>]\<rparr>"

definition close_peer :: "'n listen_ops \<Rightarrow> nat \<Rightarrow> 'n server \<Rightarrow> 'n server" where
  "close_peer lo i sv = release_peer i (close_peer_fd lo i sv)"

text \<open>The search of \<open>alloc_peer\<close> from slot \<open>i\<close> on.\<close>

fun alloc_slot :: "peer_slot list \<Rightarrow> nat \<Rightarrow> (nat \<times> peer_slot list) option" where
  "alloc_slot [] i = None"
| "alloc_slot (p # ps) i =
     (if \<not> peer_active p then Some (i, p\<lparr>peer_fd := -1, peer_active := True\<rparr> # ps)
      else map_option (\<lambda>(j, ps'). (j, p # ps')) (alloc_slot ps (Suc i)))"

definition alloc_peer :: "'n server \<Rightarrow> nat option \<times> 'n server" where
  "alloc_peer sv =
     (case alloc_slot (peers sv) 0 of
        None \<Rightarrow> (None, sv)
      | Some (i, ps) \<Rightarrow> (Some i, sv\<lparr>peers := ps\<rparr>))"

text \<open>The start of the server thread: whether it reaches the accept loop.\<close>

definition server_listen :: "'n listen_ops \<Rightarrow> 'n server \<Rightarrow> bool \<times> 'n server" where
  "server_listen lo sv =
     (case zsock_socket lo (sv_net sv) of (fd, n) \<Rightarrow>
        let sv = sv\<lparr>listen_fd := fd, sv_net := n\<rparr> in
        if fd < 0 then (False, sv)
        else
          (case zsock_bind lo fd n of (r, n) \<Rightarrow>
             if r < 0 then (False, sv\<lparr>sv_net := zsock_close lo fd n\<rparr>)
             else
               (case zsock_listen lo fd n of (r, n) \<Rightarrow>
                  if r < 0 then (False, sv\<lparr>sv_net := zsock_close lo fd n\<rparr>)
                  else (True, sv\<lparr>sv_net := n\<rparr>))))"

text \<open>One round of the accept loop: the slot for which it creates a thread, if any.\<close>

definition accept_round :: "'n listen_ops \<Rightarrow> 'n server \<Rightarrow> nat option \<times> 'n server" where
  "accept_round lo sv =
     (case zsock_accept lo (listen_fd sv) (sv_net sv) of (fd, n) \<Rightarrow>
        let sv = sv\<lparr>sv_net := n\<rparr> in
        if fd < 0 then (None, sv)
        else
          (case alloc_peer sv of
             (None, sv) \<Rightarrow> (None, sv\<lparr>sv_net := zsock_close lo fd (sv_net sv)\<rparr>)
           | (Some i, sv) \<Rightarrow> (Some i, sv\<lparr>peers := (peers sv)[i := (peers sv ! i)\<lparr>peer_fd := fd\<rparr>]\<rparr>)))"

text \<open>\<open>tcp_nmea_server_start\<close>: the return value, the server and whether it creates the thread.\<close>

definition tcp_nmea_server_start :: "bool \<Rightarrow> 'n server \<Rightarrow> rc \<times> 'n server \<times> bool" where
  "tcp_nmea_server_start enabled sv =
     (if \<not> enabled then (0, sv, False)
      else if \<not> server_started sv then
        (0, sv\<lparr>peers := map (\<lambda>p. p\<lparr>peer_fd := -1\<rparr>) (peers sv), server_started := True\<rparr>, True)
      else (0, sv, False))"

record tcp_nmea_server_stats =
  active_peers :: u32
  max_peers :: u32

fun count_active :: "peer_slot list \<Rightarrow> u32 \<Rightarrow> u32" where
  "count_active [] active = active"
| "count_active (p # ps) active = count_active ps (if peer_active p then active + 1 else active)"

definition tcp_nmea_server_get_stats :: "'n server \<Rightarrow> tcp_nmea_server_stats" where
  "tcp_nmea_server_get_stats sv =
     \<lparr>active_peers = count_active (peers sv) 0, max_peers = of_nat (length (peers sv))\<rparr>"

text \<open>The statics before the start.\<close>

definition server_boot :: "nat \<Rightarrow> 'n \<Rightarrow> 'n server" where
  "server_boot n net = \<lparr>peers = replicate n \<lparr>peer_fd = 0, peer_active = False\<rparr>, listen_fd = -1,
     server_started = False, sv_net = net\<rparr>"

section \<open>The threads of the peers\<close>

text \<open>Where the thread of a slot is: it does not exist, it runs the session, the session has returned,
  the connection is closed, the slot is free again but the thread has not ended.\<close>

datatype peer_pc = No_Thread | In_Session | Closing | Releasing | Exiting

record 'n server_system =
  ss_server :: "'n server"
  ss_threads :: "peer_pc list"
  ss_reused :: bool

text \<open>The ghost \<open>ss_reused\<close> becomes true when a thread is created on the stack and control block of one that
  has not ended.\<close>

inductive server_step ::
  "'n listen_ops \<Rightarrow> 'n server_system \<Rightarrow> 'n server_system \<Rightarrow> bool" for lo
where
  no_thread: "accept_round lo (ss_server y) = (None, sv) \<Longrightarrow> server_step lo y (y\<lparr>ss_server := sv\<rparr>)"
| new_thread: "accept_round lo (ss_server y) = (Some i, sv) \<Longrightarrow>
    server_step lo y (y\<lparr>ss_server := sv, ss_threads := (ss_threads y)[i := In_Session],
      ss_reused := (ss_reused y \<or> ss_threads y ! i \<noteq> No_Thread)\<rparr>)"
| returns: "i < length (ss_threads y) \<Longrightarrow> ss_threads y ! i = In_Session \<Longrightarrow>
    server_step lo y (y\<lparr>ss_threads := (ss_threads y)[i := Closing]\<rparr>)"
| closes: "i < length (ss_threads y) \<Longrightarrow> ss_threads y ! i = Closing \<Longrightarrow>
    server_step lo y (y\<lparr>ss_server := close_peer_fd lo i (ss_server y), ss_threads := (ss_threads y)[i := Releasing]\<rparr>)"
| releases: "i < length (ss_threads y) \<Longrightarrow> ss_threads y ! i = Releasing \<Longrightarrow>
    server_step lo y (y\<lparr>ss_server := release_peer i (ss_server y), ss_threads := (ss_threads y)[i := Exiting]\<rparr>)"
| exits: "i < length (ss_threads y) \<Longrightarrow> ss_threads y ! i = Exiting \<Longrightarrow>
    server_step lo y (y\<lparr>ss_threads := (ss_threads y)[i := No_Thread]\<rparr>)"

inductive_cases server_stepE: "server_step lo y y'"

definition server_system_start :: "'n server \<Rightarrow> 'n server_system" where
  "server_system_start sv = \<lparr>ss_server = sv, ss_threads = replicate (length (peers sv)) No_Thread, ss_reused = False\<rparr>"

section \<open>What the server relies on\<close>

locale listener_sockets =
  fixes lo :: "'n listen_ops" and open_fds :: "'n \<Rightarrow> int set"
  assumes socket_opens: "zsock_socket lo n = (fd, n') \<Longrightarrow>
      if fd < 0 then open_fds n' = open_fds n else fd \<notin> open_fds n \<and> open_fds n' = insert fd (open_fds n)"
    and bind_keeps: "zsock_bind lo fd n = (r, n') \<Longrightarrow> open_fds n' = open_fds n"
    and listen_keeps: "zsock_listen lo fd n = (r, n') \<Longrightarrow> open_fds n' = open_fds n"
    and accept_opens: "zsock_accept lo lfd n = (fd, n') \<Longrightarrow>
      if fd < 0 then open_fds n' = open_fds n else fd \<notin> open_fds n \<and> open_fds n' = insert fd (open_fds n)"
    and close_closes: "fd \<in> open_fds n \<Longrightarrow> open_fds (zsock_close lo fd n) = open_fds n - {fd}"

text \<open>A slot whose thread has not closed the connection owns it; the descriptors that were open when the
  accept loop began (\<open>base\<close>) belong to others.\<close>

definition owns_fd :: "peer_pc \<Rightarrow> bool" where
  "owns_fd p \<longleftrightarrow> p = In_Session \<or> p = Closing"

definition owners :: "'n server_system \<Rightarrow> nat set" where
  "owners y = {i. i < length (ss_threads y) \<and> owns_fd (ss_threads y ! i)}"

definition fd_at :: "'n server_system \<Rightarrow> nat \<Rightarrow> int" where
  "fd_at y i = peer_fd (peers (ss_server y) ! i)"

definition server_inv :: "('n \<Rightarrow> int set) \<Rightarrow> int set \<Rightarrow> 'n server_system \<Rightarrow> bool" where
  "server_inv open_fds base y \<longleftrightarrow>
     length (peers (ss_server y)) = length (ss_threads y) \<and>
     (\<forall>i < length (ss_threads y). peer_active (peers (ss_server y) ! i) = (ss_threads y ! i \<in> {In_Session, Closing, Releasing}) \<and>
        (owns_fd (ss_threads y ! i) \<longrightarrow> 0 \<le> fd_at y i \<and> fd_at y i \<notin> base)) \<and>
     inj_on (fd_at y) (owners y) \<and>
     open_fds (sv_net (ss_server y)) = base \<union> fd_at y ` owners y"

lemma alloc_slot_spec:
  "case alloc_slot ps i of
     None \<Rightarrow> \<forall>p \<in> set ps. peer_active p
   | Some (j, ps') \<Rightarrow> \<exists>k < length ps. j = i + k \<and> \<not> peer_active (ps ! k) \<and> (\<forall>l < k. peer_active (ps ! l)) \<and>
       ps' = ps[k := (ps ! k)\<lparr>peer_fd := -1, peer_active := True\<rparr>]"
proof (induction ps arbitrary: i)
  case (Cons p ps)
  show ?case
  proof (cases "peer_active p")
    case True
    show ?thesis
    proof (cases "alloc_slot ps (Suc i)")
      case None
      then show ?thesis using True Cons.IH[of "Suc i"] by simp
    next
      case (Some x)
      obtain j ps' where x: "x = (j, ps')" by fastforce
      from Cons.IH[of "Suc i"] Some x obtain k where "k < length ps" "j = Suc i + k" "\<not> peer_active (ps ! k)"
          "\<forall>l < k. peer_active (ps ! l)" "ps' = ps[k := (ps ! k)\<lparr>peer_fd := -1, peer_active := True\<rparr>]" by auto
      then show ?thesis
        using True Some x by (auto intro!: exI[of _ "Suc k"] simp: less_Suc_eq_0_disj)
    qed
  qed auto
qed simp

lemma alloc_peer_spec:
  "case alloc_peer sv of
     (None, sv') \<Rightarrow> sv' = sv \<and> (\<forall>p \<in> set (peers sv). peer_active p)
   | (Some k, sv') \<Rightarrow> k < length (peers sv) \<and> \<not> peer_active (peers sv ! k) \<and> (\<forall>l < k. peer_active (peers sv ! l)) \<and>
       sv' = sv\<lparr>peers := (peers sv)[k := (peers sv ! k)\<lparr>peer_fd := -1, peer_active := True\<rparr>]\<rparr>"
  using alloc_slot_spec[of "peers sv" 0] by (auto simp: alloc_peer_def split: option.splits)

section \<open>The invariant\<close>

lemma server_inv_cong:
  assumes "server_inv open_fds base y" and "length (ss_threads y') = length (ss_threads y)"
    and "\<And>i. i < length (ss_threads y) \<Longrightarrow> owns_fd (ss_threads y' ! i) = owns_fd (ss_threads y ! i) \<and>
      peer_active (peers (ss_server y') ! i) = (ss_threads y' ! i \<in> {In_Session, Closing, Releasing}) \<and>
      (owns_fd (ss_threads y' ! i) \<longrightarrow> fd_at y' i = fd_at y i)"
    and "length (peers (ss_server y')) = length (peers (ss_server y))"
    and "open_fds (sv_net (ss_server y')) = open_fds (sv_net (ss_server y))"
  shows "server_inv open_fds base y'"
proof -
  have o: "owners y' = owners y" using assms(2,3) by (auto simp: owners_def)
  have f: "fd_at y' i = fd_at y i" if "i \<in> owners y" for i
    using assms(3)[of i] that by (auto simp: owners_def)
  have "inj_on (fd_at y') (owners y') = inj_on (fd_at y) (owners y)" unfolding o by (rule inj_on_cong) (rule f)
  moreover have "fd_at y' ` owners y' = fd_at y ` owners y" unfolding o by (rule image_cong[OF refl]) (rule f)
  ultimately show ?thesis using assms by (simp add: server_inv_def)
qed

lemma owners_start [simp]: "owners (server_system_start sv) = {}"
  by (auto simp: owners_def server_system_start_def owns_fd_def)

lemma server_inv_active:
  "server_inv open_fds base y \<Longrightarrow> length (peers (ss_server y)) = length (ss_threads y) \<and>
   (\<forall>i < length (ss_threads y). peer_active (peers (ss_server y) ! i) = (ss_threads y ! i \<in> {In_Session, Closing, Releasing}))"
  by (simp add: server_inv_def)

context listener_sockets
begin

lemma new_thread_inv:
  assumes "server_inv open_fds base y" and "accept_round lo (ss_server y) = (Some i, sv)"
  shows "server_inv open_fds base (y\<lparr>ss_server := sv, ss_threads := (ss_threads y)[i := In_Session], ss_reused := r\<rparr>)"
proof -
  let ?sv = "ss_server y"
  obtain fd n where a: "zsock_accept lo (listen_fd ?sv) (sv_net ?sv) = (fd, n)" by fastforce
  have fd: "0 \<le> fd" using a assms(2) by (auto simp: accept_round_def Let_def split: if_splits)
  have o: "fd \<notin> open_fds (sv_net ?sv)" "open_fds n = insert fd (open_fds (sv_net ?sv))"
    using accept_opens[OF a] fd by auto
  have k: "i < length (peers ?sv)" "\<not> peer_active (peers ?sv ! i)"
      "sv = ?sv\<lparr>sv_net := n, peers := (peers ?sv)[i := (peers ?sv ! i)\<lparr>peer_active := True, peer_fd := fd\<rparr>]\<rparr>"
    using assms(2) a fd alloc_peer_spec[of "?sv\<lparr>sv_net := n\<rparr>"]
    by (auto simp: accept_round_def Let_def split: prod.splits option.splits)
  let ?y = "y\<lparr>ss_server := sv, ss_threads := (ss_threads y)[i := In_Session], ss_reused := r\<rparr>"
  have len: "length (peers ?sv) = length (ss_threads y)" using assms(1) by (simp add: server_inv_def)
  have no: "i \<notin> owners y" using assms(1) k len by (auto simp: server_inv_def owners_def owns_fd_def)
  have ow: "owners ?y = insert i (owners y)"
    using k(1) len by (auto simp: owners_def owns_fd_def nth_list_update)
  have fds: "fd_at ?y j = (if j = i then fd else fd_at y j)" if "j < length (ss_threads y)" for j
    using k that len by (auto simp: fd_at_def)
  have im: "fd_at ?y ` owners y = fd_at y ` owners y"
    by (rule image_cong) (use fds no in \<open>auto simp: owners_def\<close>)
  have "inj_on (fd_at ?y) (owners y) = inj_on (fd_at y) (owners y)"
    by (rule inj_on_cong) (use fds no in \<open>auto simp: owners_def\<close>)
  moreover have "fd_at ?y i = fd" using fds[of i] k(1) len by simp
  moreover have "open_fds (sv_net ?sv) = base \<union> fd_at y ` owners y" using assms(1) by (simp add: server_inv_def)
  ultimately show ?thesis
    using assms(1) k len o fd fds no im unfolding server_inv_def ow
    by (auto simp: nth_list_update owners_def)
qed

lemma no_thread_inv:
  assumes "server_inv open_fds base y" and "accept_round lo (ss_server y) = (None, sv)"
  shows "server_inv open_fds base (y\<lparr>ss_server := sv\<rparr>)"
proof -
  let ?sv = "ss_server y"
  obtain fd n where a: "zsock_accept lo (listen_fd ?sv) (sv_net ?sv) = (fd, n)" by fastforce
  have "peers sv = peers ?sv \<and> open_fds (sv_net sv) = open_fds (sv_net ?sv)"
  proof (cases "fd < 0")
    case True
    have "sv = ?sv\<lparr>sv_net := n\<rparr>" using assms(2) a True by (simp add: accept_round_def Let_def)
    then show ?thesis using accept_opens[OF a] True by simp
  next
    case False
    obtain x sv' where al: "alloc_peer (?sv\<lparr>sv_net := n\<rparr>) = (x, sv')" by fastforce
    have x: "x = None" using assms(2) a False al by (simp add: accept_round_def Let_def split: option.splits)
    have sv': "sv' = ?sv\<lparr>sv_net := n\<rparr>" using alloc_peer_spec[of "?sv\<lparr>sv_net := n\<rparr>"] al x by simp
    have "sv = ?sv\<lparr>sv_net := zsock_close lo fd n\<rparr>"
      using assms(2) a False al x sv' by (simp add: accept_round_def Let_def)
    moreover have "open_fds (zsock_close lo fd n) = open_fds (sv_net ?sv)"
      using accept_opens[OF a] close_closes[of fd n] False by simp
    ultimately show ?thesis by simp
  qed
  moreover have "fd_at (y\<lparr>ss_server := sv\<rparr>) i = fd_at y i" if "peers sv = peers ?sv" for i
    using that by (simp add: fd_at_def)
  ultimately show ?thesis
    by (intro server_inv_cong[OF assms(1)]) (use server_inv_active[OF assms(1)] in simp_all)
qed

lemma close_fd_inv:
  assumes "server_inv open_fds base y" and "i < length (ss_threads y)" and "ss_threads y ! i = Closing"
  shows "server_inv open_fds base
    (y\<lparr>ss_server := close_peer_fd lo i (ss_server y), ss_threads := (ss_threads y)[i := Releasing]\<rparr>)"
proof -
  let ?sv = "ss_server y"
  let ?y = "y\<lparr>ss_server := close_peer_fd lo i ?sv, ss_threads := (ss_threads y)[i := Releasing]\<rparr>"
  have len: "length (peers ?sv) = length (ss_threads y)" using assms(1) by (simp add: server_inv_def)
  have own: "i \<in> owners y" using assms(2,3) by (simp add: owners_def owns_fd_def)
  have fd: "0 \<le> fd_at y i" "fd_at y i \<notin> base"
    using assms(1,2,3) by (auto simp: server_inv_def owns_fd_def)
  have inj: "inj_on (fd_at y) (owners y)" using assms(1) by (simp add: server_inv_def)
  have op: "open_fds (sv_net ?sv) = base \<union> fd_at y ` owners y" using assms(1) by (simp add: server_inv_def)
  have sv: "close_peer_fd lo i ?sv = ?sv\<lparr>sv_net := zsock_close lo (fd_at y i) (sv_net ?sv),
      peers := (peers ?sv)[i := (peers ?sv ! i)\<lparr>peer_fd := -1\<rparr>]\<rparr>"
    using fd by (simp add: close_peer_fd_def fd_at_def Let_def)
  have "open_fds (zsock_close lo (fd_at y i) (sv_net ?sv)) = open_fds (sv_net ?sv) - {fd_at y i}"
    by (rule close_closes) (use op own in auto)
  also have "\<dots> = base \<union> fd_at y ` (owners y - {i})"
    unfolding op using fd(2) inj_on_image_set_diff[OF inj, of "owners y" "{i}"] own by auto
  finally have cl: "open_fds (zsock_close lo (fd_at y i) (sv_net ?sv)) = base \<union> fd_at y ` (owners y - {i})" .
  have ow: "owners ?y = owners y - {i}"
    using assms(2) by (auto simp: owners_def owns_fd_def nth_list_update split: if_splits)
  have fds: "fd_at ?y j = fd_at y j" if "j \<noteq> i" for j
    using that by (simp add: fd_at_def sv)
  have "fd_at ?y ` (owners y - {i}) = fd_at y ` (owners y - {i})"
    by (rule image_cong) (use fds in auto)
  moreover have "inj_on (fd_at ?y) (owners y - {i}) = inj_on (fd_at y) (owners y - {i})"
    by (rule inj_on_cong) (use fds in auto)
  moreover have "inj_on (fd_at y) (owners y - {i})" using inj by (rule inj_on_subset) auto
  ultimately show ?thesis
    using assms len cl fds unfolding server_inv_def ow
    by (auto simp: nth_list_update sv owns_fd_def)
qed

lemma server_step_inv:
  assumes "server_step lo y y'" and "server_inv open_fds base y"
  shows "server_inv open_fds base y'"
  using assms(1)
proof (cases rule: server_step.cases)
  case no_thread
  then show ?thesis using no_thread_inv[OF assms(2)] by simp
next
  case new_thread
  then show ?thesis using new_thread_inv[OF assms(2)] by simp
next
  case closes
  then show ?thesis using close_fd_inv[OF assms(2)] by simp
next
  case (returns i)
  then show ?thesis
    by (intro server_inv_cong[OF assms(2)])
      (use server_inv_active[OF assms(2)] in \<open>auto simp: fd_at_def owns_fd_def nth_list_update\<close>)
next
  case (releases i)
  then show ?thesis
    by (intro server_inv_cong[OF assms(2)])
      (use server_inv_active[OF assms(2)] in \<open>auto simp: fd_at_def owns_fd_def nth_list_update release_peer_def\<close>)
next
  case (exits i)
  then show ?thesis
    by (intro server_inv_cong[OF assms(2)])
      (use server_inv_active[OF assms(2)] in \<open>auto simp: fd_at_def owns_fd_def nth_list_update\<close>)
qed

lemma reachable_server_inv:
  assumes "(server_step lo)\<^sup>*\<^sup>* (server_system_start sv) y" and "\<forall>p \<in> set (peers sv). \<not> peer_active p"
    and "base = open_fds (sv_net sv)"
  shows "server_inv open_fds base y"
  using assms(1)
proof induction
  case base
  then show ?case
    using assms(2,3) unfolding server_inv_def owners_start by (simp add: server_system_start_def owns_fd_def)
qed (auto intro: server_step_inv)

text \<open>A start that fails leaves no socket open.\<close>

lemma server_listen_fds:
  assumes "server_listen lo sv = (ok, sv')"
  shows "open_fds (sv_net sv') = (if ok then insert (listen_fd sv') (open_fds (sv_net sv)) else open_fds (sv_net sv)) \<and>
    peers sv' = peers sv"
proof -
  obtain fd n where so: "zsock_socket lo (sv_net sv) = (fd, n)" by fastforce
  obtain r n1 where bi: "zsock_bind lo fd n = (r, n1)" by fastforce
  obtain r2 n2 where li: "zsock_listen lo fd n1 = (r2, n2)" by fastforce
  have o: "fd < 0 \<longrightarrow> open_fds n = open_fds (sv_net sv)"
      "\<not> fd < 0 \<longrightarrow> fd \<notin> open_fds (sv_net sv) \<and> open_fds n = insert fd (open_fds (sv_net sv))"
    using socket_opens[OF so] by (simp_all split: if_splits)
  have k: "open_fds n1 = open_fds n" "open_fds n2 = open_fds n"
    using bind_keeps[OF bi] listen_keeps[OF li] by simp_all
  have c: "\<not> fd < 0 \<Longrightarrow> open_fds (zsock_close lo fd n1) = open_fds (sv_net sv)"
      "\<not> fd < 0 \<Longrightarrow> open_fds (zsock_close lo fd n2) = open_fds (sv_net sv)"
    using close_closes[of fd n1] close_closes[of fd n2] o k by auto
  show ?thesis
  proof -
    consider "fd < 0" | "\<not> fd < 0" "r < 0" | "\<not> fd < 0" "\<not> r < 0" "r2 < 0" | "\<not> fd < 0" "\<not> r < 0" "\<not> r2 < 0" by blast
    then show ?thesis
    proof cases
      case 1
      then have "ok = False" "sv' = sv\<lparr>listen_fd := fd, sv_net := n\<rparr>"
        using assms so by (simp_all add: server_listen_def Let_def)
      then show ?thesis using o 1 by simp
    next
      case 2
      then have "ok = False" "sv' = sv\<lparr>listen_fd := fd, sv_net := zsock_close lo fd n1\<rparr>"
        using assms so bi by (simp_all add: server_listen_def Let_def)
      then show ?thesis using c 2 by simp
    next
      case 3
      then have "ok = False" "sv' = sv\<lparr>listen_fd := fd, sv_net := zsock_close lo fd n2\<rparr>"
        using assms so bi li by (simp_all add: server_listen_def Let_def)
      then show ?thesis using c 3 by simp
    next
      case 4
      then have "ok = True" "sv' = sv\<lparr>listen_fd := fd, sv_net := n2\<rparr>"
        using assms so bi li by (simp_all add: server_listen_def Let_def)
      then show ?thesis using o k 4 by simp
    qed
  qed
qed

end

section \<open>A network\<close>

text \<open>The open descriptors as a list; a new one is larger than all of them.\<close>

definition fresh_fd :: "int list \<Rightarrow> int" where
  "fresh_fd n = foldr max n 0 + 1"

definition demo_listen_ops :: "int list listen_ops" where
  "demo_listen_ops = \<lparr>zsock_socket = (\<lambda>n. (fresh_fd n, fresh_fd n # n)), zsock_bind = (\<lambda>fd n. (0, n)),
     zsock_listen = (\<lambda>fd n. (0, n)), zsock_accept = (\<lambda>lfd n. (fresh_fd n, fresh_fd n # n)),
     zsock_close = (\<lambda>fd n. filter (\<lambda>x. x \<noteq> fd) n)\<rparr>"

lemma foldr_max: "(0::int) \<le> foldr max n 0 \<and> (\<forall>x \<in> set n. x \<le> foldr max n 0)"
  by (induction n) auto

lemma fresh_fd: "0 \<le> fresh_fd n" "fresh_fd n \<notin> set n"
  using foldr_max[of n] by (auto simp: fresh_fd_def)

interpretation demo_net: listener_sockets demo_listen_ops set
  by unfold_locales (use fresh_fd in \<open>auto simp: demo_listen_ops_def simp flip: not_le\<close>)

section \<open>Properties\<close>

lemma count_active_eq: "count_active ps a = a + of_nat (length (filter peer_active ps))"
  by (induction ps arbitrary: a) auto

text \<open>C18. No connection is leaked or closed twice, under every interleaving of the accept loop with the
  threads of the peers: the open descriptors are those that were open at the start and one for each
  slot whose session has not closed it yet, all different; the statistics count exactly
  the slots whose thread has not released them, and there are never more than the
  configured number.\<close>

theorem server_connections_accounted:
  assumes "listener_sockets lo open_fds" and "\<forall>p \<in> set (peers sv). \<not> peer_active p"
    and "(server_step lo)\<^sup>*\<^sup>* (server_system_start sv) y"
  shows "open_fds (sv_net (ss_server y)) = open_fds (sv_net sv) \<union> fd_at y ` owners y \<and>
    inj_on (fd_at y) (owners y) \<and> fd_at y ` owners y \<inter> open_fds (sv_net sv) = {} \<and>
    active_peers (tcp_nmea_server_get_stats (ss_server y)) =
      of_nat (card {i. i < length (ss_threads y) \<and> ss_threads y ! i \<in> {In_Session, Closing, Releasing}}) \<and>
    length (peers (ss_server y)) = length (ss_threads y)"
proof -
  have inv: "server_inv open_fds (open_fds (sv_net sv)) y"
    by (rule listener_sockets.reachable_server_inv[OF assms(1,3,2) refl])
  have "length (filter peer_active (peers (ss_server y))) =
      card {i. i < length (ss_threads y) \<and> ss_threads y ! i \<in> {In_Session, Closing, Releasing}}"
    unfolding length_filter_conv_card using server_inv_active[OF inv] by (intro arg_cong[where f = card]) auto
  then show ?thesis
    using inv by (auto simp: server_inv_def tcp_nmea_server_get_stats_def count_active_eq owners_def)
qed

text \<open>A server with one slot after the accept loop took two connections: the second was rejected.\<close>

definition one_slot :: "int list server" where
  "one_slot = \<lparr>peers = [\<lparr>peer_fd = -1, peer_active = False\<rparr>], listen_fd = 1, server_started = True, sv_net = [1]\<rparr>"

definition one_peer :: "int list server_system" where
  "one_peer = \<lparr>ss_server = one_slot\<lparr>peers := [\<lparr>peer_fd = 2, peer_active = True\<rparr>], sv_net := [2, 1]\<rparr>,
     ss_threads = [In_Session], ss_reused = False\<rparr>"

lemma first_accept: "server_step demo_listen_ops (server_system_start one_slot) one_peer"
proof -
  have "accept_round demo_listen_ops one_slot = (Some 0, ss_server one_peer)"
    by (simp add: accept_round_def one_slot_def one_peer_def demo_listen_ops_def fresh_fd_def alloc_peer_def)
  then show ?thesis
    using server_step.new_thread[of demo_listen_ops "server_system_start one_slot" 0 "ss_server one_peer"]
    by (simp add: server_system_start_def one_peer_def one_slot_def)
qed

theorem server_connections_accounted_witness:
  "set (sv_net (ss_server one_peer)) = {1, 2} \<and>
   active_peers (tcp_nmea_server_get_stats (ss_server one_peer)) = 1"
proof -
  have "\<forall>p \<in> set (peers one_slot). \<not> peer_active p" by (simp add: one_slot_def)
  from server_connections_accounted[OF demo_net.listener_sockets_axioms this r_into_rtranclp[of "server_step demo_listen_ops", OF first_accept]]
  have "active_peers (tcp_nmea_server_get_stats (ss_server one_peer)) = of_nat (card {i. i < length (ss_threads one_peer) \<and>
      ss_threads one_peer ! i \<in> {In_Session, Closing, Releasing}})"
    "set (sv_net (ss_server one_peer)) = set (sv_net one_slot) \<union> fd_at one_peer ` owners one_peer" by blast+
  moreover have "{i. i < length (ss_threads one_peer) \<and> ss_threads one_peer ! i \<in> {In_Session, Closing, Releasing}} = {0}"
    "owners one_peer = {0}" by (auto simp: one_peer_def owners_def owns_fd_def)
  ultimately show ?thesis by (auto simp: one_peer_def one_slot_def fd_at_def)
qed

text \<open>C37. The slot of a peer is free before its thread has ended: in some interleaving the accept loop
  creates a new thread on the stack and control block of a thread that is still running.\<close>

theorem slot_reused_while_thread_alive:
  "\<exists>y. (server_step demo_listen_ops)\<^sup>*\<^sup>* (server_system_start one_slot) y \<and> ss_reused y"
proof -
  let ?sv = "one_slot\<lparr>peers := [\<lparr>peer_fd = -1, peer_active = False\<rparr>], sv_net := [1]\<rparr>"
  let ?y = "\<lambda>sv t. \<lparr>ss_server = sv, ss_threads = [t], ss_reused = False\<rparr>"
  note steps = server_step.returns[of 0 one_peer demo_listen_ops]
    server_step.closes[of 0 "?y (ss_server one_peer) Closing" demo_listen_ops]
    server_step.releases[of 0 "?y (one_slot\<lparr>peers := [\<lparr>peer_fd = -1, peer_active = True\<rparr>], sv_net := [1]\<rparr>) Releasing" demo_listen_ops]
    server_step.new_thread[of demo_listen_ops "?y ?sv Exiting" 0 "ss_server one_peer"]
  have "server_step demo_listen_ops one_peer (?y (ss_server one_peer) Closing)"
    using steps(1) by (simp add: one_peer_def)
  moreover have "server_step demo_listen_ops (?y (ss_server one_peer) Closing)
      (?y (one_slot\<lparr>peers := [\<lparr>peer_fd = -1, peer_active = True\<rparr>], sv_net := [1]\<rparr>) Releasing)"
    using steps(2) by (simp add: one_peer_def one_slot_def close_peer_fd_def Let_def demo_listen_ops_def)
  moreover have "server_step demo_listen_ops
      (?y (one_slot\<lparr>peers := [\<lparr>peer_fd = -1, peer_active = True\<rparr>], sv_net := [1]\<rparr>) Releasing) (?y ?sv Exiting)"
    using steps(3) by (simp add: release_peer_def one_slot_def)
  moreover have "accept_round demo_listen_ops ?sv = (Some 0, ss_server one_peer)"
    by (simp add: accept_round_def one_slot_def one_peer_def demo_listen_ops_def fresh_fd_def alloc_peer_def)
  then have "server_step demo_listen_ops (?y ?sv Exiting) (one_peer\<lparr>ss_reused := True\<rparr>)"
    using steps(4) by (simp add: one_peer_def)
  ultimately have "(server_step demo_listen_ops)\<^sup>*\<^sup>* (server_system_start one_slot) (one_peer\<lparr>ss_reused := True\<rparr>)"
    using first_accept by (meson converse_rtranclp_into_rtranclp rtranclp.rtrancl_refl)
  then show ?thesis by (intro exI[of _ "one_peer\<lparr>ss_reused := True\<rparr>"]) simp
qed

end
