(* ===== verification/Bridge_Telemetry.thy ===== *)
theory Bridge_Telemetry
  imports Uart_Nmea Tcp_Nmea_Session Tcp_Nmea_Server
begin

text \<open>
  The telemetry, \<open>src/src/bridge_telemetry.c\<close>: a snapshot of the counters of the other components with two
  derived states and two warnings. The input counts as active for five seconds after a request
  saw that the number of accepted frames had changed.

  Times are the milliseconds of \<open>k_uptime_get\<close>, from 0 on and below \<open>2 ^ 63\<close>; \<open>INT64_MIN\<close> stands for never.
  What the Wi-Fi manager reports is an argument.
\<close>

section \<open>Translation\<close>

definition BRIDGE_TELEMETRY_NMEA_INPUT_WINDOW_MS :: int where
  "BRIDGE_TELEMETRY_NMEA_INPUT_WINDOW_MS = 5000"

definition BRIDGE_TELEMETRY_IPV4_ADDR_STR_LEN :: nat where
  "BRIDGE_TELEMETRY_IPV4_ADDR_STR_LEN = 16"

definition INT64_MIN :: int where "INT64_MIN = - (2 ^ 63)"

datatype bridge_telemetry_nmea_connection_state =
  BRIDGE_TELEMETRY_NMEA_DISCONNECTED | BRIDGE_TELEMETRY_NMEA_CONNECTED

datatype bridge_telemetry_nmea_input_state =
  BRIDGE_TELEMETRY_NMEA_INPUT_IDLE | BRIDGE_TELEMETRY_NMEA_INPUT_ACTIVE

record bridge_telemetry_counters =
  c_uart_bytes_rx :: u32
  c_uart_frames_rx :: u32
  c_uart_overlong_frames :: u32
  c_uart_ais_self_mmsi_filtered :: u32
  c_bridge_frames_in :: u32
  c_bridge_ingest_dropped_oldest :: u32
  c_bridge_sink_dropped_oldest :: u32
  c_bridge_publish_no_sinks :: u32
  c_bridge_publish_invalid :: u32
  c_bridge_publish_oversize :: u32
  c_tcp_nmea_active_sessions :: u32
  c_tcp_server_active_peers :: u32
  c_tcp_server_max_peers :: u32

record bridge_telemetry_warnings =
  w_data_quality :: bool
  w_frame_loss :: bool

record bridge_telemetry_snapshot =
  connection_state :: bridge_telemetry_nmea_connection_state
  input_state :: bridge_telemetry_nmea_input_state
  warnings :: bridge_telemetry_warnings
  s_sta_ready :: bool
  s_sta_ipv4 :: "byte list"
  s_sta_rssi_valid :: bool
  s_sta_rssi_dbm :: int
  counters :: bridge_telemetry_counters

record bridge_telemetry_inputs =
  i_uart_bytes_rx :: u32
  i_uart_frames_rx :: u32
  i_uart_overlong_frames :: u32
  i_uart_ais_self_mmsi_filtered :: u32
  i_bridge_frames_in :: u32
  i_bridge_ingest_dropped_oldest :: u32
  i_bridge_sink_dropped_oldest :: u32
  i_bridge_publish_no_sinks :: u32
  i_bridge_publish_invalid :: u32
  i_bridge_publish_oversize :: u32
  i_tcp_nmea_active_sessions :: u32
  i_tcp_server_active_peers :: u32
  i_tcp_server_max_peers :: u32
  i_sta_ready :: bool
  i_sta_ipv4 :: "byte list"
  i_sta_rssi_valid :: bool
  i_sta_rssi_dbm :: int

record bridge_telemetry_state =
  last_bridge_frames_in :: u32
  last_bridge_frame_ms :: int
  tel_initialized :: bool

definition copy_counters :: "bridge_telemetry_inputs \<Rightarrow> bridge_telemetry_counters" where
  "copy_counters inputs =
     \<lparr>c_uart_bytes_rx = i_uart_bytes_rx inputs,
      c_uart_frames_rx = i_uart_frames_rx inputs,
      c_uart_overlong_frames = i_uart_overlong_frames inputs,
      c_uart_ais_self_mmsi_filtered = i_uart_ais_self_mmsi_filtered inputs,
      c_bridge_frames_in = i_bridge_frames_in inputs,
      c_bridge_ingest_dropped_oldest = i_bridge_ingest_dropped_oldest inputs,
      c_bridge_sink_dropped_oldest = i_bridge_sink_dropped_oldest inputs,
      c_bridge_publish_no_sinks = i_bridge_publish_no_sinks inputs,
      c_bridge_publish_invalid = i_bridge_publish_invalid inputs,
      c_bridge_publish_oversize = i_bridge_publish_oversize inputs,
      c_tcp_nmea_active_sessions = i_tcp_nmea_active_sessions inputs,
      c_tcp_server_active_peers = i_tcp_server_active_peers inputs,
      c_tcp_server_max_peers = i_tcp_server_max_peers inputs\<rparr>"

text \<open>What \<open>wifi_manager_sta_ready\<close>, \<open>wifi_manager_get_sta_ipv4\<close> (the buffer it leaves and its result) and
  \<open>wifi_manager_get_sta_rssi\<close> (likewise) give.\<close>

record wifi_report =
  wr_sta_ready :: bool
  wr_ipv4_valid :: bool
  wr_ipv4_buffer :: "byte list"
  wr_rssi_valid :: bool
  wr_rssi_dbm :: int

definition collect_inputs ::
  "uart_nmea_stats \<Rightarrow> nmea_bridge_stats \<Rightarrow> tcp_nmea_server_stats \<Rightarrow> tcp_nmea_session_stats \<Rightarrow> wifi_report
    \<Rightarrow> bridge_telemetry_inputs"
where
  "collect_inputs us bs ss sess wifi =
     \<lparr>i_uart_bytes_rx = bytes_rx us,
      i_uart_frames_rx = frames_rx us,
      i_uart_overlong_frames = overlong_frames us,
      i_uart_ais_self_mmsi_filtered = ais_self_mmsi_filtered us,
      i_bridge_frames_in = frames_in bs,
      i_bridge_ingest_dropped_oldest = ingest_dropped_oldest bs,
      i_bridge_sink_dropped_oldest = sink_dropped_oldest bs,
      i_bridge_publish_no_sinks = publish_no_sinks bs,
      i_bridge_publish_invalid = publish_invalid bs,
      i_bridge_publish_oversize = publish_oversize bs,
      i_tcp_nmea_active_sessions = stats_active_sessions sess,
      i_tcp_server_active_peers = active_peers ss,
      i_tcp_server_max_peers = max_peers ss,
      i_sta_ready = wr_sta_ready wifi,
      i_sta_ipv4 = (if wr_ipv4_valid wifi then wr_ipv4_buffer wifi else (wr_ipv4_buffer wifi)[0 := 0]),
      i_sta_rssi_valid = wr_rssi_valid wifi,
      i_sta_rssi_dbm = wr_rssi_dbm wifi\<rparr>"

definition update_state :: "bridge_telemetry_inputs \<Rightarrow> int \<Rightarrow> bridge_telemetry_state \<Rightarrow> bridge_telemetry_state" where
  "update_state inputs now_ms st =
     (if \<not> tel_initialized st then
        st\<lparr>last_bridge_frames_in := i_bridge_frames_in inputs,
           last_bridge_frame_ms := (if i_bridge_frames_in inputs > 0 then now_ms else INT64_MIN),
           tel_initialized := True\<rparr>
      else if i_bridge_frames_in inputs \<noteq> last_bridge_frames_in st then
        st\<lparr>last_bridge_frames_in := i_bridge_frames_in inputs, last_bridge_frame_ms := now_ms\<rparr>
      else st)"

text \<open>\<open>None\<close> for a NULL argument: nothing happens.\<close>

definition bridge_telemetry_build_snapshot ::
  "bridge_telemetry_state option \<Rightarrow> bridge_telemetry_inputs option \<Rightarrow> int \<Rightarrow> bool
    \<Rightarrow> (bridge_telemetry_state \<times> bridge_telemetry_snapshot) option"
where
  "bridge_telemetry_build_snapshot state inputs now_ms has_snapshot =
     (case (state, inputs, has_snapshot) of
        (Some st, Some inputs, True) \<Rightarrow>
          (let st = update_state inputs now_ms st in
           Some (st,
             \<lparr>connection_state = (if i_tcp_nmea_active_sessions inputs > 0
                then BRIDGE_TELEMETRY_NMEA_CONNECTED else BRIDGE_TELEMETRY_NMEA_DISCONNECTED),
              input_state =
                (if last_bridge_frame_ms st = INT64_MIN then BRIDGE_TELEMETRY_NMEA_INPUT_IDLE
                 else if now_ms - last_bridge_frame_ms st \<le> BRIDGE_TELEMETRY_NMEA_INPUT_WINDOW_MS
                 then BRIDGE_TELEMETRY_NMEA_INPUT_ACTIVE else BRIDGE_TELEMETRY_NMEA_INPUT_IDLE),
              warnings = \<lparr>w_data_quality = (i_uart_overlong_frames inputs > 0 \<or>
                  i_bridge_publish_invalid inputs > 0 \<or> i_bridge_publish_oversize inputs > 0),
                w_frame_loss = (i_bridge_ingest_dropped_oldest inputs > 0 \<or> i_bridge_sink_dropped_oldest inputs > 0)\<rparr>,
              s_sta_ready = i_sta_ready inputs,
              s_sta_ipv4 = (i_sta_ipv4 inputs)[BRIDGE_TELEMETRY_IPV4_ADDR_STR_LEN - 1 := 0],
              s_sta_rssi_valid = i_sta_rssi_valid inputs,
              s_sta_rssi_dbm = i_sta_rssi_dbm inputs,
              counters = copy_counters inputs\<rparr>))
      | _ \<Rightarrow> None)"

definition bridge_telemetry_get_snapshot ::
  "uart_nmea_stats \<Rightarrow> nmea_bridge_stats \<Rightarrow> tcp_nmea_server_stats \<Rightarrow> tcp_nmea_session_stats \<Rightarrow> wifi_report
    \<Rightarrow> int \<Rightarrow> bridge_telemetry_state \<Rightarrow> bridge_telemetry_state \<times> bridge_telemetry_snapshot"
where
  "bridge_telemetry_get_snapshot us bs ss sess wifi now_ms st =
     the (bridge_telemetry_build_snapshot (Some st) (Some (collect_inputs us bs ss sess wifi)) now_ms True)"

definition telemetry_boot :: bridge_telemetry_state where
  "telemetry_boot = \<lparr>last_bridge_frames_in = 0, last_bridge_frame_ms = 0, tel_initialized = False\<rparr>"

section \<open>Sequences of requests\<close>

type_synonym request = "int \<times> bridge_telemetry_inputs"

fun after_requests :: "request list \<Rightarrow> bridge_telemetry_state \<Rightarrow> bridge_telemetry_state" where
  "after_requests [] st = st"
| "after_requests ((now, inputs) # rs) st =
     after_requests rs (fst (the (bridge_telemetry_build_snapshot (Some st) (Some inputs) now True)))"

text \<open>The times of the requests that saw another number of frames than the request before; before the first
  one the number is 0.\<close>

fun change_times :: "u32 \<Rightarrow> request list \<Rightarrow> int list" where
  "change_times n [] = []"
| "change_times n ((now, inputs) # rs) =
     (if i_bridge_frames_in inputs \<noteq> n then [now] else []) @ change_times (i_bridge_frames_in inputs) rs"

lemma build_state:
  "fst (the (bridge_telemetry_build_snapshot (Some st) (Some inputs) now True)) = update_state inputs now st"
  by (simp add: bridge_telemetry_build_snapshot_def Let_def)

lemma after_requests_append:
  "after_requests (rs @ [r]) st = update_state (snd r) (fst r) (after_requests rs st)"
  by (induction rs st rule: after_requests.induct) (cases r; simp add: build_state)+

lemma change_times_append:
  "change_times n (rs @ [(now, inputs)]) =
     change_times n rs @ (if i_bridge_frames_in inputs \<noteq> (if rs = [] then n else i_bridge_frames_in (snd (last rs)))
       then [now] else [])"
  by (induction n rs rule: change_times.induct) auto

definition times_ok :: "request list \<Rightarrow> bool" where
  "times_ok rs \<longleftrightarrow> sorted (map fst rs) \<and> (\<forall>r \<in> set rs. 0 \<le> fst r)"

text \<open>The state after some requests: the last number of frames and the time of the last change.\<close>

lemma state_after:
  assumes "rs \<noteq> []"
  shows "tel_initialized (after_requests rs telemetry_boot) \<and>
    last_bridge_frames_in (after_requests rs telemetry_boot) = i_bridge_frames_in (snd (last rs)) \<and>
    last_bridge_frame_ms (after_requests rs telemetry_boot) =
      (if change_times 0 rs = [] then INT64_MIN else last (change_times 0 rs))"
  using assms
proof (induction rs rule: rev_nonempty_induct)
  case (single r)
  then show ?case
    by (cases r) (auto simp: update_state_def telemetry_boot_def build_state word_gt_0)
next
  case (snoc r rs)
  then show ?case
    by (cases r) (auto simp: after_requests_append update_state_def change_times_append)
qed

lemma change_times_sub: "set (change_times n rs) \<subseteq> set (map fst rs)"
  by (induction n rs rule: change_times.induct) auto

lemma change_times_sorted: "sorted (map fst rs) \<Longrightarrow> sorted (change_times n rs)"
proof (induction n rs rule: change_times.induct)
  case (2 n now inputs rs)
  have "\<forall>t \<in> set (change_times (i_bridge_frames_in inputs) rs). now \<le> t"
    using 2(2) change_times_sub[of "i_bridge_frames_in inputs" rs] by fastforce
  then show ?case using 2 by auto
qed simp

lemma sorted_le_last: "sorted xs \<Longrightarrow> x \<in> set xs \<Longrightarrow> x \<le> last xs"
  by (induction xs) auto

section \<open>Properties\<close>

text \<open>C28. The input is reported active exactly when, in the last five seconds, some request saw a number of
  accepted frames other than the request before it did. So the time that counts is that of the
  request, not that of the frame: the first request ever reports activity for any frames since
  boot, however old.\<close>

theorem input_active_iff_change_seen:
  assumes "times_ok (rs @ [(now, inputs)])"
    and "bridge_telemetry_build_snapshot (Some (after_requests rs telemetry_boot)) (Some inputs) now True = Some (st, snap)"
  shows "input_state snap = BRIDGE_TELEMETRY_NMEA_INPUT_ACTIVE \<longleftrightarrow>
    (\<exists>t \<in> set (change_times 0 (rs @ [(now, inputs)])). now - t \<le> 5000)"
proof -
  let ?rs = "rs @ [(now, inputs)]"
  let ?ts = "change_times 0 ?rs"
  have "st = after_requests ?rs telemetry_boot"
    using assms(2) by (auto simp: after_requests_append bridge_telemetry_build_snapshot_def Let_def)
  then have last: "last_bridge_frame_ms st = (if ?ts = [] then INT64_MIN else last ?ts)"
    using state_after[of ?rs] by simp
  have srt: "sorted ?ts" using assms(1) change_times_sorted[of ?rs] by (simp add: times_ok_def)
  have pos: "0 \<le> t" if "t \<in> set ?ts" for t
    using assms(1) change_times_sub[of 0 ?rs] that by (auto simp: times_ok_def)
  have "input_state snap = (if last_bridge_frame_ms st = INT64_MIN then BRIDGE_TELEMETRY_NMEA_INPUT_IDLE
      else if now - last_bridge_frame_ms st \<le> 5000 then BRIDGE_TELEMETRY_NMEA_INPUT_ACTIVE
      else BRIDGE_TELEMETRY_NMEA_INPUT_IDLE)"
    using assms(2) by (auto simp: bridge_telemetry_build_snapshot_def Let_def BRIDGE_TELEMETRY_NMEA_INPUT_WINDOW_MS_def)
  moreover have "?ts \<noteq> [] \<Longrightarrow> last ?ts \<noteq> INT64_MIN"
    using pos[OF last_in_set] by (force simp: INT64_MIN_def)
  moreover have "?ts \<noteq> [] \<Longrightarrow> (\<exists>t \<in> set ?ts. now - t \<le> 5000) \<longleftrightarrow> now - last ?ts \<le> 5000"
    using sorted_le_last[OF srt] last_in_set[of ?ts] by force
  ultimately show ?thesis using last by auto
qed

definition demo_inputs :: "u32 \<Rightarrow> bridge_telemetry_inputs" where
  "demo_inputs n = \<lparr>i_uart_bytes_rx = 0, i_uart_frames_rx = n, i_uart_overlong_frames = 0,
     i_uart_ais_self_mmsi_filtered = 0, i_bridge_frames_in = n, i_bridge_ingest_dropped_oldest = 0,
     i_bridge_sink_dropped_oldest = 0, i_bridge_publish_no_sinks = n, i_bridge_publish_invalid = 0,
     i_bridge_publish_oversize = 0, i_tcp_nmea_active_sessions = 0, i_tcp_server_active_peers = 0,
     i_tcp_server_max_peers = 4, i_sta_ready = False, i_sta_ipv4 = replicate 16 0, i_sta_rssi_valid = False,
     i_sta_rssi_dbm = 0\<rparr>"

text \<open>Frames arrived before second 6; the requests of second 6 and 10 report activity, that of second 12 does not.\<close>

definition demo_requests :: "request list" where
  "demo_requests = [(0, demo_inputs 0), (6000, demo_inputs 3)]"

theorem input_active_iff_change_seen_witness:
  "(\<exists>st snap. bridge_telemetry_build_snapshot (Some (after_requests demo_requests telemetry_boot))
      (Some (demo_inputs 3)) 10000 True = Some (st, snap) \<and> input_state snap = BRIDGE_TELEMETRY_NMEA_INPUT_ACTIVE) \<and>
   (\<exists>st snap. bridge_telemetry_build_snapshot (Some (after_requests demo_requests telemetry_boot))
      (Some (demo_inputs 3)) 12000 True = Some (st, snap) \<and> input_state snap = BRIDGE_TELEMETRY_NMEA_INPUT_IDLE)"
proof -
  have ts: "change_times 0 (demo_requests @ [(t, demo_inputs 3)]) = [6000]" for t
    by (simp add: demo_requests_def demo_inputs_def)
  have ok: "times_ok (demo_requests @ [(t, demo_inputs 3)])" if "6000 \<le> t" for t
    using that by (auto simp: times_ok_def demo_requests_def)
  have b: "\<exists>st snap. bridge_telemetry_build_snapshot (Some (after_requests demo_requests telemetry_boot))
      (Some (demo_inputs 3)) t True = Some (st, snap)" for t
    by (simp add: bridge_telemetry_build_snapshot_def Let_def)
  obtain st snap st' snap' where *: "bridge_telemetry_build_snapshot (Some (after_requests demo_requests telemetry_boot))
      (Some (demo_inputs 3)) 10000 True = Some (st, snap)"
    "bridge_telemetry_build_snapshot (Some (after_requests demo_requests telemetry_boot))
      (Some (demo_inputs 3)) 12000 True = Some (st', snap')" using b by blast
  have "input_state snap = BRIDGE_TELEMETRY_NMEA_INPUT_ACTIVE"
    using input_active_iff_change_seen[OF ok *(1)] by (simp add: ts)
  moreover have "input_state snap' \<noteq> BRIDGE_TELEMETRY_NMEA_INPUT_ACTIVE"
    using input_active_iff_change_seen[OF ok *(2)] by (simp add: ts)
  then have "input_state snap' = BRIDGE_TELEMETRY_NMEA_INPUT_IDLE" by (cases "input_state snap'") simp_all
  ultimately show ?thesis using * by blast
qed

end
