(* ===== verification/Web_App.thy ===== *)
theory Web_App
  imports Web_Ota Web_Config Bridge_Telemetry
begin

text \<open>
  The request handler and the server thread of the web application, \<open>src/src/web_app.c\<close>.

  \<open>web_state\<close> is what a request can change: the configuration, the OTA module, the telemetry state and the delayed
  reboot of \<open>web_reboot_work\<close>. \<open>web_parts\<close> holds what is fixed: the build options, the settings store, the flash,
  the embedded files and the JSON parser; \<open>web_sources\<close> what the telemetry reads at the moment of the request.
  The socket of the connection is the world \<open>w\<close> of the theories before.
\<close>

section \<open>Translation\<close>

definition WEB_APP_JSON_BUF_SIZE :: nat where "WEB_APP_JSON_BUF_SIZE = 1536"

record web_sources =
  src_uart :: uart_nmea_stats
  src_bridge :: nmea_bridge_stats
  src_server :: tcp_nmea_server_stats
  src_session :: tcp_nmea_session_stats
  src_wifi :: wifi_report
  src_now :: int

record ('s, 'f) web_parts =
  wp_build :: web_build
  wp_store :: "'s settings_ops"
  wp_name_max :: nat
  wp_flash :: "'f flash_ops"
  wp_files :: asset_files
  wp_json :: "byte list \<Rightarrow> int \<times> config_payload"

record ('s, 'f) web_state =
  ws_config :: "'s config"
  ws_ota :: "'f ota"
  ws_telemetry :: bridge_telemetry_state
  ws_reboot :: bool

definition web_ota_state_name :: "web_build \<Rightarrow> ota_update_state \<Rightarrow> string" where
  "web_ota_state_name bld st = (if wb_ota bld then ota_update_state_name st else ''disabled'')"

text \<open>The \<open>memset\<close> leaves an all-zero status.\<close>

definition get_ota_status_for_json :: "web_build \<Rightarrow> 'f flash_ops \<Rightarrow> 'f ota \<Rightarrow> ota_update_status \<times> 'f ota" where
  "get_ota_status_for_json bld fo o1 =
     (if wb_ota bld then ota_update_get_status True fo o1
      else (\<lparr>ota_enabled = False, ota_state = OTA_UPDATE_STATE_DISABLED, expected_bytes = 0, uploaded_bytes = 0,
              max_upload_bytes = 0, ota_slot = 0, ota_confirmed = True,
              last_error = replicate OTA_UPDATE_LAST_ERROR_LEN 0\<rparr>, o1))"

definition u32_text :: "u32 \<Rightarrow> byte list" where
  "u32_text n = nat_text (unat n)"

definition sta_ipv4_json :: "byte list \<Rightarrow> byte list option" where
  "sta_ipv4_json a =
     do {
       c \<leftarrow> rd a 0;
       if c \<noteq> 0
       then do { s \<leftarrow> str_arg a;
                 Some (fst (snprintk (BRIDGE_TELEMETRY_IPV4_ADDR_STR_LEN + 2) (bytes_of ''\"'' @ s @ bytes_of ''\"''))) }
       else Some (fst (snprintk (BRIDGE_TELEMETRY_IPV4_ADDR_STR_LEN + 2) (bytes_of ''null'')))
     }"

definition sta_rssi_json :: "bool \<Rightarrow> int \<Rightarrow> byte list" where
  "sta_rssi_json valid dbm = fst (snprintk 12 (if valid then int_text dbm else bytes_of ''null''))"

definition counters_json :: "bridge_telemetry_counters \<Rightarrow> byte list" where
  "counters_json k =
     bytes_of ''\"uart\":{\"bytes_rx\":'' @ u32_text (c_uart_bytes_rx k) @
     bytes_of '',\"frames_rx\":'' @ u32_text (c_uart_frames_rx k) @
     bytes_of '',\"overlong_frames\":'' @ u32_text (c_uart_overlong_frames k) @
     bytes_of '',\"ais_self_mmsi_filtered\":'' @ u32_text (c_uart_ais_self_mmsi_filtered k) @
     bytes_of ''},\"bridge\":{\"frames_in\":'' @ u32_text (c_bridge_frames_in k) @
     bytes_of '',\"ingest_dropped_oldest\":'' @ u32_text (c_bridge_ingest_dropped_oldest k) @
     bytes_of '',\"sink_dropped_oldest\":'' @ u32_text (c_bridge_sink_dropped_oldest k) @
     bytes_of '',\"publish_no_sinks\":'' @ u32_text (c_bridge_publish_no_sinks k) @
     bytes_of '',\"publish_invalid\":'' @ u32_text (c_bridge_publish_invalid k) @
     bytes_of '',\"publish_oversize\":'' @ u32_text (c_bridge_publish_oversize k) @
     bytes_of ''},\"tcp\":{\"active_sessions\":'' @ u32_text (c_tcp_nmea_active_sessions k) @
     bytes_of ''},\"tcp_server\":{\"active_peers\":'' @ u32_text (c_tcp_server_active_peers k) @
     bytes_of '',\"max_peers\":'' @ u32_text (c_tcp_server_max_peers k) @ bytes_of ''}''"

definition ota_json :: "web_build \<Rightarrow> ota_update_status \<Rightarrow> byte list \<Rightarrow> byte list" where
  "ota_json bld st escaped_last_error =
     bytes_of ''\"ota\":{\"enabled\":'' @ bool_text (ota_enabled st) @
     bytes_of '',\"state\":\"'' @ bytes_of (web_ota_state_name bld (ota_state st)) @
     bytes_of ''\",\"uploaded_bytes\":'' @ u32_text (uploaded_bytes st) @
     bytes_of '',\"expected_bytes\":'' @ u32_text (expected_bytes st) @
     bytes_of '',\"max_upload_bytes\":'' @ u32_text (max_upload_bytes st) @
     bytes_of '',\"upload_allowed\":'' @ bool_text (ota_upload_allowed bld) @
     bytes_of '',\"slot\":'' @ nat_text (unat (ota_slot st)) @
     bytes_of '',\"confirmed\":'' @ bool_text (ota_confirmed st) @
     bytes_of '',\"last_error\":\"'' @ escaped_last_error @ bytes_of ''\"}''"

text \<open>The formatted text of \<open>write_status_json\<close>.\<close>

definition status_json :: "web_build \<Rightarrow> bridge_telemetry_snapshot \<Rightarrow> ota_update_status \<Rightarrow> byte list option" where
  "status_json bld snapshot ota_status =
     do {
       last_error_json \<leftarrow> json_escape_string (Some (last_error ota_status)) (OTA_UPDATE_LAST_ERROR_LEN * 2);
       escaped_last_error \<leftarrow> str_arg last_error_json;
       ipv4 \<leftarrow> sta_ipv4_json (s_sta_ipv4 snapshot);
       ipv4 \<leftarrow> str_arg ipv4;
       rssi \<leftarrow> str_arg (sta_rssi_json (s_sta_rssi_valid snapshot) (s_sta_rssi_dbm snapshot));
       Some (
         bytes_of ''{\"firmware_version\":\"'' @ bytes_of (wb_version bld) @
         bytes_of ''\",\"connection_state\":\"'' @
         bytes_of (if connection_state snapshot = BRIDGE_TELEMETRY_NMEA_CONNECTED then ''connected'' else ''disconnected'') @
         bytes_of ''\",\"input_state\":\"'' @
         bytes_of (if input_state snapshot = BRIDGE_TELEMETRY_NMEA_INPUT_ACTIVE then ''active'' else ''idle'') @
         bytes_of ''\",\"warnings\":{\"data_quality\":'' @ bool_text (w_data_quality (warnings snapshot)) @
         bytes_of '',\"frame_loss\":'' @ bool_text (w_frame_loss (warnings snapshot)) @
         bytes_of ''},\"wifi\":{\"sta_ready\":'' @ bool_text (s_sta_ready snapshot) @
         bytes_of '',\"ip\":'' @ ipv4 @ bytes_of '',\"rssi\":'' @ rssi @ bytes_of ''},'' @
         counters_json (counters snapshot) @ bytes_of '','' @
         ota_json bld ota_status escaped_last_error @ bytes_of ''}'')
     }"

definition write_status_json ::
  "'w web_ops \<Rightarrow> ('s, 'f) web_parts \<Rightarrow> web_sources \<Rightarrow> ('s, 'f) web_state \<Rightarrow> 'w \<Rightarrow> (('s, 'f) web_state \<times> 'w) option"
where
  "write_status_json wo P src s w =
     (case bridge_telemetry_get_snapshot (src_uart src) (src_bridge src) (src_server src) (src_session src)
        (src_wifi src) (src_now src) (ws_telemetry s) of
       (tel, snapshot) \<Rightarrow>
         (case get_ota_status_for_json (wp_build P) (wp_flash P) (ws_ota s) of
           (ota_status, o1) \<Rightarrow>
             do {
               text \<leftarrow> status_json (wp_build P) snapshot ota_status;
               let s = s\<lparr>ws_telemetry := tel, ws_ota := o1\<rparr>;
               let (body, body_len) = snprintk WEB_APP_JSON_BUF_SIZE text;
               if body_len \<ge> WEB_APP_JSON_BUF_SIZE
               then do {
                 (ret, w) \<leftarrow> write_text_response wo ''500 Internal Server Error'' ''application/json''
                   (bytes_of ''{\"error\":\"status payload exceeds buffer\"}'' @ [10, 0]) w;
                 Some (s, w) }
               else do {
                 (ret, w) \<leftarrow> write_text_response wo ''200 OK'' ''application/json'' body w;
                 Some (if wb_ota (wp_build P) \<and> ret = 0
                       then s\<lparr>ws_ota := ota_update_self_check_web_reachable True (wp_flash P) (ws_ota s)\<rparr> else s, w) }
             }))"

definition handle_reboot ::
  "'w web_ops \<Rightarrow> ('s, 'f) web_state \<Rightarrow> 'w \<Rightarrow> (('s, 'f) web_state \<times> 'w) option"
where
  "handle_reboot wo s w =
     do {
       (ret, w) \<leftarrow> write_text_response wo ''200 OK'' ''application/json'' (bytes_of ''{\"ok\":true}'' @ [10, 0]) w;
       Some (s\<lparr>ws_reboot := True\<rparr>, w)
     }"

definition set_receive_timeout :: "'w web_ops \<Rightarrow> 'w \<Rightarrow> rc \<times> 'w" where
  "set_receive_timeout wo w =
     (case web_setsockopt wo w of (None, w) \<Rightarrow> (0, w) | (Some e, w) \<Rightarrow> (- e, w))"

definition plain_response :: "'w web_ops \<Rightarrow> string \<Rightarrow> string \<Rightarrow> ('s, 'f) web_state \<Rightarrow> 'w \<Rightarrow> (('s, 'f) web_state \<times> 'w) option" where
  "plain_response wo st body s w =
     do { (ret, w) \<leftarrow> write_text_response wo st ''text/plain; charset=utf-8'' (bytes_of body @ [10, 0]) w; Some (s, w) }"

text \<open>The routes of a GET and of a POST; \<open>None\<close> for a path that is not served.\<close>

datatype route =
    Route_status
  | Route_config
  | Route_asset web_asset
  | Route_ota_upload
  | Route_config_update
  | Route_config_reset
  | Route_reboot
  | Route_not_found
  | Route_not_allowed

definition find_route :: "asset_files \<Rightarrow> byte list \<Rightarrow> http_request \<Rightarrow> route option" where
  "find_route files buf parsed =
     do {
       is_get \<leftarrow> token_equals buf (rq_method parsed) (method_len parsed) ''GET'';
       if is_get then do {
         hit \<leftarrow> token_equals buf (rq_path parsed) (path_len parsed) ''/api/status'';
         if hit then Some Route_status
         else do {
           hit \<leftarrow> token_equals buf (rq_path parsed) (path_len parsed) ''/api/config'';
           if hit then Some Route_config
           else do {
             asset \<leftarrow> find_asset (web_assets files) buf (rq_path parsed) (path_len parsed);
             Some (case asset of Some a \<Rightarrow> Route_asset a | None \<Rightarrow> Route_not_found) } } }
       else do {
         is_post \<leftarrow> token_equals buf (rq_method parsed) (method_len parsed) ''POST'';
         if is_post then do {
           hit \<leftarrow> token_equals buf (rq_path parsed) (path_len parsed) ''/api/ota/upload'';
           if hit then Some Route_ota_upload
           else do {
             hit \<leftarrow> token_equals buf (rq_path parsed) (path_len parsed) ''/api/config'';
             if hit then Some Route_config_update
             else do {
               hit \<leftarrow> token_equals buf (rq_path parsed) (path_len parsed) ''/api/config/reset'';
               if hit then Some Route_config_reset
               else do {
                 hit \<leftarrow> token_equals buf (rq_path parsed) (path_len parsed) ''/api/reboot'';
                 Some (if hit then Route_reboot else Route_not_found) } } } }
         else Some Route_not_allowed }
     }"

text \<open>What \<open>handle_client\<close> does on a route.\<close>

fun serve ::
  "'w web_ops \<Rightarrow> ('s, 'f) web_parts \<Rightarrow> web_sources \<Rightarrow> byte list \<Rightarrow> http_request \<Rightarrow> route \<Rightarrow> ('s, 'f) web_state \<Rightarrow> 'w
    \<Rightarrow> (('s, 'f) web_state \<times> 'w) option"
where
  "serve wo P src buf parsed Route_status s w = write_status_json wo P src s w"
| "serve wo P src buf parsed Route_config s w =
     do { (ret, w) \<leftarrow> write_config_json wo ''200 OK'' (ws_config s) w; Some (s, w) }"
| "serve wo P src buf parsed (Route_asset a) s w = do { w \<leftarrow> write_asset_response wo a w; Some (s, w) }"
| "serve wo P src buf parsed Route_ota_upload s w =
     do { (o1, w) \<leftarrow> handle_ota_upload wo (wp_build P) (wp_flash P) buf parsed (ws_ota s) w; Some (s\<lparr>ws_ota := o1\<rparr>, w) }"
| "serve wo P src buf parsed Route_config_update s w =
     do { (c, w) \<leftarrow> handle_config_update wo (wp_store P) (wp_json P) buf WEB_APP_RX_BUF_SIZE parsed (ws_config s) w;
          Some (s\<lparr>ws_config := c\<rparr>, w) }"
| "serve wo P src buf parsed Route_config_reset s w =
     do { (c, w) \<leftarrow> handle_config_reset wo (wp_store P) (wp_name_max P) (ws_config s) w; Some (s\<lparr>ws_config := c\<rparr>, w) }"
| "serve wo P src buf parsed Route_reboot s w = handle_reboot wo s w"
| "serve wo P src buf parsed Route_not_found s w = plain_response wo ''404 Not Found'' ''not found'' s w"
| "serve wo P src buf parsed Route_not_allowed s w =
     plain_response wo ''405 Method Not Allowed'' ''method not allowed'' s w"

text \<open>\<open>buf\<close> is the uninitialised array of the request.\<close>

definition handle_client ::
  "'w web_ops \<Rightarrow> ('s, 'f) web_parts \<Rightarrow> web_sources \<Rightarrow> byte list \<Rightarrow> ('s, 'f) web_state \<Rightarrow> 'w
    \<Rightarrow> (('s, 'f) web_state \<times> 'w) option"
where
  "handle_client wo P src buf s w =
     (case set_receive_timeout wo w of (ret, w) \<Rightarrow>
        if ret \<noteq> 0 then plain_response wo ''500 Internal Server Error'' ''configuring receive timeout failed'' s w
        else
          do {
            ((ret, parsed, buf), w) \<leftarrow> read_http_request (web_sock wo) buf WEB_APP_RX_BUF_SIZE 0 w;
            if ret \<noteq> 0 then plain_response wo ''400 Bad Request'' ''bad request'' s w
            else do {
              parsed \<leftarrow> parsed;
              r \<leftarrow> find_route (wp_files P) buf parsed;
              serve wo P src buf parsed r s w
            }
          })"

section \<open>Routing\<close>

text \<open>The route of a method and a path, as the API is documented.\<close>

definition route_of :: "asset_files \<Rightarrow> byte list \<Rightarrow> byte list \<Rightarrow> route" where
  "route_of files meth path =
     (if meth = bytes_of ''GET'' then
        (if path = bytes_of ''/api/status'' then Route_status
         else if path = bytes_of ''/api/config'' then Route_config
         else case find (\<lambda>a. bytes_of (asset_path a) = path) (web_assets files) of
           Some a \<Rightarrow> Route_asset a | None \<Rightarrow> Route_not_found)
      else if meth = bytes_of ''POST'' then
        (if path = bytes_of ''/api/ota/upload'' then Route_ota_upload
         else if path = bytes_of ''/api/config'' then Route_config_update
         else if path = bytes_of ''/api/config/reset'' then Route_config_reset
         else if path = bytes_of ''/api/reboot'' then Route_reboot
         else Route_not_found)
      else Route_not_allowed)"

lemma token_equals_eq:
  assumes "take n (drop i buf) = t" and "length t = n" and "0 \<notin> set t" and "0 \<notin> set (bytes_of e)"
  shows "token_equals buf i n e = Some (t = bytes_of e)"
proof (cases "length e = n")
  case True
  have "n = 0 \<or> i + n \<le> length buf" using assms(1,2) by auto
  then have "strncmp_eq buf i (bytes_of e @ [0]) 0 n = Some (t = bytes_of e)"
    using assms True strncmp_eq_exact[of i n buf 0 "bytes_of e @ [0]"] by (auto simp: bytes_of_def)
  then show ?thesis using True by (simp add: token_equals_def)
next
  case False
  then have "t \<noteq> bytes_of e" using assms(2) by (auto simp: bytes_of_def)
  then show ?thesis using False by (simp add: token_equals_def)
qed

lemma find_asset_eq:
  assumes "take n (drop i buf) = t" and "length t = n" and "0 \<notin> set t" and "list_all (\<lambda>a. 0 \<notin> set (bytes_of (asset_path a))) as"
  shows "find_asset as buf i n = Some (find (\<lambda>a. bytes_of (asset_path a) = t) as)"
  using assms(4)
proof (induction as)
  case (Cons a as)
  have "token_equals buf i n (asset_path a) = Some (t = bytes_of (asset_path a))"
    using assms Cons.prems by (intro token_equals_eq) auto
  then have "(if length (asset_path a) = n then strncmp_eq buf i (c_literal (asset_path a)) 0 n else Some False) =
      Some (bytes_of (asset_path a) = t)"
    by (auto simp: token_equals_def c_literal_def split: if_splits)
  then show ?case using Cons by (simp cong: if_cong)
qed simp

lemma find_route_eq:
  assumes "request_found hl meth path len body p buf inc" and "0 \<notin> set meth" and "0 \<notin> set path"
  shows "find_route files buf p = Some (route_of files meth path)"
proof -
  have p: "rq_method p = 0" "method_len p = length meth" "rq_path p = length meth + 1" "path_len p = length path"
    "take (length meth) (drop 0 buf) = meth" "take (length path) (drop (length meth + 1) buf) = path"
    using assms(1) by (auto simp: request_found_def parsed_as_def)
  have t: "token_equals buf (rq_method p) (method_len p) e = Some (meth = bytes_of e)" if "0 \<notin> set (bytes_of e)" for e
    using token_equals_eq[OF p(5) refl assms(2) that] p by simp
  have u: "token_equals buf (rq_path p) (path_len p) e = Some (path = bytes_of e)" if "0 \<notin> set (bytes_of e)" for e
    using token_equals_eq[OF p(6) refl assms(3) that] p by simp
  have a: "find_asset (web_assets files) buf (rq_path p) (path_len p) =
      Some (find (\<lambda>a. bytes_of (asset_path a) = path) (web_assets files))"
    using find_asset_eq[OF p(6) refl assms(3), of "web_assets files"] p by (simp add: web_assets_def bytes_of_def)
  have nul: "0 \<notin> set (bytes_of ''GET'')" "0 \<notin> set (bytes_of ''POST'')" "0 \<notin> set (bytes_of ''/api/status'')"
    "0 \<notin> set (bytes_of ''/api/config'')" "0 \<notin> set (bytes_of ''/api/ota/upload'')" "0 \<notin> set (bytes_of ''/api/config/reset'')"
    "0 \<notin> set (bytes_of ''/api/reboot'')" by (simp_all add: bytes_of_def)
  show ?thesis
    unfolding find_route_def t[OF nul(1)] t[OF nul(2)] u[OF nul(3)] u[OF nul(4)] u[OF nul(5)] u[OF nul(6)] u[OF nul(7)] a
    by (simp add: route_of_def)
qed

section \<open>The status\<close>

text \<open>The last error of the OTA module is a string in its array, whatever the module does.\<close>

definition ota_text_ok :: "'f ota \<Rightarrow> bool" where
  "ota_text_ok o1 \<longleftrightarrow> length (last_error (status o1)) = OTA_UPDATE_LAST_ERROR_LEN \<and> terminated (last_error (status o1))"

lemma set_error_text: "ota_text_ok o1 \<Longrightarrow> ota_text_ok (set_error_locked r e o1)"
  by (auto simp: ota_text_ok_def set_error_locked_def Let_def snprintk_def terminated_def OTA_UPDATE_LAST_ERROR_LEN_def)

lemma cleared_text: "ota_text_ok o1 \<Longrightarrow> length ((last_error (status o1))[0 := 0]) = OTA_UPDATE_LAST_ERROR_LEN \<and>
    terminated ((last_error (status o1))[0 := 0])"
  by (cases "last_error (status o1)") (auto simp: ota_text_ok_def terminated_def OTA_UPDATE_LAST_ERROR_LEN_def)

lemma update_text:
  "ota_text_ok (o1\<lparr>flash := f\<rparr>) = ota_text_ok o1"
  "ota_text_ok (o1\<lparr>reboot_scheduled := b\<rparr>) = ota_text_ok o1"
  "(\<And>st. last_error (g st) = last_error st) \<Longrightarrow> ota_text_ok (o1\<lparr>status := g (status o1)\<rparr>) = ota_text_ok o1"
  by (simp_all add: ota_text_ok_def)

lemma init_text: "ota_text_ok o1 \<Longrightarrow> ota_text_ok (init_once en fo o1)"
  by (auto simp: init_once_def ota_text_ok_def)

lemma begin_text: "ota_text_ok o1 \<Longrightarrow> ota_update_begin en limit fo n o1 = (r, o2) \<Longrightarrow> ota_text_ok o2"
  using cleared_text[of "init_once en fo o1"] init_text[of o1 en fo]
  by (auto simp: ota_update_begin_def Let_def update_text split: prod.splits if_splits
      intro!: set_error_text) (simp_all add: ota_text_ok_def)

lemma write_text: "ota_text_ok o1 \<Longrightarrow> ota_update_write en fo d n o1 = (r, o2) \<Longrightarrow> ota_text_ok o2"
  using init_text[of o1 en fo]
  by (auto simp: ota_update_write_def Let_def update_text split: prod.splits if_splits intro!: set_error_text)
    (simp_all add: ota_text_ok_def)

lemma finish_text: "ota_text_ok o1 \<Longrightarrow> ota_update_finish en fo o1 = (r, o2) \<Longrightarrow> ota_text_ok o2"
  using cleared_text[of "init_once en fo o1"] init_text[of o1 en fo]
  by (auto simp: ota_update_finish_def Let_def update_text split: prod.splits if_splits intro!: set_error_text)
    (simp_all add: ota_text_ok_def)

lemma abort_text: "ota_text_ok o1 \<Longrightarrow> ota_text_ok (ota_update_abort en fo r o1)"
  using init_text[of o1 en fo] by (auto simp: ota_update_abort_def Let_def intro!: set_error_text)

lemma schedule_text: "ota_text_ok o1 \<Longrightarrow> ota_text_ok (ota_update_schedule_reboot en fo o1)"
  using init_text[of o1 en fo] by (auto simp: ota_update_schedule_reboot_def Let_def update_text)

lemma self_check_text: "ota_text_ok o1 \<Longrightarrow> ota_text_ok (ota_update_self_check_web_reachable en fo o1)"
  using cleared_text[of "init_once en fo o1"] init_text[of o1 en fo]
  by (auto simp: ota_update_self_check_web_reachable_def Let_def update_text split: prod.splits if_splits intro!: set_error_text)
    (simp_all add: ota_text_ok_def)

lemma chunk_text: "ota_text_ok o1 \<Longrightarrow> write_ota_body_chunk en fo d u o1 = (r, u', o2) \<Longrightarrow> ota_text_ok o2"
  by (auto simp: write_ota_body_chunk_def split: if_splits prod.splits dest: write_text)

lemma receive_text:
  assumes "ota_receive wo fo n ret u o1 w = Some r" and "ota_text_ok o1"
  shows "ota_text_ok (fst (snd r))"
proof -
  have "ota_text_ok o1 \<longrightarrow> ota_text_ok (fst (snd r))"
  proof (rule ota_receive.raw_induct[where P = "\<lambda>wo fo n ret u o1 w r. ota_text_ok o1 \<longrightarrow> ota_text_ok (fst (snd r))", OF _ assms(1)],
      intro impI)
    fix f wo fo n ret u and o1 :: "'c ota" and w r
    assume IH: "\<And>wo fo n ret u o1 w r. f wo fo n ret u o1 w = Some r \<Longrightarrow> ota_text_ok o1 \<longrightarrow> ota_text_ok (fst (snd r))"
      and body: "(if ret = 0 \<and> u < n then
        (case zsock_recv (web_sock wo) (min WEB_APP_RX_BUF_SIZE (n - u)) w of
           (Inl e, w) \<Rightarrow> if e = EINTR then f wo fo n ret u o1 w else Some (None, o1, w)
         | (Inr received, w) \<Rightarrow>
             if received = [] then Some (None, o1, w)
             else (case write_ota_body_chunk True fo received u o1 of
                  (ret, u, o1) \<Rightarrow> f wo fo n ret u o1 w))
        else Some (Some ret, o1, w)) = Some r" and ok: "ota_text_ok o1"
    show "ota_text_ok (fst (snd r))"
      using body ok by (auto split: if_splits prod.splits sum.splits dest: IH chunk_text)
  qed
  then show ?thesis using assms(2) by simp
qed

lemma upload_text:
  assumes "ota_text_ok o1" and "handle_ota_upload wo bld fo buf p o1 w = Some (o2, w')"
  shows "ota_text_ok o2"
  using assms(2) assms(1)
  by (auto simp: handle_ota_upload_def Let_def split: if_splits prod.splits bind_splits option.splits
      dest!: receive_text intro!: abort_text schedule_text dest: begin_text chunk_text finish_text)

text \<open>The status fits its 1536 bytes.\<close>

lemma u32_text_fits: "length (u32_text n) \<le> 10 \<and> 0 \<notin> set (u32_text n)"
  using nat_text_unat(1)[of n] by (simp add: u32_text_def nul_nat_text)

lemma counters_json_fits: "length (counters_json k) \<le> 460 \<and> 0 \<notin> set (counters_json k)"
proof
  show "length (counters_json k) \<le> 460"
    using u32_text_fits[of "c_uart_bytes_rx k"] u32_text_fits[of "c_uart_frames_rx k"] u32_text_fits[of "c_uart_overlong_frames k"]
      u32_text_fits[of "c_uart_ais_self_mmsi_filtered k"] u32_text_fits[of "c_bridge_frames_in k"]
      u32_text_fits[of "c_bridge_ingest_dropped_oldest k"] u32_text_fits[of "c_bridge_sink_dropped_oldest k"]
      u32_text_fits[of "c_bridge_publish_no_sinks k"] u32_text_fits[of "c_bridge_publish_invalid k"]
      u32_text_fits[of "c_bridge_publish_oversize k"] u32_text_fits[of "c_tcp_nmea_active_sessions k"]
      u32_text_fits[of "c_tcp_server_active_peers k"] u32_text_fits[of "c_tcp_server_max_peers k"]
    by (simp add: counters_json_def)
  show "0 \<notin> set (counters_json k)"
    using u32_text_fits by (simp add: counters_json_def) (simp add: bytes_of_def)
qed

lemma state_name_fits: "length (web_ota_state_name bld st) \<le> 14 \<and> 0 \<notin> set (bytes_of (web_ota_state_name bld st))"
  by (cases st) (simp_all add: web_ota_state_name_def bytes_of_def)

lemma byte_text_fits: "length (nat_text (unat (b :: byte))) \<le> 3"
  using unat_byte_less[of b] length_nat_text[of "unat b" 3] by simp

lemma ota_json_fits:
  assumes "length e \<le> 190" and "0 \<notin> set e"
  shows "length (ota_json bld st e) \<le> 420 \<and> 0 \<notin> set (ota_json bld st e)"
proof
  show "length (ota_json bld st e) \<le> 420"
    using u32_text_fits[of "uploaded_bytes st"] u32_text_fits[of "expected_bytes st"] u32_text_fits[of "max_upload_bytes st"]
      bool_text_fits[of "ota_enabled st"] bool_text_fits[of "ota_confirmed st"] bool_text_fits[of "ota_upload_allowed bld"]
      state_name_fits[of bld "ota_state st"] byte_text_fits[of "ota_slot st"] assms(1)
    by (simp add: ota_json_def)
  show "0 \<notin> set (ota_json bld st e)"
    using u32_text_fits bool_text_fits state_name_fits[of bld "ota_state st"] nul_nat_text assms(2)
    by (simp add: ota_json_def) (simp add: bytes_of_def bool_text_def)
qed

lemma formatted_array: "terminated (s @ [0])" "length (cstr (s @ [0])) \<le> length s"
  using length_cstr_less[of "s @ [0]"] by simp_all

lemma ipv4_json_fits:
  assumes "length a = BRIDGE_TELEMETRY_IPV4_ADDR_STR_LEN" and "terminated a"
  shows "\<exists>t. sta_ipv4_json a = Some t \<and> terminated t \<and> length (cstr t) \<le> 17"
proof -
  obtain c where c: "rd a 0 = Some c" using terminated_rd[OF assms(2)] by blast
  have "length (cstr a) \<le> 15"
    using length_cstr_less[OF assms(2)] assms(1) by (simp add: BRIDGE_TELEMETRY_IPV4_ADDR_STR_LEN_def)
  then have "length (bytes_of [CHR 0x22] @ cstr a @ bytes_of [CHR 0x22]) < 18" "length (bytes_of ''null'') < 18" by simp_all
  then show ?thesis
    using c assms(2) formatted_array(1)[of "bytes_of [CHR 0x22] @ cstr a @ bytes_of [CHR 0x22]"] formatted_array(1)[of "bytes_of ''null''"]
      formatted_array(2)[of "bytes_of [CHR 0x22] @ cstr a @ bytes_of [CHR 0x22]"] formatted_array(2)[of "bytes_of ''null''"]
    by (auto simp: sta_ipv4_json_def str_arg_def snprintk_text BRIDGE_TELEMETRY_IPV4_ADDR_STR_LEN_def)
qed

lemma rssi_json_fits: "terminated (sta_rssi_json v d) \<and> length (cstr (sta_rssi_json v d)) \<le> 11"
proof -
  have "length (cstr (sta_rssi_json v d)) < length (sta_rssi_json v d)"
    by (rule length_cstr_less) (simp add: sta_rssi_json_def snprintk_def terminated_def)
  then show ?thesis by (simp add: sta_rssi_json_def snprintk_def terminated_def)
qed

definition status_text_ok :: "ota_update_status \<Rightarrow> bool" where
  "status_text_ok st \<longleftrightarrow> length (last_error st) = OTA_UPDATE_LAST_ERROR_LEN \<and> terminated (last_error st)"

lemma status_json_fits:
  assumes v: "length (wb_version bld) \<le> 64" "0 \<notin> set (bytes_of (wb_version bld))"
    and a: "length (s_sta_ipv4 snap) = BRIDGE_TELEMETRY_IPV4_ADDR_STR_LEN" "terminated (s_sta_ipv4 snap)"
    and o1: "status_text_ok st"
  shows "\<exists>t. status_json bld snap st = Some t \<and> length t < WEB_APP_JSON_BUF_SIZE \<and> 0 \<notin> set t"
proof -
  obtain ip where ip: "sta_ipv4_json (s_sta_ipv4 snap) = Some ip" "terminated ip" "length (cstr ip) \<le> 17"
    using ipv4_json_fits[OF a] by blast
  define e where "e = json_escape (cstr (last_error st))"
  have le: "length (cstr (last_error st)) \<le> 95"
    using length_cstr_less[of "last_error st"] o1 by (simp add: status_text_ok_def OTA_UPDATE_LAST_ERROR_LEN_def)
  then have e: "json_escape_string (Some (last_error st)) (OTA_UPDATE_LAST_ERROR_LEN * 2) = Some (e @ [0])" "length e \<le> 190"
      "0 \<notin> set e"
    using o1 length_json_escape[of "cstr (last_error st)"] json_escape_no_nul
    by (simp_all add: e_def json_escape_string_eq status_text_ok_def OTA_UPDATE_LAST_ERROR_LEN_def)
  note r = rssi_json_fits[of "s_sta_rssi_valid snap" "s_sta_rssi_dbm snap"]
  have st: "str_arg (e @ [0]) = Some e" "str_arg ip = Some (cstr ip)"
    "str_arg (sta_rssi_json (s_sta_rssi_valid snap) (s_sta_rssi_dbm snap)) = Some (cstr (sta_rssi_json (s_sta_rssi_valid snap) (s_sta_rssi_dbm snap)))"
    using e ip r by (simp_all add: str_arg_def)
  define t where "t = the (status_json bld snap st)"
  have t: "status_json bld snap st = Some t"
    unfolding t_def by (simp add: status_json_def e ip st)
  have l: "length (counters_json (counters snap)) \<le> 460" "length (ota_json bld st e) \<le> 420"
      "length (cstr (sta_rssi_json (s_sta_rssi_valid snap) (s_sta_rssi_dbm snap))) \<le> 11"
      "length (bool_text (w_data_quality (warnings snap))) \<le> 5" "length (bool_text (w_frame_loss (warnings snap))) \<le> 5"
      "length (bool_text (s_sta_ready snap)) \<le> 5"
    using counters_json_fits ota_json_fits[OF e(2,3)] r bool_text_fits by blast+
  have "length t < WEB_APP_JSON_BUF_SIZE"
    unfolding t_def WEB_APP_JSON_BUF_SIZE_def
    by (simp add: status_json_def e ip st; intro conjI impI) (use l v(1) ip(3) in linarith)+
  moreover have "0 \<notin> set t"
    using counters_json_fits ota_json_fits[OF e(2,3)] v(2) cstr_no_nul bool_text_fits
    by (simp add: t_def status_json_def e ip st) (simp add: bytes_of_def bool_text_def)
  ultimately show ?thesis using t by blast
qed

section \<open>Every request is answered\<close>

text \<open>The answer to a request and what it changes: the contract of the API. \<open>room\<close> is the buffer beyond the header.\<close>

definition plain_answer :: "string \<Rightarrow> string \<Rightarrow> byte list" where
  "plain_answer st body = response st ''text/plain; charset=utf-8'' (bytes_of body @ [10])"

definition status_answer ::
  "('s, 'f) web_parts \<Rightarrow> web_sources \<Rightarrow> ('s, 'f) web_state \<Rightarrow> ('s, 'f) web_state \<times> byte list"
where
  "status_answer P src s =
     (case bridge_telemetry_get_snapshot (src_uart src) (src_bridge src) (src_server src) (src_session src)
        (src_wifi src) (src_now src) (ws_telemetry s) of
       (tel, snapshot) \<Rightarrow>
         (case get_ota_status_for_json (wp_build P) (wp_flash P) (ws_ota s) of
           (st, o1) \<Rightarrow>
             (s\<lparr>ws_telemetry := tel,
                ws_ota := if wb_ota (wp_build P) then ota_update_self_check_web_reachable True (wp_flash P) o1 else o1\<rparr>,
              response ''200 OK'' ''application/json'' (the (status_json (wp_build P) snapshot st)))))"

definition update_answer ::
  "('s, 'f) web_parts \<Rightarrow> nat \<Rightarrow> u32 option \<Rightarrow> byte list \<Rightarrow> 's config \<Rightarrow> config_reply \<times> 's config"
where
  "update_answer P room len body c =
     (case update_request (wp_json P) room len body of
        Inl r \<Rightarrow> (r, c)
      | Inr (fs, p) \<Rightarrow> the (apply_update (wp_store P) fs p c))"

definition reset_answer :: "('s, 'f) web_parts \<Rightarrow> 's config \<Rightarrow> config_reply \<times> 's config" where
  "reset_answer P c =
     (case the (bridge_config_factory_reset (wp_store P) (wp_name_max P) c) of
        (ret, c) \<Rightarrow> (if ret \<noteq> 0 then Save_failed ''factory reset failed'' else Config_saved, c))"

definition answered ::
  "('w \<Rightarrow> byte list) \<Rightarrow> ('f \<Rightarrow> byte list) \<Rightarrow> ('f \<Rightarrow> bool) \<Rightarrow> ('f \<Rightarrow> bool) \<Rightarrow> ('s, 'f) web_parts \<Rightarrow> web_sources \<Rightarrow>
    nat \<Rightarrow> route \<Rightarrow> u32 option \<Rightarrow> byte list \<Rightarrow> ('s, 'f) web_state \<Rightarrow> 'w \<Rightarrow> ('s, 'f) web_state \<Rightarrow> 'w \<Rightarrow> bool"
where
  "answered wire img flushed upgrade P src room rt len body s w s' w' \<longleftrightarrow>
     (case rt of
        Route_status \<Rightarrow> s' = fst (status_answer P src s) \<and> wire w' = wire w @ snd (status_answer P src s)
      | Route_config \<Rightarrow> s' = s \<and>
          wire w' = wire w @ response ''200 OK'' ''application/json'' (the (config_json (ws_config s)))
      | Route_asset a \<Rightarrow> s' = s \<and> wire w' = wire w @ response ''200 OK'' (asset_type a) (asset_bytes a)
      | Route_ota_upload \<Rightarrow>
          (\<exists>o2. s' = s\<lparr>ws_ota := o2\<rparr> \<and>
             (upload_refused wire (ws_ota s) w o2 w' \<or> len \<noteq> None \<and> upload_complete wire img flushed upgrade body w o2 w'))
      | Route_config_update \<Rightarrow>
          (case update_answer P room len body (ws_config s) of
             (r, c) \<Rightarrow> s' = s\<lparr>ws_config := c\<rparr> \<and> wire w' = wire w @ reply_response r c)
      | Route_config_reset \<Rightarrow>
          (case reset_answer P (ws_config s) of
             (r, c) \<Rightarrow> s' = s\<lparr>ws_config := c\<rparr> \<and> wire w' = wire w @ reply_response r c)
      | Route_reboot \<Rightarrow> s' = s\<lparr>ws_reboot := True\<rparr> \<and>
          wire w' = wire w @ response ''200 OK'' ''application/json'' (bytes_of ''{\"ok\":true}'' @ [10])
      | Route_not_found \<Rightarrow> s' = s \<and> wire w' = wire w @ plain_answer ''404 Not Found'' ''not found''
      | Route_not_allowed \<Rightarrow> s' = s \<and> wire w' = wire w @ plain_answer ''405 Method Not Allowed'' ''method not allowed'')"

text \<open>What holds between requests.\<close>

definition web_inv ::
  "config_defaults \<Rightarrow> ('s \<Rightarrow> settings_name \<Rightarrow> byte list option) \<Rightarrow> ('s \<Rightarrow> bool) \<Rightarrow> ('s, 'f) web_state \<Rightarrow> bool"
where
  "web_inv d view sok s \<longleftrightarrow> config_inv d view sok (ws_config s) \<and> ota_text_ok (ws_ota s)"

definition parts_ok :: "('s, 'f) web_parts \<Rightarrow> bool" where
  "parts_ok P \<longleftrightarrow> length (wb_version (wp_build P)) \<le> 64 \<and> 0 \<notin> set (bytes_of (wb_version (wp_build P))) \<and>
     length (index_html (wp_files P)) < 10 ^ 10 \<and> length (app_js (wp_files P)) < 10 ^ 10 \<and>
     length (style_css (wp_files P)) < 10 ^ 10"

definition json_contract :: "('s, 'f) web_parts \<Rightarrow> bool" where
  "json_contract P \<longleftrightarrow> (\<forall>b. payload_ok (fst (wp_json P b)) (snd (wp_json P b)))"

definition sources_ok :: "web_sources \<Rightarrow> bool" where
  "sources_ok src \<longleftrightarrow> length (wr_ipv4_buffer (src_wifi src)) = BRIDGE_TELEMETRY_IPV4_ADDR_STR_LEN"

lemma snapshot_ipv4:
  assumes "length (wr_ipv4_buffer wifi) = BRIDGE_TELEMETRY_IPV4_ADDR_STR_LEN"
    and "bridge_telemetry_get_snapshot us bs ss sess wifi now tel = (tel', snap)"
  shows "length (s_sta_ipv4 snap) = BRIDGE_TELEMETRY_IPV4_ADDR_STR_LEN \<and> terminated (s_sta_ipv4 snap)"
proof -
  have "s_sta_ipv4 snap = (if wr_ipv4_valid wifi then wr_ipv4_buffer wifi else (wr_ipv4_buffer wifi)[0 := 0])[15 := 0]"
    using assms(2) by (auto simp: bridge_telemetry_get_snapshot_def bridge_telemetry_build_snapshot_def Let_def
      collect_inputs_def BRIDGE_TELEMETRY_IPV4_ADDR_STR_LEN_def)
  moreover have "0 \<in> set (l[15 := 0])" if "length l = 16" for l :: "byte list"
    using that by (simp add: set_update_memI)
  ultimately show ?thesis
    using assms(1) by (simp add: terminated_def BRIDGE_TELEMETRY_IPV4_ADDR_STR_LEN_def)
qed

lemma json_status_ok:
  assumes "get_ota_status_for_json bld fo o1 = (st, o2)" and "ota_text_ok o1"
  shows "status_text_ok st \<and> ota_text_ok o2"
  using assms init_text[of o1 True fo]
  by (auto simp: get_ota_status_for_json_def ota_update_get_status_def Let_def status_text_ok_def ota_text_ok_def
      terminated_def OTA_UPDATE_LAST_ERROR_LEN_def split: if_splits)

context web_client
begin

lemma status_served:
  assumes "parts_ok P" and "wp_flash P = fo" and "sources_ok src" and "ota_text_ok (ws_ota s)"
  shows "\<exists>w'. write_status_json wo P src s w = Some (fst (status_answer P src s), w') \<and>
    wire w' = wire w @ snd (status_answer P src s) \<and> ota_text_ok (ws_ota (fst (status_answer P src s)))"
proof -
  obtain tel snap where tel: "bridge_telemetry_get_snapshot (src_uart src) (src_bridge src) (src_server src) (src_session src)
        (src_wifi src) (src_now src) (ws_telemetry s) = (tel, snap)" by fastforce
  obtain st o1 where st: "get_ota_status_for_json (wp_build P) (wp_flash P) (ws_ota s) = (st, o1)" by fastforce
  note a = snapshot_ipv4[OF assms(3)[unfolded sources_ok_def] tel] and o1 = json_status_ok[OF st assms(4)]
  obtain t where t: "status_json (wp_build P) snap st = Some t" "length t < WEB_APP_JSON_BUF_SIZE" "0 \<notin> set t"
    using status_json_fits[of "wp_build P" snap st] a o1 assms(1) by (auto simp: parts_ok_def)
  have p: "snprintk WEB_APP_JSON_BUF_SIZE t = (t @ [0], length t)" using t(2) by (simp add: snprintk_def)
  obtain w' where "write_text_response wo ''200 OK'' ''application/json'' (t @ [0]) w = Some (0, w')"
    "wire w' = wire w @ response ''200 OK'' ''application/json'' t"
    using text_response_sent[of "''200 OK''" "''application/json''" "t @ [0]" w] t by (auto simp: WEB_APP_JSON_BUF_SIZE_def)
  then show ?thesis
    using t p o1 self_check_text[of o1 True "wp_flash P"]
    by (auto simp: write_status_json_def status_answer_def tel st Let_def)
qed

end

locale web_server = ota_client wo wire incoming interrupts stalls fo img flushed upgrade + settings_store ops view sok
  for wo :: "'w web_ops" and wire incoming :: "'w \<Rightarrow> byte list" and interrupts stalls :: "'w \<Rightarrow> nat"
    and fo :: "'f flash_ops" and img :: "'f \<Rightarrow> byte list" and flushed upgrade :: "'f \<Rightarrow> bool"
    and ops :: "'s settings_ops" and view :: "'s \<Rightarrow> settings_name \<Rightarrow> byte list option" and sok :: "'s \<Rightarrow> bool"
begin

lemma plain_sent:
  assumes "length st \<le> 40" and "length b < 100" and "0 \<notin> set (bytes_of b)"
  shows "\<exists>w'. plain_response wo st b s w = Some (s, w') \<and> wire w' = wire w @ plain_answer st b"
proof -
  have "length st + length ''text/plain; charset=utf-8'' \<le> 90" using assms(1) by simp
  from text_response_sent[OF this, of "(bytes_of b @ [10]) @ [0]" w] show ?thesis
    using assms(2,3) by (auto simp: plain_response_def plain_answer_def terminated_def cstr_append_nul[of "bytes_of b @ [10]" "[]", simplified])
qed

lemma update_served:
  assumes f: "request_found hl meth path len body p buf (incoming w)" and b: "\<forall>n. len = Some n \<longrightarrow> length body = unat n"
    and P: "wp_store P = ops" "json_contract P" and i: "config_inv d view sok c"
    and a: "update_answer P (WEB_APP_RX_BUF_SIZE - hl) len body c = (r, c')"
  shows "\<exists>w'. handle_config_update wo (wp_store P) (wp_json P) buf WEB_APP_RX_BUF_SIZE p c w = Some (c', w') \<and>
    wire w' = wire w @ reply_response r c' \<and> config_inv d view sok c'"
proof -
  let ?u = "update_request (wp_json P) (WEB_APP_RX_BUF_SIZE - hl) len body"
  obtain w1 where w1: "receive_update (web_sock wo) (wp_json P) buf WEB_APP_RX_BUF_SIZE p w = Some (?u, w1)" "wire w1 = wire w"
    using receive_update_eq[OF f b] by blast
  have r: "reply_fits r \<and> config_inv d view sok c' \<and> (case ?u of Inl r0 \<Rightarrow> r0 = r \<and> c' = c
      | Inr (fs, pl) \<Rightarrow> apply_update ops fs pl c = Some (r, c'))"
  proof (cases ?u)
    case (Inl r0)
    then show ?thesis using a i update_request_fits[OF Inl] by (simp add: update_answer_def)
  next
    case (Inr x)
    obtain fs pl where x: "x = (fs, pl)" by fastforce
    then have "wp_json P body = (fs, pl)"
      using Inr by (auto simp: update_request_def Let_def split: option.splits if_splits prod.splits)
    then have "payload_ok fs pl" using P(2)[unfolded json_contract_def, rule_format, of body] by simp
    from apply_update_total[OF i this] show ?thesis using a Inr x P(1) by (auto simp: update_answer_def)
  qed
  have ok: "config_ok c'" using r by (simp add: config_inv_def)
  obtain w' where "send_reply wo r c' w1 = Some w'" "wire w' = wire w1 @ reply_response r c'"
    using reply_sent[OF conjunct1[OF r] ok] by blast
  then show ?thesis
    using r w1 P(1) by (cases ?u) (auto simp: handle_config_update_def)
qed

lemma reset_served:
  assumes P: "wp_store P = ops" and i: "config_inv d view sok c" and a: "reset_answer P c = (r, c')"
  shows "\<exists>w'. handle_config_reset wo (wp_store P) (wp_name_max P) c w = Some (c', w') \<and>
    wire w' = wire w @ reply_response r c' \<and> config_inv d view sok c'"
proof -
  obtain ret where ret: "bridge_config_factory_reset ops (wp_name_max P) c = Some (ret, c')" "config_inv d view sok c'"
    "r = (if ret \<noteq> 0 then Save_failed ''factory reset failed'' else Config_saved)"
    using factory_reset_inv[OF i, of "wp_name_max P"] a P by (auto simp: reset_answer_def)
  have ok: "config_ok c'" using ret(2) by (simp add: config_inv_def)
  have "reply_fits r" using ret(3) by (simp add: reply_fits_def bytes_of_def)
  from reply_sent[OF this ok, of w] show ?thesis
    using ret P by (auto simp: handle_config_reset_def)
qed

end

lemma find_web_asset:
  assumes "find (\<lambda>a. bytes_of (asset_path a) = path) (web_assets files) = Some a" and "length (index_html files) < 10 ^ 10"
    "length (app_js files) < 10 ^ 10" "length (style_css files) < 10 ^ 10"
  shows "length (asset_type a) \<le> 60 \<and> length (asset_bytes a) < 10 ^ 10"
proof -
  have "a \<in> set (web_assets files)" using assms(1) by (auto simp: find_Some_iff)
  then show ?thesis using assms(2-) by (auto simp: web_assets_def)
qed

lemma length_value_error: "length_value v = Inl e \<Longrightarrow> e \<noteq> 0"
  by (auto simp: length_value_def Let_def errno_defs split: if_splits)

lemma announced_error: "announced hs m = Inl e \<Longrightarrow> e \<noteq> 0"
  by (induction hs m rule: announced.induct) (auto split: if_splits sum.splits dest: length_value_error)

context web_server
begin

lemma upload_served:
  assumes f: "request_found hl meth path len body p buf (incoming w)"
    and b: "\<forall>n. len = Some n \<longrightarrow> length body = unat n \<and> unat n < 2 ^ 31" and P: "wp_flash P = fo"
  shows "\<exists>o2 w'. handle_ota_upload wo bld (wp_flash P) buf p o1 w = Some (o2, w') \<and>
    (upload_refused wire o1 w o2 w' \<or> len \<noteq> None \<and> upload_complete wire img flushed upgrade body w o2 w')"
proof (cases len)
  case None
  let ?e = "\<lambda>st m. \<exists>w'. (do { (ret, w) \<leftarrow> write_ota_error_response wo st m w; Some (o1, w) }) = Some (o1, w') \<and>
    upload_refused wire o1 w o1 w'"
  have e: "?e ''403 Forbidden'' ''OTA uploads are disabled''" "?e ''411 Length Required'' ''Content-Length required''"
    by (rule refusal; simp add: bytes_of_def)+
  have "\<not> has_content_length p" using None f by (simp add: request_found_def)
  then show ?thesis using e by (cases "ota_upload_allowed bld") (auto simp: handle_ota_upload_def Let_def)
next
  case (Some n)
  have p: "content_length p = n" "body = take (body_len p) (drop (rq_body p) buf) @ incoming w"
    "rq_body p + body_len p \<le> length buf" using f Some by (auto simp: request_found_def)
  have n: "unat n = unat (content_length p)" "unat n < 2 ^ 31" "has_content_length p \<longrightarrow> unat n \<le> length body"
    using p(1) b Some by auto
  have "take (unat n) body = body" using b Some by simp
  with upload_result[OF n(1,2) p(2) n(3) p(3), of bld o1] show ?thesis using P Some by auto
qed

lemma route_served:
  assumes f: "request_found hl meth path len body p buf (incoming w)"
    and b: "\<forall>n. len = Some n \<longrightarrow> length body = unat n \<and> unat n < 2 ^ 31"
    and P: "parts_ok P" "json_contract P" "wp_flash P = fo" "wp_store P = ops" and src: "sources_ok src"
    and s: "web_inv d view sok s"
  shows "\<exists>s' w'. serve wo P src buf p (route_of (wp_files P) meth path) s w = Some (s', w') \<and>
    answered wire img flushed upgrade P src (WEB_APP_RX_BUF_SIZE - hl) (route_of (wp_files P) meth path) len body s w s' w' \<and>
    web_inv d view sok s'"
proof (cases "route_of (wp_files P) meth path")
  case Route_status
  then show ?thesis
    using status_served[OF P(1,3) src, of s w] s
    by (auto simp: answered_def web_inv_def status_answer_def split: prod.splits)
next
  case Route_config
  have "config_ok (ws_config s)" using s by (simp add: web_inv_def config_inv_def)
  then show ?thesis
    using config_json_sent[of "ws_config s" "''200 OK''" w] s Route_config by (auto simp: answered_def)
next
  case (Route_asset a)
  have "find (\<lambda>a. bytes_of (asset_path a) = path) (web_assets (wp_files P)) = Some a"
    using Route_asset by (auto simp: route_of_def split: if_splits option.splits)
  from find_web_asset[OF this] have "length (asset_type a) \<le> 60" "length (asset_bytes a) < 10 ^ 10"
    using P(1) by (simp_all add: parts_ok_def)
  from asset_sent[OF this, of w] show ?thesis using s Route_asset by (auto simp: answered_def)
next
  case Route_ota_upload
  obtain o2 w' where u: "handle_ota_upload wo (wp_build P) (wp_flash P) buf p (ws_ota s) w = Some (o2, w')"
    "upload_refused wire (ws_ota s) w o2 w' \<or> len \<noteq> None \<and> upload_complete wire img flushed upgrade body w o2 w'"
    using upload_served[OF f b P(3)] by blast
  have "ota_text_ok o2" using upload_text[OF _ u(1)] s by (simp add: web_inv_def)
  then show ?thesis using u s Route_ota_upload by (auto simp: answered_def web_inv_def)
next
  case Route_config_update
  obtain r c' where a: "update_answer P (WEB_APP_RX_BUF_SIZE - hl) len body (ws_config s) = (r, c')" by fastforce
  have i: "config_inv d view sok (ws_config s)" using s by (simp add: web_inv_def)
  have b1: "\<forall>n. len = Some n \<longrightarrow> length body = unat n" using b by blast
  from update_served[OF f b1 P(4,2) i a] show ?thesis
    using s a Route_config_update by (auto simp: answered_def web_inv_def)
next
  case Route_config_reset
  obtain r c' where a: "reset_answer P (ws_config s) = (r, c')" by fastforce
  have i: "config_inv d view sok (ws_config s)" using s by (simp add: web_inv_def)
  from reset_served[OF P(4) i a, of w] show ?thesis
    using s a Route_config_reset by (auto simp: answered_def web_inv_def)
next
  case Route_reboot
  define t where "t = bytes_of ''{\"ok\":true}'' @ [10]"
  have t: "0 \<notin> set t" "length t < 10 ^ 10" by (simp_all add: t_def bytes_of_def)
  obtain w' where "write_text_response wo ''200 OK'' ''application/json'' (t @ [0]) w = Some (0, w')"
    "wire w' = wire w @ response ''200 OK'' ''application/json'' t"
    using text_response_sent[of "''200 OK''" "''application/json''" "t @ [0]" w] t by auto
  then show ?thesis
    using s Route_reboot by (auto simp: answered_def web_inv_def handle_reboot_def t_def)
next
  case Route_not_found
  then show ?thesis
    using plain_sent[of "''404 Not Found''" "''not found''" s w] s by (auto simp: answered_def bytes_of_def)
next
  case Route_not_allowed
  then show ?thesis
    using plain_sent[of "''405 Method Not Allowed''" "''method not allowed''" s w] s by (auto simp: answered_def bytes_of_def)
qed

text \<open>A connection: the timeout cannot be set, or the request is malformed, or its route answers.\<close>

lemma client_handled:
  assumes r: "request_ok meth path version hs" and h: "h = head_text meth path version hs" "length h \<le> WEB_APP_RX_BUF_SIZE"
    and w: "length buf = WEB_APP_RX_BUF_SIZE" "incoming w = h @ body"
    and b: "\<forall>n. announced hs None = Inr (Some n) \<longrightarrow> length body = unat n \<and> unat n < 2 ^ 31"
    and P: "parts_ok P" "json_contract P" "wp_flash P = fo" "wp_store P = ops" and src: "sources_ok src"
    and s: "web_inv d view sok s"
  shows "\<exists>s' w'. handle_client wo P src buf s w = Some (s', w') \<and> web_inv d view sok s' \<and>
    (if fst (set_receive_timeout wo w) \<noteq> 0
     then s' = s \<and> wire w' = wire w @ plain_answer ''500 Internal Server Error'' ''configuring receive timeout failed''
     else case announced hs None of
       Inl e \<Rightarrow> s' = s \<and> wire w' = wire w @ plain_answer ''400 Bad Request'' ''bad request''
     | Inr len \<Rightarrow> \<exists>w0. wire w0 = wire w \<and> answered wire img flushed upgrade P src (WEB_APP_RX_BUF_SIZE - length h)
         (route_of (wp_files P) meth path) len body s w0 s' w')"
proof -
  obtain ret w1 where t: "set_receive_timeout wo w = (ret, w1)" by fastforce
  have w1: "wire w1 = wire w" "incoming w1 = incoming w"
    using t setsockopt_keeps by (auto simp: set_receive_timeout_def split: prod.splits option.splits)
  have nul: "0 \<notin> set meth" "0 \<notin> set path" using r by (auto simp: request_ok_def)
  show ?thesis
  proof (cases "ret = 0")
    case False
    have "\<exists>w'. plain_response wo ''500 Internal Server Error'' ''configuring receive timeout failed'' s w1 = Some (s, w') \<and>
      wire w' = wire w1 @ plain_answer ''500 Internal Server Error'' ''configuring receive timeout failed''"
      by (rule plain_sent) (simp_all add: bytes_of_def)
    then show ?thesis using t False w1 s by (auto simp: handle_client_def)
  next
    case True
    have "h \<noteq> []" by (simp add: h head_text_def crlf_def)
    then obtain rc p buf' w2 where rd: "read_http_request (web_sock wo) buf WEB_APP_RX_BUF_SIZE 0 w1 = Some ((rc, Some p, buf'), w2)"
      "wire w2 = wire w1"
      "case announced hs None of Inl e \<Rightarrow> rc = e | Inr k \<Rightarrow> rc = 0 \<and> request_found (length h) meth path k body p buf' (incoming w2)"
      using read_finds_request[OF r h, of "[]" buf w1 body] w w1(2) by auto
    show ?thesis
    proof (cases "announced hs None")
      case (Inl e)
      have e: "rc \<noteq> 0" using rd(3) Inl announced_error[OF Inl] by simp
      have "\<exists>w'. plain_response wo ''400 Bad Request'' ''bad request'' s w2 = Some (s, w') \<and>
        wire w' = wire w2 @ plain_answer ''400 Bad Request'' ''bad request''"
        by (rule plain_sent) (simp_all add: bytes_of_def)
      then show ?thesis using t True rd(1,2) w1 s e Inl by (auto simp: handle_client_def)
    next
      case (Inr len)
      have f: "rc = 0" "request_found (length h) meth path len body p buf' (incoming w2)" using rd(3) Inr by simp_all
      have "\<forall>n. len = Some n \<longrightarrow> length body = unat n \<and> unat n < 2 ^ 31" using b Inr by simp
      from route_served[OF f(2) this P src s] obtain s' w' where
        "serve wo P src buf' p (route_of (wp_files P) meth path) s w2 = Some (s', w')"
        "answered wire img flushed upgrade P src (WEB_APP_RX_BUF_SIZE - length h) (route_of (wp_files P) meth path) len body s w2 s' w'"
        "web_inv d view sok s'" by blast
      then show ?thesis
        using t True rd(1,2) w1 f(1) find_route_eq[OF f(2) nul, of "wp_files P"] Inr
        by (auto simp: handle_client_def)
    qed
  qed
qed

end

section \<open>The server thread\<close>

text \<open>The listening socket: \<open>None\<close> for success; an accept gives a connection.\<close>

record ('v, 'w) web_listen_ops =
  ls_socket :: "'v \<Rightarrow> int option \<times> 'v"
  ls_setsockopt :: "'v \<Rightarrow> int option \<times> 'v"
  ls_bind :: "'v \<Rightarrow> int option \<times> 'v"
  ls_listen :: "'v \<Rightarrow> int option \<times> 'v"
  ls_accept :: "'v \<Rightarrow> (int + 'w) \<times> 'v"
  ls_close_client :: "'w \<Rightarrow> 'v \<Rightarrow> 'v"
  ls_close :: "'v \<Rightarrow> 'v"
  ls_sleep :: "'v \<Rightarrow> 'v"

text \<open>The start of \<open>web_app_thread\<close>: whether it goes on to its loop.\<close>

definition web_app_listen :: "('v, 'w) web_listen_ops \<Rightarrow> 'v \<Rightarrow> bool \<times> 'v" where
  "web_app_listen lo v =
     (case ls_socket lo v of
        (Some e, v) \<Rightarrow> (False, v)
      | (None, v) \<Rightarrow>
          (case ls_setsockopt lo v of (_, v) \<Rightarrow>
             (case ls_bind lo v of
                (Some e, v) \<Rightarrow> (False, ls_close lo v)
              | (None, v) \<Rightarrow>
                  (case ls_listen lo v of
                     (Some e, v) \<Rightarrow> (False, ls_close lo v)
                   | (None, v) \<Rightarrow> (True, v)))))"

text \<open>One round of the loop of \<open>web_app_thread\<close>, with what the telemetry reads then and the array of the request.\<close>

definition web_app_round ::
  "('v, 'w) web_listen_ops \<Rightarrow> 'w web_ops \<Rightarrow> ('s, 'f) web_parts \<Rightarrow> web_sources \<times> byte list \<Rightarrow> ('s, 'f) web_state \<times> 'v
    \<Rightarrow> (('s, 'f) web_state \<times> 'v) option"
where
  "web_app_round lo wo P x sv =
     (case ls_accept lo (snd sv) of
        (Inl e, v) \<Rightarrow> Some (fst sv, ls_sleep lo v)
      | (Inr w, v) \<Rightarrow>
          do { (s, w) \<leftarrow> handle_client wo P (fst x) (snd x) (fst sv) w; Some (s, ls_close_client lo w v) })"

fun web_app_rounds ::
  "('v, 'w) web_listen_ops \<Rightarrow> 'w web_ops \<Rightarrow> ('s, 'f) web_parts \<Rightarrow> (web_sources \<times> byte list) list \<Rightarrow> ('s, 'f) web_state \<times> 'v
    \<Rightarrow> (('s, 'f) web_state \<times> 'v) option"
where
  "web_app_rounds lo wo P [] sv = Some sv"
| "web_app_rounds lo wo P (x # xs) sv = do { sv \<leftarrow> web_app_round lo wo P x sv; web_app_rounds lo wo P xs sv }"

text \<open>\<open>started\<close> and the number of threads created; \<open>en\<close> is \<open>CONFIG_ESP_NMEA_BRIDGE_WEB_APP_ENABLE\<close>.\<close>

definition web_app_start :: "bool \<Rightarrow> bool \<times> nat \<Rightarrow> rc \<times> bool \<times> nat" where
  "web_app_start en st =
     (if \<not> en then (0, st)
      else case st of (started, threads) \<Rightarrow> if \<not> started then (0, True, Suc threads) else (0, started, threads))"

text \<open>A connection on which a client sends what it announces.\<close>

definition request_sent :: "('w \<Rightarrow> byte list) \<Rightarrow> 'w \<Rightarrow> bool" where
  "request_sent incoming w \<longleftrightarrow>
     (\<exists>meth path version hs body. request_ok meth path version hs \<and>
        length (head_text meth path version hs) \<le> WEB_APP_RX_BUF_SIZE \<and>
        incoming w = head_text meth path version hs @ body \<and>
        (\<forall>n. announced hs None = Inr (Some n) \<longrightarrow> length body = unat n \<and> unat n < 2 ^ 31))"

context web_server
begin

lemma rounds_served:
  assumes P: "parts_ok P" "json_contract P" "wp_flash P = fo" "wp_store P = ops"
    and lo: "\<And>v w v'. ls_accept lo v = (Inr w, v') \<Longrightarrow> request_sent incoming w"
    and xs: "\<forall>x \<in> set xs. sources_ok (fst x) \<and> length (snd x) = WEB_APP_RX_BUF_SIZE" and s: "web_inv d view sok s"
  shows "\<exists>s' v'. web_app_rounds lo wo P xs (s, v) = Some (s', v') \<and> web_inv d view sok s'"
  using xs s
proof (induction xs arbitrary: s v)
  case (Cons x xs)
  obtain a v1 where a: "ls_accept lo v = (a, v1)" by fastforce
  show ?case
  proof (cases a)
    case (Inl e)
    then show ?thesis using Cons a by (simp add: web_app_round_def)
  next
    case (Inr w)
    obtain meth path version hs body where r: "request_ok meth path version hs"
      "length (head_text meth path version hs) \<le> WEB_APP_RX_BUF_SIZE" "incoming w = head_text meth path version hs @ body"
      "\<forall>n. announced hs None = Inr (Some n) \<longrightarrow> length body = unat n \<and> unat n < 2 ^ 31"
      using lo[OF a[unfolded Inr]] unfolding request_sent_def by blast
    have x: "length (snd x) = WEB_APP_RX_BUF_SIZE" "sources_ok (fst x)" using Cons.prems(1) by simp_all
    obtain s1 w1 where "handle_client wo P (fst x) (snd x) s w = Some (s1, w1)" "web_inv d view sok s1"
      using client_handled[OF r(1) refl r(2) x(1) r(3,4) P x(2) Cons.prems(2)] by blast
    then show ?thesis using Cons a Inr by (simp add: web_app_round_def)
  qed
qed simp

end

section \<open>Properties\<close>


interpretation server_demo: web_server client_web cl_wire client_incoming client_interrupts "\<lambda>w. 0"
    nor_ops nor_image nor_flushed nor_upgrade alist_ops map_of alist_ok
  by (rule web_server.intro[OF upload_demo.ota_client_axioms alist.settings_store_axioms])

definition demo_parts :: "(alist_store, nor_flash) web_parts" where
  "demo_parts = \<lparr>wp_build = demo_build, wp_store = alist_ops, wp_name_max = 64, wp_flash = nor_ops,
     wp_files = \<lparr>index_html = [60], app_js = [59], style_css = [32]\<rparr>, wp_json = (\<lambda>b. (0, demo_payload 1))\<rparr>"

definition demo_state :: "(alist_store, nor_flash) web_state" where
  "demo_state = \<lparr>ws_config = config_boot demo_defaults [], ws_ota = ota_boot nor_blank, ws_telemetry = telemetry_boot,
     ws_reboot = False\<rparr>"

definition demo_sources :: web_sources where
  "demo_sources = \<lparr>src_uart = \<lparr>bytes_rx = 0, frames_rx = 0, overlong_frames = 0, ais_self_mmsi_filtered = 0\<rparr>,
     src_bridge = \<lparr>frames_in = 0, ingest_dropped_oldest = 0, sink_dropped_oldest = 0, publish_no_sinks = 0,
       publish_invalid = 0, publish_oversize = 0\<rparr>,
     src_server = \<lparr>active_peers = 0, max_peers = 4\<rparr>, src_session = \<lparr>stats_active_sessions = 0\<rparr>,
     src_wifi = \<lparr>wr_sta_ready = False, wr_ipv4_valid = False, wr_ipv4_buffer = replicate 16 0, wr_rssi_valid = False,
       wr_rssi_dbm = 0\<rparr>, src_now = 0\<rparr>"

definition reboot_request :: "byte list" where
  "reboot_request = head_text (bytes_of ''POST'') (bytes_of ''/api/reboot'') (bytes_of ''HTTP/1.1'')
     [(bytes_of ''Host'', bytes_of '' x'')]"

definition reboot_client :: client where
  "reboot_client = \<lparr>cl_wire = [], cl_pieces = [take 7 reboot_request, [], drop 7 reboot_request]\<rparr>"

lemma reboot_request_ok:
  "request_ok (bytes_of ''POST'') (bytes_of ''/api/reboot'') (bytes_of ''HTTP/1.1'') [(bytes_of ''Host'', bytes_of '' x'')]"
  by code_simp

lemma reboot_announced: "announced [(bytes_of ''Host'', bytes_of '' x'')] None = Inr None"
  by (simp add: bytes_of_def ascii_lower_def)

lemma reboot_incoming: "client_incoming reboot_client = reboot_request @ []"
  using append_take_drop_id[of 7 reboot_request] by (simp add: client_incoming_def reboot_client_def)

lemma demo_server_ok: "parts_ok demo_parts" "json_contract demo_parts" "sources_ok demo_sources"
  "web_inv demo_defaults map_of alist_ok demo_state"
proof -
  show "parts_ok demo_parts" by (simp add: parts_ok_def demo_parts_def demo_build_def bytes_of_def)
  show "json_contract demo_parts"
    by (simp add: json_contract_def demo_parts_def payload_ok_def has_field_def demo_payload_def)
  show "sources_ok demo_sources" by (simp add: sources_ok_def demo_sources_def BRIDGE_TELEMETRY_IPV4_ADDR_STR_LEN_def)
  show "web_inv demo_defaults map_of alist_ok demo_state"
    using demo_inv by (simp add: web_inv_def demo_state_def ota_text_ok_def ota_boot_def terminated_def OTA_UPDATE_LAST_ERROR_LEN_def)
qed



text \<open>Every second accept fails.\<close>

definition demo_listen :: "(nat, client) web_listen_ops" where
  "demo_listen = \<lparr>ls_socket = (\<lambda>v. (None, v)), ls_setsockopt = (\<lambda>v. (None, v)), ls_bind = (\<lambda>v. (None, v)),
     ls_listen = (\<lambda>v. (None, v)), ls_accept = (\<lambda>v. (if even v then Inr reboot_client else Inl 5, Suc v)),
     ls_close_client = (\<lambda>w v. v), ls_close = (\<lambda>v. v), ls_sleep = (\<lambda>v. v)\<rparr>"


text \<open>C40. Reading the status clears what it reports: after a status request the OTA module is in the state CONFIRMED
  whenever the running image is confirmed, whatever it was before. So the error of a failed upload, or a pending
  reboot, is reported once and gone for the next request.\<close>

theorem status_request_forgets_state:
  assumes "web_client wo wire incoming interrupts stalls" and "parts_ok P" and "sources_ok src" and "ota_text_ok (ws_ota s)"
    and "wb_ota (wp_build P)" and "ota_initialized (ws_ota s)" and "boot_is_img_confirmed (wp_flash P) (flash (ws_ota s))"
  shows "\<exists>s' w'. write_status_json wo P src s w = Some (s', w') \<and>
    ota_state (status (ws_ota s')) = OTA_UPDATE_STATE_CONFIRMED \<and> reboot_scheduled (ws_ota s') = reboot_scheduled (ws_ota s)"
proof -
  have "ws_ota (fst (status_answer P src s)) = (ws_ota s)\<lparr>status := (status (ws_ota s))\<lparr>ota_confirmed := True,
      ota_state := OTA_UPDATE_STATE_CONFIRMED\<rparr>\<rparr>"
    using assms(5-7) by (simp add: status_answer_def get_ota_status_for_json_def ota_update_get_status_def init_once_def
        ota_update_self_check_web_reachable_def Let_def split: prod.splits)
  then show ?thesis using web_client.status_served[OF assms(1,2) refl assms(3,4), of w] by auto
qed

definition pending_state :: "(alist_store, nor_flash) web_state" where
  "pending_state = demo_state\<lparr>ws_ota := (ota_boot nor_blank)\<lparr>ota_initialized := True,
     status := (status (ota_boot nor_blank))\<lparr>ota_state := OTA_UPDATE_STATE_PENDING_REBOOT\<rparr>, reboot_scheduled := True\<rparr>\<rparr>"

theorem status_request_forgets_state_witness:
  "ota_state (status (ws_ota pending_state)) = OTA_UPDATE_STATE_PENDING_REBOOT \<and>
   (\<exists>s' w'. write_status_json client_web demo_parts demo_sources pending_state reboot_client = Some (s', w') \<and>
      ota_state (status (ws_ota s')) = OTA_UPDATE_STATE_CONFIRMED \<and> reboot_scheduled (ws_ota s'))"
proof -
  have "ota_text_ok (ws_ota pending_state)"
    by (simp add: pending_state_def ota_text_ok_def ota_boot_def terminated_def OTA_UPDATE_LAST_ERROR_LEN_def)
  moreover have "wb_ota (wp_build demo_parts)" by (simp add: demo_parts_def demo_build_def)
  moreover have "ota_initialized (ws_ota pending_state)" by (simp add: pending_state_def)
  moreover have "boot_is_img_confirmed (wp_flash demo_parts) (flash (ws_ota pending_state))"
    by (simp add: demo_parts_def nor_ops_def pending_state_def ota_boot_def nor_blank_def)
  ultimately have "\<exists>s' w'. write_status_json client_web demo_parts demo_sources pending_state reboot_client = Some (s', w') \<and>
      ota_state (status (ws_ota s')) = OTA_UPDATE_STATE_CONFIRMED \<and> reboot_scheduled (ws_ota s') = reboot_scheduled (ws_ota pending_state)"
    by (rule status_request_forgets_state[OF web_demo.web_client_axioms demo_server_ok(1,3)])
  then show ?thesis by (simp add: pending_state_def)
qed

end
