(* ===== verification/Tcp_Nmea_Client.thy ===== *)
theory Tcp_Nmea_Client
  imports Tcp_Nmea_Session Bridge_Config_Properties
begin

text \<open>
  The outgoing TCP client, \<open>src/src/tcp_nmea_client.c\<close>: a thread that connects to the configured server, runs a
  session on the connection and reconnects, and \<open>tcp_nmea_client_config_changed\<close>, which another thread calls after a
  live change of the configuration.

  A step of the thread is what it does between two points at which the other thread may run; the critical
  sections of \<open>session_fd_lock\<close> are one step each. \<open>nmea_client\<close> holds the statics of the module, the locals
  (in the position \<open>cl_pc\<close>), the configuration it reads, the state of the sockets, and two ghosts: the number of
  generations as a natural number and that of the real changes. What the network, the Wi-Fi manager and the clock
  do in a step is a \<open>client_input\<close>. A blocked step leaves the state as it is; \<open>None\<close> is an access outside
  an object.
\<close>

section \<open>Translation\<close>

text \<open>Between the steps the thread holds the generation and the configuration of its snapshot, the address and
  the socket. The generation comes with the ghost of its number.\<close>

record snapshot =
  sn_gen :: u32
  sn_changes :: nat
  sn_cfg :: bridge_config_tcp_client

datatype client_pc =
    Cl_Top
  | Cl_Get_Config u32 nat
  | Cl_Disabled
  | Cl_Resolve snapshot u32
  | Cl_Resolve_Wait snapshot u32
  | Cl_Resolve_Check snapshot u32
  | Cl_Socket snapshot u32
  | Cl_Register snapshot u32 int
  | Cl_Check snapshot u32 int
  | Cl_Drop int
  | Cl_Connect snapshot u32 int
  | Cl_Connect_Failed int
  | Cl_Recheck snapshot int
  | Cl_Session snapshot int
  | Cl_Close int
  | Cl_Backoff

text \<open>\<open>tcp_nmea_client_config_changed\<close>: before it reads the configuration, and before it takes the lock.\<close>

datatype changer_pc =
    Cc_Idle
  | Cc_Read
  | Cc_Apply bridge_config_tcp_client

record nmea_client =
  cl_pc :: client_pc
  backoff_s :: u32
  cl_led :: status_led
  config_change_sem :: nat
  session_fd :: int
  config_gen :: u32
  seen_cfg :: bridge_config_tcp_client
  seen_cfg_valid :: bool
  live_cfg :: bridge_config_tcp_client
  cc_pc :: changer_pc
  open_fds :: "int set"
  connected_fds :: "int set"
  eof_fds :: "int set"
  shutdown_fds :: "(int \<times> bool) list"
  gens :: nat
  real_changes :: nat

record client_input =
  ci_sta_ready :: bool
  ci_sta_gateway :: "u32 option"
  ci_socket :: int
  ci_connect :: rc
  ci_timeout :: bool

text \<open>\<open>k_sem_give\<close> of a semaphore with the limit 1, and a wait: the semaphore, or the timeout, or blocked.\<close>

definition sem_give :: "nmea_client \<Rightarrow> nmea_client" where
  "sem_give c = c\<lparr>config_change_sem := min 1 (config_change_sem c + 1)\<rparr>"

definition wait_or_config_change :: "bool \<Rightarrow> (nmea_client \<Rightarrow> nmea_client) \<Rightarrow> nmea_client \<Rightarrow> nmea_client" where
  "wait_or_config_change timeout k c =
     (if config_change_sem c > 0 then k (c\<lparr>config_change_sem := config_change_sem c - 1\<rparr>)
      else if timeout then k c else c)"

text \<open>\<open>zsock_shutdown\<close>: it marks a connected socket as ended. The log notes whether the thread owned the socket.\<close>

definition owned_fd :: "client_pc \<Rightarrow> int option" where
  "owned_fd pc =
     (case pc of
        Cl_Register sn host fd \<Rightarrow> Some fd | Cl_Check sn host fd \<Rightarrow> Some fd | Cl_Drop fd \<Rightarrow> Some fd
      | Cl_Connect sn host fd \<Rightarrow> Some fd | Cl_Connect_Failed fd \<Rightarrow> Some fd | Cl_Recheck sn fd \<Rightarrow> Some fd
      | Cl_Session sn fd \<Rightarrow> Some fd | Cl_Close fd \<Rightarrow> Some fd | _ \<Rightarrow> None)"

definition zsock_shutdown :: "int \<Rightarrow> nmea_client \<Rightarrow> nmea_client" where
  "zsock_shutdown fd c =
     c\<lparr>eof_fds := (if fd \<in> connected_fds c then insert fd (eof_fds c) else eof_fds c),
       shutdown_fds := shutdown_fds c @ [(fd, fd \<in> open_fds c \<and> owned_fd (cl_pc c) = Some fd)]\<rparr>"

definition zsock_close :: "int \<Rightarrow> nmea_client \<Rightarrow> nmea_client" where
  "zsock_close fd c = c\<lparr>open_fds := open_fds c - {fd}, connected_fds := connected_fds c - {fd}, eof_fds := eof_fds c - {fd}\<rparr>"

definition tcp_cfg_changed :: "nmea_client \<Rightarrow> bridge_config_tcp_client \<Rightarrow> bool option" where
  "tcp_cfg_changed c cfg =
     (if \<not> seen_cfg_valid c \<or> tcp_enabled (seen_cfg c) \<noteq> tcp_enabled cfg \<or> tcp_port (seen_cfg c) \<noteq> tcp_port cfg
      then Some True
      else map_option Not (strcmp_eq (tcp_host (seen_cfg c)) (tcp_host cfg)))"

text \<open>The locked part of \<open>tcp_nmea_client_config_changed\<close>.\<close>

definition config_changed_locked :: "bridge_config_tcp_client \<Rightarrow> nmea_client \<Rightarrow> nmea_client option" where
  "config_changed_locked cfg c =
     do {
       changed \<leftarrow> tcp_cfg_changed c cfg;
       let c = c\<lparr>seen_cfg := cfg, seen_cfg_valid := True\<rparr>;
       Some (if changed then
               let c = sem_give (c\<lparr>config_gen := config_gen c + 1, gens := gens c + 1\<rparr>)
               in if session_fd c \<ge> 0 then zsock_shutdown (session_fd c) c else c
             else c)
     }"

text \<open>\<open>pton\<close> is \<open>net_addr_pton\<close>: the address of a valid dotted quad.\<close>

definition resolve_host ::
  "(byte list \<Rightarrow> u32 option) \<Rightarrow> client_input \<Rightarrow> bridge_config_tcp_client \<Rightarrow> u32 option option"
where
  "resolve_host pton inp cfg =
     do {
       x \<leftarrow> rd (tcp_host cfg) 0;
       if x \<noteq> 0 then (if \<not> ci_sta_ready inp then Some None
         else do { n \<leftarrow> strlen (tcp_host cfg); Some (pton (take n (tcp_host cfg))) })
       else Some (ci_sta_gateway inp)
     }"

definition back_off :: "nmea_client \<Rightarrow> nmea_client" where
  "back_off c = c\<lparr>backoff_s := min (backoff_s c * 2) 30, cl_pc := Cl_Top\<rparr>"

definition connecting :: "bool \<Rightarrow> nmea_client \<Rightarrow> nmea_client" where
  "connecting b c = c\<lparr>cl_led := status_led_tcp_nmea_client_connecting b (cl_led c)\<rparr>"

text \<open>The body of \<open>client_thread\<close>.\<close>

definition client_thread_step :: "(byte list \<Rightarrow> u32 option) \<Rightarrow> client_input \<Rightarrow> nmea_client \<Rightarrow> nmea_client option" where
  "client_thread_step pton inp c =
     (case cl_pc c of
        Cl_Top \<Rightarrow> Some (c\<lparr>cl_pc := Cl_Get_Config (config_gen c) (gens c)\<rparr>)
      | Cl_Get_Config g n \<Rightarrow>
          (let sn = \<lparr>sn_gen = g, sn_changes = n, sn_cfg = live_cfg c\<rparr> in
           Some (if \<not> tcp_enabled (live_cfg c) then (connecting False c)\<lparr>cl_pc := Cl_Disabled\<rparr>
                 else c\<lparr>cl_pc := Cl_Resolve sn 0\<rparr>))
      | Cl_Disabled \<Rightarrow> Some (wait_or_config_change False (\<lambda>c. c\<lparr>backoff_s := 1, cl_pc := Cl_Top\<rparr>) c)
      | Cl_Resolve sn ticks \<Rightarrow>
          (case resolve_host pton inp (sn_cfg sn) of
             None \<Rightarrow> None
           | Some (Some host) \<Rightarrow> Some (c\<lparr>cl_pc := Cl_Socket sn host\<rparr>)
           | Some None \<Rightarrow>
               Some ((if ticks = 0 then connecting False c else c)\<lparr>cl_pc := Cl_Resolve_Wait sn (ticks + 1)\<rparr>))
      | Cl_Resolve_Wait sn ticks \<Rightarrow>
          Some (wait_or_config_change (ci_timeout inp) (\<lambda>c. c\<lparr>cl_pc := Cl_Resolve_Check sn ticks\<rparr>) c)
      | Cl_Resolve_Check sn ticks \<Rightarrow>
          Some (if config_gen c \<noteq> sn_gen sn then c\<lparr>backoff_s := 1, cl_pc := Cl_Top\<rparr>
                else c\<lparr>cl_pc := Cl_Resolve sn ticks\<rparr>)
      | Cl_Socket sn host \<Rightarrow>
          (let c = connecting True c; fd = ci_socket inp in
           if fd < 0 then Some (c\<lparr>cl_pc := Cl_Backoff\<rparr>)
           else Some (c\<lparr>open_fds := insert fd (open_fds c), cl_pc := Cl_Register sn host fd\<rparr>))
      | Cl_Register sn host fd \<Rightarrow> Some (c\<lparr>session_fd := fd, cl_pc := Cl_Check sn host fd\<rparr>)
      | Cl_Check sn host fd \<Rightarrow>
          Some (c\<lparr>cl_pc := if config_gen c \<noteq> sn_gen sn then Cl_Drop fd else Cl_Connect sn host fd\<rparr>)
      | Cl_Drop fd \<Rightarrow> Some ((zsock_close fd (c\<lparr>session_fd := -1\<rparr>))\<lparr>cl_pc := Cl_Top\<rparr>)
      | Cl_Connect sn host fd \<Rightarrow>
          Some (if ci_connect inp \<noteq> 0 then c\<lparr>cl_pc := Cl_Connect_Failed fd\<rparr>
                else c\<lparr>connected_fds := insert fd (connected_fds c), cl_pc := Cl_Recheck sn fd\<rparr>)
      | Cl_Connect_Failed fd \<Rightarrow> Some ((zsock_close fd (c\<lparr>session_fd := -1\<rparr>))\<lparr>cl_pc := Cl_Backoff\<rparr>)
      | Cl_Recheck sn fd \<Rightarrow>
          (let c = (if config_gen c \<noteq> sn_gen sn then zsock_shutdown fd c else c) in
           Some ((connecting False c)\<lparr>backoff_s := 1, cl_pc := Cl_Session sn fd\<rparr>))
      | Cl_Session sn fd \<Rightarrow> Some (c\<lparr>cl_pc := Cl_Close fd\<rparr>)
      | Cl_Close fd \<Rightarrow> Some (connecting True ((zsock_close fd (c\<lparr>session_fd := -1\<rparr>))\<lparr>cl_pc := Cl_Backoff\<rparr>))
      | Cl_Backoff \<Rightarrow> Some (wait_or_config_change (ci_timeout inp) back_off c))"

text \<open>\<open>started\<close> and the number of threads.\<close>

definition tcp_nmea_client_start :: "bool \<times> nat \<Rightarrow> rc \<times> bool \<times> nat" where
  "tcp_nmea_client_start st = (case st of (started, threads) \<Rightarrow>
     if \<not> started then (0, True, Suc threads) else (0, started, threads))"

text \<open>When the thread starts: \<open>main\<close> has called \<open>tcp_nmea_client_config_changed\<close> once.\<close>

definition client_statics :: "bridge_config_tcp_client \<Rightarrow> status_led \<Rightarrow> nmea_client" where
  "client_statics cfg led =
     \<lparr>cl_pc = Cl_Top, backoff_s = 1, cl_led = led, config_change_sem = 0, session_fd = -1, config_gen = 0,
      seen_cfg = \<lparr>tcp_enabled = False, tcp_host = replicate 16 0, tcp_port = 0\<rparr>, seen_cfg_valid = False,
      live_cfg = cfg, cc_pc = Cc_Idle, open_fds = {}, connected_fds = {}, eof_fds = {}, shutdown_fds = [],
      gens = 0, real_changes = 0\<rparr>"

section \<open>The client in its system\<close>

text \<open>The thread of the client, other users of sockets, and the thread that changes the configuration: it writes the
  new settings, of the TCP client or of anything else, and then calls \<open>tcp_nmea_client_config_changed\<close>.\<close>

definition tcp_same :: "bridge_config_tcp_client \<Rightarrow> bridge_config_tcp_client \<Rightarrow> bool" where
  "tcp_same a b \<longleftrightarrow> tcp_enabled a = tcp_enabled b \<and> tcp_port a = tcp_port b \<and> cstr (tcp_host a) = cstr (tcp_host b)"

lemma tcp_same_equiv: "tcp_same a a" "tcp_same a b \<Longrightarrow> tcp_same b a" "tcp_same a b \<Longrightarrow> tcp_same b c \<Longrightarrow> tcp_same a c"
  by (simp_all add: tcp_same_def)

inductive client_system :: "(byte list \<Rightarrow> u32 option) \<Rightarrow> nmea_client \<Rightarrow> nmea_client \<Rightarrow> bool" for pton where
  thread: "client_thread_step pton inp c = Some c' \<Longrightarrow> ci_socket inp \<notin> open_fds c \<Longrightarrow> client_system pton c c'"
| other_open: "0 \<le> fd \<Longrightarrow> fd \<notin> open_fds c \<Longrightarrow> client_system pton c (c\<lparr>open_fds := insert fd (open_fds c)\<rparr>)"
| other_close: "owned_fd (cl_pc c) \<noteq> Some fd \<Longrightarrow> client_system pton c (zsock_close fd c)"
| config_write: "cc_pc c = Cc_Idle \<Longrightarrow> tcp_ok new \<Longrightarrow>
    client_system pton c (c\<lparr>live_cfg := new, cc_pc := Cc_Read,
      real_changes := real_changes c + (if tcp_same (live_cfg c) new then 0 else 1)\<rparr>)"
| config_read: "cc_pc c = Cc_Read \<Longrightarrow> client_system pton c (c\<lparr>cc_pc := Cc_Apply (live_cfg c)\<rparr>)"
| config_apply: "cc_pc c = Cc_Apply cfg \<Longrightarrow> config_changed_locked cfg c = Some c' \<Longrightarrow>
    client_system pton c (c'\<lparr>cc_pc := Cc_Idle\<rparr>)"

inductive_cases client_systemE: "client_system pton c c'"

definition client_boot :: "bridge_config_tcp_client \<Rightarrow> status_led \<Rightarrow> nmea_client" where
  "client_boot cfg led = the (config_changed_locked cfg (client_statics cfg led))"

section \<open>The sockets\<close>

definition fds_inv :: "nmea_client \<Rightarrow> bool" where
  "fds_inv c \<longleftrightarrow>
     (case owned_fd (cl_pc c) of
        None \<Rightarrow> session_fd c = -1 \<and> connected_fds c = {}
      | Some fd \<Rightarrow> 0 \<le> fd \<and> fd \<in> open_fds c \<and> connected_fds c \<subseteq> {fd} \<and>
          session_fd c = (case cl_pc c of Cl_Register sn host fd \<Rightarrow> -1 | _ \<Rightarrow> fd)) \<and>
     eof_fds c \<subseteq> connected_fds c \<and> list_all snd (shutdown_fds c) \<and>
     (case cl_pc c of Cl_Recheck sn fd \<Rightarrow> fd \<in> connected_fds c | Cl_Session sn fd \<Rightarrow> fd \<in> connected_fds c | _ \<Rightarrow> True)"

lemma thread_fds:
  assumes "fds_inv c" and "client_thread_step pton inp c = Some c'" and "ci_socket inp \<notin> open_fds c"
  shows "fds_inv c'"
  using assms
  by (cases "cl_pc c")
    (auto simp: client_thread_step_def fds_inv_def owned_fd_def wait_or_config_change_def connecting_def back_off_def Let_def
      zsock_close_def zsock_shutdown_def split: if_splits option.splits)

lemma apply_fds:
  assumes "fds_inv c" and "config_changed_locked cfg c = Some c'"
  shows "fds_inv c'"
  using assms
  by (cases "cl_pc c")
    (auto simp: config_changed_locked_def fds_inv_def owned_fd_def sem_give_def Let_def zsock_shutdown_def
      split: if_splits bind_splits)

lemma fds_inv_update [simp]:
  "fds_inv (c\<lparr>cc_pc := x\<rparr>) = fds_inv c" "fds_inv (c\<lparr>live_cfg := n, cc_pc := x, real_changes := k\<rparr>) = fds_inv c"
  by (simp_all add: fds_inv_def cong: option.case_cong client_pc.case_cong)

lemma system_fds:
  assumes "client_system pton c c'" and "fds_inv c"
  shows "fds_inv c'"
  using assms
proof cases
  case (other_close fd)
  then show ?thesis using assms(2)
    by (auto simp: fds_inv_def zsock_close_def split: option.splits client_pc.splits)
next
  case (config_apply cfg c1)
  then have "fds_inv c1" using apply_fds assms(2) by blast
  then show ?thesis using config_apply by simp
next
  case (other_open fd)
  then show ?thesis using assms(2) by (auto simp: fds_inv_def split: option.splits cong: client_pc.case_cong)
qed (use assms(2) thread_fds in auto)

section \<open>The configuration\<close>

definition snapshot_of :: "client_pc \<Rightarrow> snapshot option" where
  "snapshot_of pc =
     (case pc of
        Cl_Resolve sn t \<Rightarrow> Some sn | Cl_Resolve_Wait sn t \<Rightarrow> Some sn | Cl_Resolve_Check sn t \<Rightarrow> Some sn
      | Cl_Socket sn h \<Rightarrow> Some sn | Cl_Register sn h fd \<Rightarrow> Some sn | Cl_Check sn h fd \<Rightarrow> Some sn
      | Cl_Connect sn h fd \<Rightarrow> Some sn | Cl_Recheck sn fd \<Rightarrow> Some sn | Cl_Session sn fd \<Rightarrow> Some sn | _ \<Rightarrow> None)"

text \<open>A snapshot with the newest generation has the settings in force, or a change is still to be noticed.\<close>

definition snapshot_ok :: "nmea_client \<Rightarrow> snapshot \<Rightarrow> bool" where
  "snapshot_ok c sn \<longleftrightarrow> sn_gen sn = of_nat (sn_changes sn) \<and> sn_changes sn \<le> gens c \<and> tcp_ok (sn_cfg sn) \<and>
     (sn_changes sn = gens c \<longrightarrow> tcp_same (sn_cfg sn) (live_cfg c) \<or> \<not> tcp_same (seen_cfg c) (live_cfg c))"

definition cfg_inv :: "nmea_client \<Rightarrow> bool" where
  "cfg_inv c \<longleftrightarrow> config_gen c = of_nat (gens c) \<and> seen_cfg_valid c \<and> tcp_ok (seen_cfg c) \<and> tcp_ok (live_cfg c) \<and>
     (\<forall>cfg. cc_pc c = Cc_Apply cfg \<longrightarrow> cfg = live_cfg c) \<and>
     gens c + (if tcp_same (seen_cfg c) (live_cfg c) then 0 else 1) = 1 + real_changes c \<and>
     (cc_pc c = Cc_Idle \<longrightarrow> tcp_same (seen_cfg c) (live_cfg c)) \<and>
     (\<forall>sn. snapshot_of (cl_pc c) = Some sn \<longrightarrow> snapshot_ok c sn) \<and>
     (\<forall>g n. cl_pc c = Cl_Get_Config g n \<longrightarrow> g = of_nat n \<and> n \<le> gens c) \<and>
     (cl_pc c = Cl_Disabled \<longrightarrow> config_change_sem c = 0 \<longrightarrow> \<not> tcp_enabled (live_cfg c) \<or> \<not> tcp_same (seen_cfg c) (live_cfg c)) \<and>
     config_change_sem c \<le> 1 \<and> 1 \<le> backoff_s c \<and> backoff_s c \<le> 30"

lemma backoff_bound: "1 \<le> b \<Longrightarrow> b \<le> 30 \<Longrightarrow> 1 \<le> min (b * 2) (30 :: u32) \<and> min (b * 2) 30 \<le> (30 :: u32)"
  by (auto simp: min_def word_le_nat_alt unat_word_ariths)

lemma tcp_cfg_changed_eq:
  assumes "seen_cfg_valid c" and "tcp_ok (seen_cfg c)" and "tcp_ok cfg"
  shows "tcp_cfg_changed c cfg = Some (\<not> tcp_same (seen_cfg c) cfg)"
  using assms strcmp_eq_cstr[of "tcp_host (seen_cfg c)" "tcp_host cfg"]
  by (auto simp: tcp_cfg_changed_def tcp_same_def tcp_ok_def c_array_def)


lemma snapshot_ok_keeps:
  "snapshot_ok (c\<lparr>cl_pc := p\<rparr>) sn = snapshot_ok c sn"
  by (simp add: snapshot_ok_def)

lemma thread_cfg_kept:
  assumes "client_thread_step pton inp c = Some c'"
  shows "config_gen c' = config_gen c \<and> gens c' = gens c \<and> seen_cfg_valid c' = seen_cfg_valid c \<and>
    seen_cfg c' = seen_cfg c \<and> live_cfg c' = live_cfg c \<and> cc_pc c' = cc_pc c \<and> real_changes c' = real_changes c \<and>
    config_change_sem c' \<le> config_change_sem c"
  using assms
  by (cases "cl_pc c")
    (auto simp: client_thread_step_def wait_or_config_change_def connecting_def back_off_def Let_def
      zsock_close_def zsock_shutdown_def split: if_splits option.splits)

lemma thread_snapshot:
  assumes "client_thread_step pton inp c = Some c'"
  shows "(\<forall>sn. snapshot_of (cl_pc c') = Some sn \<longrightarrow> snapshot_of (cl_pc c) = Some sn \<or>
      (\<exists>g n. cl_pc c = Cl_Get_Config g n \<and> sn = \<lparr>sn_gen = g, sn_changes = n, sn_cfg = live_cfg c\<rparr>)) \<and>
    (\<forall>g n. cl_pc c' = Cl_Get_Config g n \<longrightarrow> g = config_gen c \<and> n = gens c) \<and>
    (cl_pc c' = Cl_Disabled \<longrightarrow> \<not> tcp_enabled (live_cfg c) \<or> c' = c)"
  using assms
  by (cases "cl_pc c")
    (auto simp: client_thread_step_def wait_or_config_change_def connecting_def back_off_def Let_def snapshot_of_def
      zsock_close_def zsock_shutdown_def split: if_splits option.splits)

lemma thread_backoff:
  assumes "client_thread_step pton inp c = Some c'" and "1 \<le> backoff_s c" and "backoff_s c \<le> 30"
  shows "1 \<le> backoff_s c' \<and> backoff_s c' \<le> 30"
  using assms backoff_bound[OF assms(2,3)]
  by (cases "cl_pc c")
    (auto simp: client_thread_step_def wait_or_config_change_def connecting_def back_off_def Let_def
      zsock_close_def zsock_shutdown_def split: if_splits option.splits)

lemma thread_cfg:
  assumes i: "cfg_inv c" and st: "client_thread_step pton inp c = Some c'"
  shows "cfg_inv c'"
proof -
  note k = thread_cfg_kept[OF st] and sn = thread_snapshot[OF st]
  have "snapshot_ok c' s" if s: "snapshot_of (cl_pc c') = Some s" for s
  proof (cases "snapshot_of (cl_pc c) = Some s")
    case True
    then show ?thesis using i k by (simp add: cfg_inv_def snapshot_ok_def)
  next
    case False
    then obtain g n where "cl_pc c = Cl_Get_Config g n" "s = \<lparr>sn_gen = g, sn_changes = n, sn_cfg = live_cfg c\<rparr>"
      using sn s False by blast
    then show ?thesis using i k by (simp add: cfg_inv_def snapshot_ok_def tcp_same_equiv(1))
  qed
  moreover have "1 \<le> backoff_s c' \<and> backoff_s c' \<le> 30" using thread_backoff[OF st] i by (simp add: cfg_inv_def)
  moreover have "cl_pc c' = Cl_Disabled \<longrightarrow> config_change_sem c' = 0 \<longrightarrow>
      \<not> tcp_enabled (live_cfg c') \<or> \<not> tcp_same (seen_cfg c') (live_cfg c')"
    using sn k i by (auto simp: cfg_inv_def)
  moreover have "g = of_nat n \<and> n \<le> gens c'" if "cl_pc c' = Cl_Get_Config g n" for g n
    using sn k i that by (simp add: cfg_inv_def)
  ultimately show ?thesis using i k unfolding cfg_inv_def by simp
qed

lemma write_cfg:
  assumes i: "cfg_inv c" and "cc_pc c = Cc_Idle" and "tcp_ok new"
  shows "cfg_inv (c\<lparr>live_cfg := new, cc_pc := Cc_Read, real_changes := real_changes c + (if tcp_same (live_cfg c) new then 0 else 1)\<rparr>)"
proof -
  have same: "tcp_same (seen_cfg c) (live_cfg c)" using i assms(2) by (simp add: cfg_inv_def)
  then have new: "tcp_same (seen_cfg c) new = tcp_same (live_cfg c) new" using tcp_same_equiv by blast
  let ?c = "c\<lparr>live_cfg := new, cc_pc := Cc_Read, real_changes := real_changes c + (if tcp_same (live_cfg c) new then 0 else 1)\<rparr>"
  have sn: "snapshot_ok ?c sn" if "snapshot_of (cl_pc c) = Some sn" for sn
  proof -
    have "snapshot_ok c sn" using i that by (simp add: cfg_inv_def)
    then show ?thesis using same new tcp_same_equiv(3)[of "sn_cfg sn" "live_cfg c" new] by (auto simp: snapshot_ok_def)
  qed
  have dis: "\<not> tcp_enabled new \<or> \<not> tcp_same (seen_cfg c) new" if "cl_pc c = Cl_Disabled" "config_change_sem c = 0"
  proof -
    have "\<not> tcp_enabled (live_cfg c)" using i that same by (simp add: cfg_inv_def)
    then show ?thesis using same by (auto simp: tcp_same_def)
  qed
  show ?thesis
    unfolding cfg_inv_def using i[unfolded cfg_inv_def] sn dis same new assms(2,3) by (simp, auto)
qed

lemma apply_cfg:
  assumes i: "cfg_inv c" and a: "cc_pc c = Cc_Apply cfg" "config_changed_locked cfg c = Some c'"
  shows "cfg_inv (c'\<lparr>cc_pc := Cc_Idle\<rparr>)"
proof -
  have cfg: "cfg = live_cfg c" using i a(1) by (simp add: cfg_inv_def)
  have ch: "tcp_cfg_changed c cfg = Some (\<not> tcp_same (seen_cfg c) cfg)"
    by (rule tcp_cfg_changed_eq) (use i cfg in \<open>simp_all add: cfg_inv_def\<close>)
  show ?thesis
  proof (cases "tcp_same (seen_cfg c) cfg")
    case True
    then have c': "c' = c\<lparr>seen_cfg := cfg, seen_cfg_valid := True\<rparr>" using a(2) ch by (simp add: config_changed_locked_def)
    have "snapshot_ok (c\<lparr>seen_cfg := cfg, seen_cfg_valid := True, cc_pc := Cc_Idle\<rparr>) sn" if "snapshot_ok c sn" for sn
      using that True cfg by (simp add: snapshot_ok_def)
    then show ?thesis unfolding cfg_inv_def c' using i[unfolded cfg_inv_def] True cfg tcp_same_equiv(1) by (simp, auto)
  next
    case False
    have c': "config_gen c' = config_gen c + 1 \<and> gens c' = gens c + 1 \<and> seen_cfg_valid c' \<and> seen_cfg c' = cfg \<and>
      live_cfg c' = live_cfg c \<and> real_changes c' = real_changes c \<and> cl_pc c' = cl_pc c \<and> backoff_s c' = backoff_s c \<and>
      config_change_sem c' = 1"
      using a(2) ch False by (auto simp: config_changed_locked_def Let_def sem_give_def zsock_shutdown_def)
    have "snapshot_ok (c'\<lparr>cc_pc := Cc_Idle\<rparr>) sn" if "snapshot_ok c sn" for sn
      using that c' by (simp add: snapshot_ok_def)
    then show ?thesis unfolding cfg_inv_def using i[unfolded cfg_inv_def] False cfg c' tcp_same_equiv(1) by (simp, fastforce)
  qed
qed

lemma cfg_inv_sockets [simp]:
  "cfg_inv (c\<lparr>open_fds := x\<rparr>) = cfg_inv c" "cfg_inv (zsock_close fd c) = cfg_inv c"
  by (simp_all add: cfg_inv_def snapshot_ok_def zsock_close_def)

lemma read_cfg: "cfg_inv c \<Longrightarrow> cc_pc c = Cc_Read \<Longrightarrow> cfg_inv (c\<lparr>cc_pc := Cc_Apply (live_cfg c)\<rparr>)"
  by (simp add: cfg_inv_def snapshot_ok_def)

lemma system_cfg:
  assumes "client_system pton c c'" and "cfg_inv c"
  shows "cfg_inv c'"
  using assms
proof cases
  case (config_write new)
  show ?thesis unfolding config_write(1) by (rule write_cfg[OF assms(2) config_write(2,3)])
qed (use assms(2) in \<open>auto intro: thread_cfg apply_cfg read_cfg\<close>)


section \<open>Outdated sessions\<close>

text \<open>Fewer than \<open>2 ^ 32\<close> generations after its snapshot a session with an old configuration is at the end of its input.\<close>

definition eof_inv :: "nmea_client \<Rightarrow> bool" where
  "eof_inv c \<longleftrightarrow>
     (\<forall>sn fd. cl_pc c = Cl_Session sn fd \<longrightarrow> sn_changes sn < gens c \<longrightarrow> gens c - sn_changes sn < 2 ^ 32 \<longrightarrow> fd \<in> eof_fds c)"

lemma generation_differs:
  assumes "a < b" and "b - a < 2 ^ 32"
  shows "(of_nat b :: u32) \<noteq> of_nat a"
proof
  assume "(of_nat b :: u32) = of_nat a"
  then have "(of_nat (b - a) :: u32) = 0" using assms(1) by (simp add: of_nat_diff)
  then have "unat (of_nat (b - a) :: u32) = 0" by simp
  then show False using assms unat_of_nat_u32[OF assms(2)] by simp
qed

lemma thread_eof:
  assumes i: "eof_inv c" "cfg_inv c" "fds_inv c" and st: "client_thread_step pton inp c = Some c'"
  shows "eof_inv c'"
  unfolding eof_inv_def
proof (intro allI impI)
  fix sn fd
  assume s: "cl_pc c' = Cl_Session sn fd" "sn_changes sn < gens c'" "gens c' - sn_changes sn < 2 ^ 32"
  have pc: "cl_pc c = Cl_Recheck sn fd"
    using st s(1)
    by (cases "cl_pc c") (auto simp: client_thread_step_def wait_or_config_change_def connecting_def back_off_def Let_def
      zsock_close_def split: if_splits option.splits)
  have "sn_gen sn = of_nat (sn_changes sn)" "config_gen c = of_nat (gens c)"
    using i(2) pc by (auto simp: cfg_inv_def snapshot_of_def snapshot_ok_def)
  then have "config_gen c \<noteq> sn_gen sn" using generation_differs[OF s(2,3)] thread_cfg_kept[OF st] by simp
  moreover have "fd \<in> connected_fds c" using i(3) pc by (simp add: fds_inv_def)
  ultimately show "fd \<in> eof_fds c'"
    using st pc by (auto simp: client_thread_step_def Let_def zsock_shutdown_def connecting_def)
qed

lemma apply_eof:
  assumes i: "eof_inv c" "fds_inv c" and a: "config_changed_locked cfg c = Some c'"
  shows "eof_inv (c'\<lparr>cc_pc := Cc_Idle\<rparr>)"
  unfolding eof_inv_def
proof (intro allI impI)
  fix sn fd
  let ?c = "c'\<lparr>cc_pc := Cc_Idle\<rparr>"
  assume s: "cl_pc ?c = Cl_Session sn fd" "sn_changes sn < gens ?c" "gens ?c - sn_changes sn < 2 ^ 32"
  obtain b where b: "tcp_cfg_changed c cfg = Some b" using a by (auto simp: config_changed_locked_def split: bind_splits)
  have pc: "cl_pc c = Cl_Session sn fd"
    using a b s(1) by (auto simp: config_changed_locked_def Let_def sem_give_def zsock_shutdown_def split: if_splits)
  then have fd: "session_fd c = fd" "0 \<le> fd" "fd \<in> connected_fds c" using i(2) by (simp_all add: fds_inv_def owned_fd_def)
  show "fd \<in> eof_fds ?c"
  proof (cases b)
    case True
    then show ?thesis using a b fd by (auto simp: config_changed_locked_def Let_def sem_give_def zsock_shutdown_def)
  next
    case False
    then have "gens c' = gens c" "eof_fds c' = eof_fds c" using a b by (auto simp: config_changed_locked_def)
    then show ?thesis using i(1) pc s(2,3) by (simp add: eof_inv_def)
  qed
qed

lemma eof_inv_update [simp]:
  "eof_inv (c\<lparr>cc_pc := x\<rparr>) = eof_inv c" "eof_inv (c\<lparr>live_cfg := n, cc_pc := x, real_changes := k\<rparr>) = eof_inv c"
  "eof_inv (c\<lparr>open_fds := o1\<rparr>) = eof_inv c"
  by (simp_all add: eof_inv_def)

definition client_inv :: "nmea_client \<Rightarrow> bool" where
  "client_inv c \<longleftrightarrow> fds_inv c \<and> cfg_inv c \<and> eof_inv c"

lemma system_inv_step:
  assumes "client_system pton c c'" and "client_inv c"
  shows "client_inv c'"
proof -
  have i: "fds_inv c" "cfg_inv c" "eof_inv c" using assms(2) by (simp_all add: client_inv_def)
  have "eof_inv c'"
    using assms(1)
  proof cases
    case (other_close fd)
    then show ?thesis using i(3) by (auto simp: eof_inv_def zsock_close_def owned_fd_def)
  next
    case (config_apply cfg c1)
    then show ?thesis using apply_eof[OF i(3,1)] by simp
  qed (use i thread_eof in auto)
  then show ?thesis using system_fds[OF assms(1) i(1)] system_cfg[OF assms(1) i(2)] by (simp add: client_inv_def)
qed

lemma client_boot_inv:
  assumes "tcp_ok cfg"
  shows "client_inv (client_boot cfg led)"
proof -
  have "client_boot cfg led = (client_statics cfg led)\<lparr>seen_cfg := cfg, seen_cfg_valid := True, config_gen := 1, gens := 1,
      config_change_sem := 1\<rparr>"
    by (simp add: client_boot_def config_changed_locked_def tcp_cfg_changed_def client_statics_def sem_give_def Let_def)
  then show ?thesis
    using assms by (simp add: client_inv_def fds_inv_def cfg_inv_def eof_inv_def client_statics_def owned_fd_def snapshot_of_def
      tcp_same_equiv(1))
qed

lemma client_reachable_inv:
  assumes "(client_system pton)\<^sup>*\<^sup>* (client_boot cfg led) c" and "tcp_ok cfg"
  shows "client_inv c"
  using assms(1) by (induction rule: rtranclp_induct) (use client_boot_inv[OF assms(2)] system_inv_step in blast)+

text \<open>No step of either thread leaves an object.\<close>

lemma resolve_total: "tcp_ok cfg \<Longrightarrow> \<exists>x. resolve_host pton inp cfg = Some x"
  by (cases "tcp_host cfg") (auto simp: resolve_host_def tcp_ok_def c_array_def strlen_eq rd_def)

lemma thread_total:
  assumes "cfg_inv c"
  shows "\<exists>c'. client_thread_step pton inp c = Some c'"
proof (cases "\<exists>sn t. cl_pc c = Cl_Resolve sn t")
  case True
  then obtain sn t where p: "cl_pc c = Cl_Resolve sn t" by blast
  then have "tcp_ok (sn_cfg sn)" using assms by (simp add: cfg_inv_def snapshot_of_def snapshot_ok_def)
  from resolve_total[OF this, of pton inp] obtain x where "resolve_host pton inp (sn_cfg sn) = Some x" by blast
  then show ?thesis using p by (cases x) (simp_all add: client_thread_step_def)
next
  case False
  then show ?thesis by (cases "cl_pc c") (auto simp: client_thread_step_def Let_def)
qed

lemma apply_total:
  assumes "cfg_inv c" and "cc_pc c = Cc_Apply cfg"
  shows "\<exists>c'. config_changed_locked cfg c = Some c'"
  using assms tcp_cfg_changed_eq[of c cfg] by (simp add: cfg_inv_def config_changed_locked_def Let_def)

section \<open>Runs\<close>

text \<open>A run of the system as a list of the steps to take; \<open>None\<close> when one is not possible.\<close>

datatype client_action =
    Do_thread client_input
  | Do_write bridge_config_tcp_client
  | Do_read
  | Do_apply

fun client_do :: "(byte list \<Rightarrow> u32 option) \<Rightarrow> client_action \<Rightarrow> nmea_client \<Rightarrow> nmea_client option" where
  "client_do pton (Do_thread inp) c = (if ci_socket inp \<in> open_fds c then None else client_thread_step pton inp c)"
| "client_do pton (Do_write new) c =
     (if cc_pc c = Cc_Idle \<and> tcp_ok new
      then Some (c\<lparr>live_cfg := new, cc_pc := Cc_Read,
        real_changes := real_changes c + (if tcp_same (live_cfg c) new then 0 else 1)\<rparr>) else None)"
| "client_do pton Do_read c = (if cc_pc c = Cc_Read then Some (c\<lparr>cc_pc := Cc_Apply (live_cfg c)\<rparr>) else None)"
| "client_do pton Do_apply c =
     (case cc_pc c of Cc_Apply cfg \<Rightarrow> map_option (\<lambda>c. c\<lparr>cc_pc := Cc_Idle\<rparr>) (config_changed_locked cfg c) | _ \<Rightarrow> None)"

fun client_run :: "(byte list \<Rightarrow> u32 option) \<Rightarrow> client_action list \<Rightarrow> nmea_client \<Rightarrow> nmea_client option" where
  "client_run pton [] c = Some c"
| "client_run pton (a # as) c = Option.bind (client_do pton a c) (client_run pton as)"

lemma client_do_step: "client_do pton a c = Some c' \<Longrightarrow> client_system pton c c'"
proof (cases a)
  case (Do_write new)
  moreover assume "client_do pton a c = Some c'"
  ultimately have w: "cc_pc c = Cc_Idle" "tcp_ok new" and c': "c' = c\<lparr>live_cfg := new, cc_pc := Cc_Read,
      real_changes := real_changes c + (if tcp_same (live_cfg c) new then 0 else 1)\<rparr>"
    by (simp_all split: if_split_asm)
  show ?thesis unfolding c' using w by (rule client_system.config_write)
qed (auto intro: client_system.intros split: if_splits changer_pc.splits)

lemma client_run_steps: "client_run pton as c = Some c' \<Longrightarrow> (client_system pton)\<^sup>*\<^sup>* c c'"
proof (induction as arbitrary: c)
  case (Cons a as)
  then obtain c1 where "client_do pton a c = Some c1" "client_run pton as c1 = Some c'" by (auto split: bind_splits)
  then show ?case using client_do_step Cons.IH converse_rtranclp_into_rtranclp[of "client_system pton"] by blast
qed simp

section \<open>Properties\<close>

text \<open>C11. A live change of the configuration never shuts down a socket of somebody else. Over every interleaving of the
  client thread, the thread that changes the configuration, and others that open and close sockets, every
  shutdown the client makes is of a socket that is open and its own, so neither closed nor reused, and
  no step of the two threads leaves an object.\<close>

theorem client_shuts_down_own_socket:
  assumes "(client_system pton)\<^sup>*\<^sup>* (client_boot cfg led) c" and "tcp_ok cfg"
  shows "list_all snd (shutdown_fds c) \<and>
    (0 \<le> session_fd c \<longrightarrow> session_fd c \<in> open_fds c \<and> owned_fd (cl_pc c) = Some (session_fd c)) \<and>
    (\<exists>c'. client_thread_step pton inp c = Some c') \<and>
    (\<forall>cfg. cc_pc c = Cc_Apply cfg \<longrightarrow> (\<exists>c'. config_changed_locked cfg c = Some c'))"
proof -
  have i: "fds_inv c" "cfg_inv c" using client_reachable_inv[OF assms] by (simp_all add: client_inv_def)
  have "session_fd c \<in> open_fds c \<and> owned_fd (cl_pc c) = Some (session_fd c)" if "0 \<le> session_fd c"
    using i(1) that by (auto simp: fds_inv_def owned_fd_def split: client_pc.splits)
  then show ?thesis using i thread_total[OF i(2)] apply_total[OF i(2)] by (auto simp: fds_inv_def)
qed


definition demo_input :: client_input where
  "demo_input = \<lparr>ci_sta_ready = True, ci_sta_gateway = Some 5, ci_socket = 7, ci_connect = 0, ci_timeout = True\<rparr>"

text \<open>The client connects and runs a session; then the port changes.\<close>

definition demo_actions :: "client_action list" where
  "demo_actions = replicate 4 (Do_thread demo_input) @ replicate 4 (Do_thread (demo_input\<lparr>ci_socket := 8\<rparr>)) @
     [Do_write (demo_tcp\<lparr>tcp_port := 4000\<rparr>), Do_read, Do_apply]"

definition demo_pton :: "byte list \<Rightarrow> u32 option" where
  "demo_pton s = Some 5"

lemma client_demo_run:
  "\<exists>c sn. client_run demo_pton demo_actions (client_boot demo_tcp demo_led) = Some c \<and> cl_pc c = Cl_Session sn 7 \<and>
     sn_changes sn = 1 \<and> gens c = 2 \<and> cc_pc c = Cc_Idle \<and> shutdown_fds c = [(7, True)] \<and> session_fd c = 7 \<and>
     sn_cfg sn = demo_tcp \<and> live_cfg c = demo_tcp\<lparr>tcp_port := 4000\<rparr>"
proof -
  have ok: "tcp_ok (demo_tcp\<lparr>tcp_port := 4000\<rparr>)" using demo_configs_ok by (simp add: tcp_ok_def)
  have tcp: "tcp_enabled demo_tcp" "tcp_port demo_tcp = 10110" "tcp_host demo_tcp = replicate 16 0"
    by (simp_all add: demo_tcp_def)
  have boot: "client_boot demo_tcp demo_led = (client_statics demo_tcp demo_led)\<lparr>seen_cfg := demo_tcp,
      seen_cfg_valid := True, config_gen := 1, gens := 1, config_change_sem := 1\<rparr>"
    by (simp add: client_boot_def config_changed_locked_def tcp_cfg_changed_def client_statics_def sem_give_def Let_def)
  have four: "replicate 4 x = [x, x, x, x]" for x :: client_action by (simp add: numeral_eq_Suc)
  show ?thesis
    unfolding boot demo_actions_def four
    by (simp add: client_thread_step_def demo_input_def client_statics_def tcp resolve_host_def rd_def connecting_def Let_def
        zsock_shutdown_def owned_fd_def ok config_changed_locked_def tcp_cfg_changed_def sem_give_def tcp_same_def)
qed

theorem client_shuts_down_own_socket_witness:
  "\<exists>c. client_run demo_pton demo_actions (client_boot demo_tcp demo_led) = Some c \<and> shutdown_fds c = [(7, True)] \<and>
     session_fd c = 7 \<and> 7 \<in> open_fds c"
proof -
  obtain c where c: "client_run demo_pton demo_actions (client_boot demo_tcp demo_led) = Some c" "shutdown_fds c = [(7, True)]"
    "session_fd c = 7" using client_demo_run by blast
  then show ?thesis using client_shuts_down_own_socket[OF client_run_steps[OF c(1)] demo_configs_ok(5)] by auto
qed


end
