(* ===== verification/Wifi_Manager.thy ===== *)
theory Wifi_Manager
  imports Bridge_Config_Properties Bridge_Telemetry
begin

unbundle bit_operations_syntax

text \<open>
  The Wi-Fi manager, \<open>src/src/wifi_manager.c\<close>: it starts the access point and the station, follows the events of the
  network stack, retries the station connection with a growing delay, and answers what the other components ask.

  Zephyr's network stack and the ESP32 driver are not part of the repository: the record \<open>net_ops\<close> holds the calls
  the module makes, over the type \<open>'n\<close> of the network. \<open>wifi\<close> holds the statics of the module and the network.
\<close>

section \<open>Translation\<close>

record ipv4_entry =
  ent_used :: bool
  ent_dhcp :: bool
  ent_addr :: u32

record connect_req =
  req_ssid :: "byte list"
  req_psk :: "byte list"
  req_secured :: bool

datatype shutdown_handler = Full_system_reset_handler | Wifi_shutdown_handler

text \<open>\<open>net_if_get_wifi_sap\<close> and \<open>net_if_get_wifi_sta\<close> give an interface or NULL; a return value of 0 is success.\<close>

record 'n net_ops =
  n_sap :: "'n \<Rightarrow> nat option"
  n_sta :: "'n \<Rightarrow> nat option"
  n_unicast :: "nat \<Rightarrow> 'n \<Rightarrow> ipv4_entry list option"
  n_get_gw :: "nat \<Rightarrow> 'n \<Rightarrow> u32"
  n_set_gw :: "nat \<Rightarrow> u32 \<Rightarrow> 'n \<Rightarrow> 'n"
  n_addr_add :: "nat \<Rightarrow> u32 \<Rightarrow> 'n \<Rightarrow> bool \<times> 'n"
  n_set_netmask :: "nat \<Rightarrow> u32 \<Rightarrow> u32 \<Rightarrow> 'n \<Rightarrow> bool \<times> 'n"
  n_dhcp_server_start :: "nat \<Rightarrow> u32 \<Rightarrow> 'n \<Rightarrow> rc \<times> 'n"
  n_ap_enable :: "nat \<Rightarrow> connect_req \<Rightarrow> 'n \<Rightarrow> rc \<times> 'n"
  n_connect :: "nat \<Rightarrow> connect_req \<Rightarrow> 'n \<Rightarrow> rc \<times> 'n"
  n_disconnect :: "nat \<Rightarrow> 'n \<Rightarrow> rc \<times> 'n"
  n_power_save_off :: "nat \<Rightarrow> 'n \<Rightarrow> rc \<times> 'n"
  n_set_sta_mode :: "'n \<Rightarrow> rc \<times> 'n"
  n_link_addr :: "nat \<Rightarrow> 'n \<Rightarrow> byte list option"
  n_rand :: "'n \<Rightarrow> (byte \<times> byte \<times> byte) \<times> 'n"
  n_admin_up :: "nat \<Rightarrow> 'n \<Rightarrow> bool"
  n_if_down :: "nat \<Rightarrow> 'n \<Rightarrow> rc \<times> 'n"
  n_if_up :: "nat \<Rightarrow> 'n \<Rightarrow> rc \<times> 'n"
  n_set_mac :: "nat \<Rightarrow> byte list \<Rightarrow> 'n \<Rightarrow> rc \<times> 'n"
  n_iface_status :: "nat \<Rightarrow> 'n \<Rightarrow> rc \<times> bool \<times> int"
  n_register_shutdown :: "shutdown_handler \<Rightarrow> 'n \<Rightarrow> rc \<times> 'n"
  n_add_callbacks :: "'n \<Rightarrow> 'n"
  n_pton :: "string \<Rightarrow> u32 option"
  n_ntop :: "u32 \<Rightarrow> byte list"

text \<open>The Kconfig options.\<close>

record wifi_build =
  kc_ap_enable :: bool
  kc_ap_ip :: string
  kc_ap_netmask :: string

record 'n wifi =
  ap_iface :: "nat option"
  sta_iface :: "nat option"
  wm_sta_cfg :: bridge_config_sta
  wm_ap_cfg :: bridge_config_ap
  sta_connected :: bool
  sta_has_addr :: bool
  sta_ipv4_logged :: bool
  sta_connect_requested :: bool
  sta_retry_enabled :: bool
  sta_retry_backoff_s :: u32
  wm_net :: 'n

definition sta_dhcp_addr :: "'n net_ops \<Rightarrow> 'n wifi \<Rightarrow> u32 option" where
  "sta_dhcp_addr no s =
     (case sta_iface s of
        None \<Rightarrow> None
      | Some i \<Rightarrow>
          (case n_unicast no i (wm_net s) of
             None \<Rightarrow> None
           | Some es \<Rightarrow> map_option ent_addr (find (\<lambda>e. ent_used e \<and> ent_dhcp e \<and> ent_addr e \<noteq> 0) es)))"

definition mark_sta_ipv4_ready :: "'n net_ops \<Rightarrow> 'n wifi \<Rightarrow> bool \<times> 'n wifi" where
  "mark_sta_ipv4_ready no s =
     (if sta_dhcp_addr no s = None then (False, s)
      else (True, s\<lparr>sta_connected := True, sta_has_addr := True, sta_ipv4_logged := True\<rparr>))"

text \<open>The events; the status of a connect result may be missing.\<close>

datatype mgmt_event =
    Wifi_connect_result "int option"
  | Wifi_disconnect_result
  | Wifi_ap_event
  | Ipv4_addr_add
  | Ipv4_dhcp_bound
  | Ipv4_dhcp_stop

definition sta_gone :: "'n wifi \<Rightarrow> 'n wifi" where
  "sta_gone s = s\<lparr>sta_connected := False, sta_has_addr := False, sta_ipv4_logged := False, sta_connect_requested := False\<rparr>"

definition wifi_event_handler :: "'n net_ops \<Rightarrow> mgmt_event \<Rightarrow> nat option \<Rightarrow> 'n wifi \<Rightarrow> 'n wifi" where
  "wifi_event_handler no ev iface s =
     (case ev of
        Wifi_connect_result status \<Rightarrow>
          if iface \<noteq> sta_iface s then s
          else if status \<noteq> None \<and> status \<noteq> Some 0 then sta_gone s
          else snd (mark_sta_ipv4_ready no
            (s\<lparr>sta_connected := True, sta_connect_requested := False, sta_retry_backoff_s := 5\<rparr>))
      | Wifi_disconnect_result \<Rightarrow> if iface \<noteq> sta_iface s then s else sta_gone s
      | _ \<Rightarrow> s)"

definition ipv4_event_handler :: "'n net_ops \<Rightarrow> mgmt_event \<Rightarrow> nat option \<Rightarrow> 'n wifi \<Rightarrow> 'n wifi" where
  "ipv4_event_handler no ev iface s =
     (case ev of
        Ipv4_addr_add \<Rightarrow> snd (mark_sta_ipv4_ready no s)
      | Ipv4_dhcp_bound \<Rightarrow> snd (mark_sta_ipv4_ready no s)
      | Ipv4_dhcp_stop \<Rightarrow>
          if iface = sta_iface s then s\<lparr>sta_has_addr := False, sta_ipv4_logged := False\<rparr> else s
      | _ \<Rightarrow> s)"

text \<open>\<open>addr.s4_addr[3] += 10\<close>: the last byte wraps; addresses are in network order as one number.\<close>

definition pool_start :: "u32 \<Rightarrow> u32" where
  "pool_start addr = (addr AND 0xFFFFFF00) OR ((addr + 10) AND 0xFF)"

definition with_net :: "('n \<Rightarrow> 'a \<times> 'n) \<Rightarrow> 'n wifi \<Rightarrow> 'a \<times> 'n wifi" where
  "with_net f s = (case f (wm_net s) of (x, n) \<Rightarrow> (x, s\<lparr>wm_net := n\<rparr>))"

definition start_dhcp_server :: "'n net_ops \<Rightarrow> wifi_build \<Rightarrow> nat \<Rightarrow> 'n wifi \<Rightarrow> rc \<times> 'n wifi" where
  "start_dhcp_server no kc api s =
     (case n_pton no (kc_ap_ip kc) of
        None \<Rightarrow> (- EINVAL, s)
      | Some addr \<Rightarrow>
          (case n_pton no (kc_ap_netmask kc) of
             None \<Rightarrow> (- EINVAL, s)
           | Some netmask \<Rightarrow>
               (case with_net (\<lambda>n. n_addr_add no api addr (n_set_gw no api addr n)) s of (added, s) \<Rightarrow>
                  (case with_net (n_set_netmask no api addr netmask) s of (ok, s) \<Rightarrow>
                     if \<not> ok then (- EIO, s)
                     else with_net (n_dhcp_server_start no api (pool_start addr)) s))))"

text \<open>The parameters of a connect request: \<open>strlen\<close> bytes of each array.\<close>

definition connect_params :: "byte list \<Rightarrow> byte list \<Rightarrow> connect_req option" where
  "connect_params ssid psk =
     do { n \<leftarrow> strlen ssid; k \<leftarrow> strlen psk;
          Some \<lparr>req_ssid = take n ssid, req_psk = take k psk, req_secured = (k \<noteq> 0)\<rparr> }"

definition enable_ap :: "'n net_ops \<Rightarrow> wifi_build \<Rightarrow> 'n wifi \<Rightarrow> (rc \<times> 'n wifi) option" where
  "enable_ap no kc s =
     (case ap_iface s of
        None \<Rightarrow> Some (- ENODEV, s)
      | Some api \<Rightarrow>
          do {
            req \<leftarrow> connect_params (ap_ssid (wm_ap_cfg s)) (ap_psk (wm_ap_cfg s));
            (case start_dhcp_server no kc api s of (ret, s) \<Rightarrow>
               if ret \<noteq> 0 then Some (ret, s) else Some (with_net (n_ap_enable no api req) s))
          })"

definition disable_sta_power_save :: "'n net_ops \<Rightarrow> 'n wifi \<Rightarrow> 'n wifi" where
  "disable_sta_power_save no s =
     (case sta_iface s of None \<Rightarrow> s | Some sti \<Rightarrow> snd (with_net (n_power_save_off no sti) s))"

text \<open>The new address: the vendor bytes stay but for the two flag bits of the first, the others are random.\<close>

definition rotated_mac :: "byte list \<Rightarrow> byte \<times> byte \<times> byte \<Rightarrow> byte list" where
  "rotated_mac mac r = (case r of (a, b, c) \<Rightarrow> [(mac ! 0 AND 0xFC) OR 0x02, mac ! 1, mac ! 2, a, b, c])"

definition rotate_sta_mac :: "'n net_ops \<Rightarrow> 'n wifi \<Rightarrow> 'n wifi" where
  "rotate_sta_mac no s =
     (case sta_iface s of
        None \<Rightarrow> s
      | Some sti \<Rightarrow>
          if \<not> sta_enabled (wm_sta_cfg s) \<or> \<not> rotate_mac (wm_sta_cfg s) then s
          else
            (case with_net (n_set_sta_mode no) s of (ret, s) \<Rightarrow>
               if ret \<noteq> 0 then s
               else
                 (case n_link_addr no sti (wm_net s) of
                    None \<Rightarrow> s
                  | Some mac \<Rightarrow>
                      if length mac \<noteq> 6 then s
                      else
                        (case with_net (n_rand no) s of (r, s) \<Rightarrow>
                           let was_up = n_admin_up no sti (wm_net s) in
                           (case (if was_up then with_net (n_if_down no sti) s else (0, s)) of (ret, s) \<Rightarrow>
                              if ret \<noteq> 0 then s
                              else
                                (case with_net (n_set_mac no sti (rotated_mac mac r)) s of (ret, s) \<Rightarrow>
                                   if was_up then snd (with_net (n_if_up no sti) s) else s))))))"

definition disconnect_sta :: "'n net_ops \<Rightarrow> 'n wifi \<Rightarrow> 'n wifi" where
  "disconnect_sta no s =
     (case sta_iface s of None \<Rightarrow> s | Some sti \<Rightarrow> snd (with_net (n_disconnect no sti) s))"

text \<open>\<open>connect_sta\<close> in two parts: up to the return of the connect request, and what follows. The first part
  gives the return value of the function when it ends before the request, and otherwise that of the request.\<close>

definition connect_sta_request :: "'n net_ops \<Rightarrow> 'n wifi \<Rightarrow> ((rc + rc) \<times> 'n wifi) option" where
  "connect_sta_request no s =
     (case sta_iface s of
        None \<Rightarrow> Some (Inl (- ENODEV), s)
      | Some sti \<Rightarrow>
          do {
            n \<leftarrow> strlen (sta_ssid (wm_sta_cfg s));
            if n = 0 then Some (Inl 0, s)
            else do {
              req \<leftarrow> connect_params (sta_ssid (wm_sta_cfg s)) (sta_psk (wm_sta_cfg s));
              (case with_net (n_connect no sti req) s of (ret, s) \<Rightarrow> Some (Inr ret, s))
            }
          })"

definition connect_sta_result :: "'n net_ops \<Rightarrow> rc \<Rightarrow> 'n wifi \<Rightarrow> rc \<times> 'n wifi" where
  "connect_sta_result no ret s =
     (if ret \<noteq> 0 then (ret, s\<lparr>sta_connect_requested := False\<rparr>)
      else (0, disable_sta_power_save no (s\<lparr>sta_connect_requested := True\<rparr>)))"

definition connect_sta :: "'n net_ops \<Rightarrow> 'n wifi \<Rightarrow> (rc \<times> 'n wifi) option" where
  "connect_sta no s =
     do {
       (r, s) \<leftarrow> connect_sta_request no s;
       Some (case r of Inl ret \<Rightarrow> (ret, s) | Inr ret \<Rightarrow> connect_sta_result no ret s)
     }"

definition wifi_manager_start :: "'n net_ops \<Rightarrow> wifi_build \<Rightarrow> 's config \<Rightarrow> 'n wifi \<Rightarrow> (rc \<times> 'n wifi) option" where
  "wifi_manager_start no kc c s =
     (let s = s\<lparr>wm_sta_cfg := bridge_config_get_sta c, wm_ap_cfg := bridge_config_get_ap c\<rparr> in
      case with_net (n_register_shutdown no Full_system_reset_handler) s of (ret, s) \<Rightarrow>
      let s = (if ret \<noteq> 0 then s else snd (with_net (n_register_shutdown no Wifi_shutdown_handler) s));
          s = s\<lparr>wm_net := n_add_callbacks no (wm_net s)\<rparr>;
          s = s\<lparr>ap_iface := n_sap no (wm_net s), sta_iface := n_sta no (wm_net s)\<rparr>;
          s = rotate_sta_mac no s
      in do {
        (ret, s) \<leftarrow> (if kc_ap_enable kc then enable_ap no kc s else Some (0, s));
        (ret, s) \<leftarrow>
          (if sta_enabled (wm_sta_cfg s) then
             do { (sta_ret, s) \<leftarrow> connect_sta no (disconnect_sta no s);
                  Some (if sta_ret \<noteq> 0 \<and> ret = 0 then sta_ret else ret, s) }
           else Some (ret, s));
        Some (ret, s\<lparr>sta_retry_enabled := True\<rparr>)
      })"

definition wifi_manager_sta_iface :: "'n wifi \<Rightarrow> nat option" where
  "wifi_manager_sta_iface s = sta_iface s"

definition wifi_manager_sta_ready :: "'n net_ops \<Rightarrow> 'n wifi \<Rightarrow> bool \<times> 'n wifi" where
  "wifi_manager_sta_ready no s =
     (let s = (if sta_connected s \<and> \<not> sta_has_addr s then snd (mark_sta_ipv4_ready no s) else s)
      in (sta_connected s \<and> sta_has_addr s, s))"

text \<open>The result and the buffer, which is given as its content; \<open>None\<close> is NULL.\<close>

definition wifi_manager_get_sta_ipv4 ::
  "'n net_ops \<Rightarrow> byte list option \<Rightarrow> nat \<Rightarrow> 'n wifi \<Rightarrow> bool \<times> byte list option \<times> 'n wifi"
where
  "wifi_manager_get_sta_ipv4 no buf buf_len s =
     (case buf of
        None \<Rightarrow> (False, buf, s)
      | Some b \<Rightarrow>
          if buf_len < 16 then (False, buf, s)
          else
            (case wifi_manager_sta_ready no s of (ready, s) \<Rightarrow>
               if \<not> ready then (False, buf, s)
               else
                 (case sta_dhcp_addr no s of
                    None \<Rightarrow> (False, buf, s)
                  | Some addr \<Rightarrow>
                      (let t = n_ntop no addr @ [0] in (True, Some (t @ drop (length t) b), s)))))"

definition wifi_manager_get_sta_rssi :: "'n net_ops \<Rightarrow> bool \<Rightarrow> int \<Rightarrow> 'n wifi \<Rightarrow> bool \<times> int \<times> 'n wifi" where
  "wifi_manager_get_sta_rssi no has_arg rssi s =
     (case (has_arg, sta_iface s) of
        (True, Some sti) \<Rightarrow>
          (case wifi_manager_sta_ready no s of (ready, s) \<Rightarrow>
             if \<not> ready then (False, rssi, s)
             else
               (case n_iface_status no sti (wm_net s) of (ret, completed, dbm) \<Rightarrow>
                  if ret \<noteq> 0 \<or> \<not> completed then (False, rssi, s) else (True, dbm, s)))
      | _ \<Rightarrow> (False, rssi, s))"

definition wifi_manager_get_sta_gateway :: "'n net_ops \<Rightarrow> bool \<Rightarrow> 'n wifi \<Rightarrow> u32 option \<times> 'n wifi" where
  "wifi_manager_get_sta_gateway no has_arg s =
     (if \<not> has_arg then (None, s)
      else
        (case wifi_manager_sta_ready no s of (ready, s) \<Rightarrow>
           if \<not> ready then (None, s)
           else
             (case sta_iface s of
                None \<Rightarrow> (None, s)
              | Some sti \<Rightarrow> (let gw = n_get_gw no sti (wm_net s) in (if gw = 0 then None else Some gw, s)))))"

text \<open>The statics at boot.\<close>

definition wifi_statics :: "bridge_config_sta \<Rightarrow> bridge_config_ap \<Rightarrow> 'n \<Rightarrow> 'n wifi" where
  "wifi_statics sta0 ap0 n =
     \<lparr>ap_iface = None, sta_iface = None, wm_sta_cfg = sta0, wm_ap_cfg = ap0, sta_connected = False, sta_has_addr = False,
      sta_ipv4_logged = False, sta_connect_requested = False, sta_retry_enabled = False, sta_retry_backoff_s = 5,
      wm_net = n\<rparr>"

section \<open>The retry thread\<close>

text \<open>A step of \<open>sta_retry_thread\<close> is what it does between two points at which an event may be handled: the sleeps,
  and the two sides of the connect request.\<close>

datatype retry_pc =
    Rt_Wait_enabled
  | Rt_Ended
  | Rt_Check
  | Rt_Slept
  | Rt_Disconnected
  | Rt_Requested rc

definition retry_backoff :: "u32 \<Rightarrow> u32" where
  "retry_backoff b = min (b * 2) 60"

definition retry_step :: "'n net_ops \<Rightarrow> retry_pc \<times> 'n wifi \<Rightarrow> (retry_pc \<times> 'n wifi) option" where
  "retry_step no x =
     (case x of (pc, s) \<Rightarrow>
        (case pc of
           Rt_Wait_enabled \<Rightarrow>
             if \<not> sta_retry_enabled s then Some (pc, s)
             else if \<not> sta_enabled (wm_sta_cfg s) then Some (Rt_Ended, s)
             else do { n \<leftarrow> strlen (sta_ssid (wm_sta_cfg s)); Some (if n = 0 then Rt_Ended else Rt_Check, s) }
         | Rt_Ended \<Rightarrow> Some (pc, s)
         | Rt_Check \<Rightarrow> Some (if sta_connected s \<or> sta_connect_requested s then Rt_Check else Rt_Slept, s)
         | Rt_Slept \<Rightarrow>
             Some (if sta_connected s \<or> sta_connect_requested s then (Rt_Check, s)
                   else (Rt_Disconnected, disconnect_sta no s))
         | Rt_Disconnected \<Rightarrow>
             do {
               (r, s) \<leftarrow> connect_sta_request no s;
               Some (case r of
                 Inl ret \<Rightarrow> (Rt_Check, s\<lparr>sta_retry_backoff_s := retry_backoff (sta_retry_backoff_s s)\<rparr>)
               | Inr ret \<Rightarrow> (Rt_Requested ret, s))
             }
         | Rt_Requested ret \<Rightarrow>
             (case connect_sta_result no ret s of (ret, s) \<Rightarrow>
                Some (Rt_Check, s\<lparr>sta_retry_backoff_s := retry_backoff (sta_retry_backoff_s s)\<rparr>))))"

section \<open>The retry thread in its system\<close>

text \<open>The retry thread, the events, the queries of other components and the network. \<open>due\<close> says that the driver has
  accepted a connect request and still owes its result. \<open>early\<close> says whether it may deliver the result
  before the request function has returned to the module and the module has noted the request.\<close>

type_synonym 'n retry_state = "retry_pc \<times> bool \<times> 'n wifi"

inductive retry_system :: "'n net_ops \<Rightarrow> bool \<Rightarrow> 'n retry_state \<Rightarrow> 'n retry_state \<Rightarrow> bool" for no early where
  thread: "retry_step no (pc, s) = Some (pc', s') \<Longrightarrow>
    retry_system no early (pc, due, s) (pc', due \<or> pc = Rt_Disconnected \<and> pc' = Rt_Requested 0, s')"
| result: "early \<or> (\<forall>ret. pc \<noteq> Rt_Requested ret) \<Longrightarrow>
    retry_system no early (pc, True, s) (pc, False, wifi_event_handler no (Wifi_connect_result st) (sta_iface s) s)"
| disconnected: "retry_system no early (pc, due, s) (pc, due, wifi_event_handler no Wifi_disconnect_result (sta_iface s) s)"
| other_interface: "iface \<noteq> sta_iface s \<Longrightarrow>
    retry_system no early (pc, due, s) (pc, due, wifi_event_handler no ev iface s)"
| ipv4: "retry_system no early (pc, due, s) (pc, due, ipv4_event_handler no ev iface s)"
| query: "retry_system no early (pc, due, s) (pc, due, snd (wifi_manager_sta_ready no s))"
| network: "retry_system no early (pc, due, s) (pc, due, s\<lparr>wm_net := n\<rparr>)"

definition retry_start :: "'n wifi \<Rightarrow> 'n retry_state" where
  "retry_start s = (Rt_Wait_enabled, sta_connect_requested s, s)"

definition in_loop :: "retry_pc \<Rightarrow> bool" where
  "in_loop pc \<longleftrightarrow> pc \<noteq> Rt_Wait_enabled \<and> pc \<noteq> Rt_Ended"

definition backoff_ok :: "u32 \<Rightarrow> bool" where
  "backoff_ok b \<longleftrightarrow> b \<in> {5, 10, 20, 40, 60}"

definition retry_inv :: "bridge_config_sta \<Rightarrow> nat option \<Rightarrow> bool \<Rightarrow> 'n retry_state \<Rightarrow> bool" where
  "retry_inv cfg sti early x \<longleftrightarrow>
     (case x of (pc, due, s) \<Rightarrow>
        wm_sta_cfg s = cfg \<and> sta_iface s = sti \<and> backoff_ok (sta_retry_backoff_s s) \<and>
        (in_loop pc \<longrightarrow> sta_enabled cfg \<and> cstr (sta_ssid cfg) \<noteq> []) \<and>
        (\<not> early \<longrightarrow> sta_connect_requested s \<longrightarrow> due) \<and> (\<not> early \<longrightarrow> pc = Rt_Requested 0 \<longrightarrow> due))"

lemma backoff_doubles: "backoff_ok b \<Longrightarrow> backoff_ok (retry_backoff b)"
  by (auto simp: backoff_ok_def retry_backoff_def min_def)

lemma sta_gone_simps [simp]:
  "wm_sta_cfg (sta_gone s) = wm_sta_cfg s" "sta_iface (sta_gone s) = sta_iface s"
  "sta_retry_backoff_s (sta_gone s) = sta_retry_backoff_s s" "\<not> sta_connect_requested (sta_gone s)"
  by (simp_all add: sta_gone_def)

lemma mark_keeps [simp]:
  "wm_sta_cfg (snd (mark_sta_ipv4_ready no s)) = wm_sta_cfg s" "sta_iface (snd (mark_sta_ipv4_ready no s)) = sta_iface s"
  "sta_retry_backoff_s (snd (mark_sta_ipv4_ready no s)) = sta_retry_backoff_s s"
  "sta_connect_requested (snd (mark_sta_ipv4_ready no s)) = sta_connect_requested s"
  by (simp_all add: mark_sta_ipv4_ready_def)

lemma disconnect_keeps:
  "\<exists>n. disconnect_sta no s = s\<lparr>wm_net := n\<rparr>"
  by (cases "sta_iface s") (auto simp: disconnect_sta_def with_net_def intro: exI[of _ "wm_net s"] split: prod.splits)

lemma power_save_keeps: "\<exists>n. disable_sta_power_save no s = s\<lparr>wm_net := n\<rparr>"
  by (cases "sta_iface s") (auto simp: disable_sta_power_save_def with_net_def intro: exI[of _ "wm_net s"] split: prod.splits)

lemma connect_request:
  assumes "sta_ok (wm_sta_cfg s)"
  shows "\<exists>r n. connect_sta_request no s = Some (r, s\<lparr>wm_net := n\<rparr>) \<and>
    ((\<exists>ret. r = Inr ret) \<longleftrightarrow> sta_iface s \<noteq> None \<and> cstr (sta_ssid (wm_sta_cfg s)) \<noteq> [])"
  using assms
  by (cases "sta_iface s")
    (auto simp: connect_sta_request_def sta_ok_def c_array_def strlen_eq connect_params_def with_net_def
      intro: exI[of _ "wm_net s"] split: prod.splits)

lemma connect_result:
  "\<exists>n. connect_sta_result no ret s = (ret, s\<lparr>sta_connect_requested := (ret = 0), wm_net := n\<rparr>)"
  using power_save_keeps[of no "s\<lparr>sta_connect_requested := True\<rparr>"]
  by (auto simp: connect_sta_result_def intro: exI[of _ "wm_net s"])

lemma step_cases:
  assumes "retry_step no (pc, s) = Some (pc', s')" and "sta_ok (wm_sta_cfg s)"
  obtains (stay) "s' = s" "in_loop pc \<longrightarrow> in_loop pc'" "pc' \<noteq> Rt_Disconnected"  "\<forall>ret. pc' \<noteq> Rt_Requested ret"
      "in_loop pc' \<longrightarrow> in_loop pc \<or> sta_enabled (wm_sta_cfg s) \<and> cstr (sta_ssid (wm_sta_cfg s)) \<noteq> []"
    | (disconnect) n where "pc = Rt_Slept" "pc' = Rt_Disconnected" "s' = s\<lparr>wm_net := n\<rparr>"
    | (no_request) n where "pc = Rt_Disconnected" "pc' = Rt_Check"
        "s' = s\<lparr>wm_net := n, sta_retry_backoff_s := retry_backoff (sta_retry_backoff_s s)\<rparr>"
    | (request) n ret where "pc = Rt_Disconnected" "pc' = Rt_Requested ret" "s' = s\<lparr>wm_net := n\<rparr>"
    | (noted) n ret where "pc = Rt_Requested ret" "pc' = Rt_Check"
        "s' = s\<lparr>sta_connect_requested := (ret = 0), wm_net := n, sta_retry_backoff_s := retry_backoff (sta_retry_backoff_s s)\<rparr>"
proof (cases pc)
  case Rt_Wait_enabled
  then show ?thesis using stay assms
    by (auto simp: retry_step_def in_loop_def strlen_eq sta_ok_def c_array_def split: if_splits)
next
  case Rt_Ended
  then show ?thesis using stay assms by (auto simp: retry_step_def in_loop_def)
next
  case Rt_Check
  then show ?thesis using stay assms by (auto simp: retry_step_def in_loop_def split: if_splits)
next
  case Rt_Slept
  obtain n where "disconnect_sta no s = s\<lparr>wm_net := n\<rparr>" using disconnect_keeps[of no s] by (elim exE)
  note n = this
  show ?thesis
  proof (cases "sta_connected s \<or> sta_connect_requested s")
    case True
    then show ?thesis using Rt_Slept stay assms by (auto simp: retry_step_def in_loop_def)
  next
    case False
    then have "pc' = Rt_Disconnected" "s' = s\<lparr>wm_net := n\<rparr>" using Rt_Slept assms(1) n by (simp_all add: retry_step_def)
    then show ?thesis by (rule disconnect[OF Rt_Slept])
  qed
next
  case Rt_Disconnected
  obtain r n where r: "connect_sta_request no s = Some (r, s\<lparr>wm_net := n\<rparr>)" using connect_request[OF assms(2)] by blast
  show ?thesis
  proof (cases r)
    case (Inl ret)
    then show ?thesis using no_request[OF Rt_Disconnected, of n] r Rt_Disconnected assms(1) by (simp add: retry_step_def)
  next
    case (Inr ret)
    then show ?thesis using request[OF Rt_Disconnected, of ret n] r Rt_Disconnected assms(1) by (simp add: retry_step_def)
  qed
next
  case (Rt_Requested ret)
  obtain n where "connect_sta_result no ret s = (ret, s\<lparr>sta_connect_requested := (ret = 0), wm_net := n\<rparr>)"
    using connect_result[of no ret s] by (elim exE)
  then show ?thesis using noted[OF Rt_Requested, of n] Rt_Requested assms(1) by (simp add: retry_step_def)
qed

lemma retry_inv_step:
  assumes "retry_system no early x y" and "retry_inv cfg sti early x" and "sta_ok cfg"
  shows "retry_inv cfg sti early y"
  using assms(1)
proof cases
  case (thread pc s pc' s' due)
  have i: "wm_sta_cfg s = cfg" "sta_ok (wm_sta_cfg s)" using assms(2,3) thread(1) by (simp_all add: retry_inv_def)
  from thread(3) i(2) show ?thesis
    by (cases rule: step_cases)
      (use assms(2) thread(1,2) i(1) backoff_doubles in \<open>auto simp: retry_inv_def in_loop_def\<close>)
next
  case (result pc s st)
  then show ?thesis
    using assms(2) by (auto simp: retry_inv_def wifi_event_handler_def backoff_ok_def)
next
  case (query pc due s)
  then show ?thesis using assms(2) by (simp add: retry_inv_def wifi_manager_sta_ready_def Let_def)
qed (use assms(2) in \<open>auto simp: retry_inv_def wifi_event_handler_def ipv4_event_handler_def split: mgmt_event.splits\<close>)

section \<open>The start\<close>

text \<open>States that differ in the network only.\<close>

definition same_statics :: "'n wifi \<Rightarrow> 'n wifi \<Rightarrow> bool" where
  "same_statics s s' \<longleftrightarrow> s' = s\<lparr>wm_net := wm_net s'\<rparr>"

lemma same_statics_refl [simp]: "same_statics s s"
  by (simp add: same_statics_def)

lemma same_statics_trans: "same_statics a b \<Longrightarrow> same_statics b c \<Longrightarrow> same_statics a c"
  unfolding same_statics_def by (metis wifi.surjective wifi.update_convs(11))

lemma with_net_statics: "with_net f s = (x, s') \<Longrightarrow> same_statics s s'"
  by (auto simp: with_net_def same_statics_def split: prod.splits)

lemma snd_with_net_statics: "same_statics s (snd (with_net f s))"
  by (simp add: with_net_def same_statics_def split: prod.splits)

lemma with_net_after: "same_statics s s' \<Longrightarrow> same_statics s (snd (with_net f s'))"
  using snd_with_net_statics same_statics_trans by blast

lemma rotate_statics: "same_statics s (rotate_sta_mac no s)"
  by (auto simp: rotate_sta_mac_def Let_def split: option.splits prod.splits if_splits
      dest!: with_net_statics intro!: with_net_after) (blast intro: same_statics_trans)+

lemma dhcp_statics: "start_dhcp_server no kc api s = (r, s') \<Longrightarrow> same_statics s s'"
  by (auto simp: start_dhcp_server_def split: option.splits prod.splits if_splits
      dest!: with_net_statics intro: same_statics_trans)

lemma enable_ap_total:
  assumes "ap_ok (wm_ap_cfg s)"
  shows "\<exists>r s'. enable_ap no kc s = Some (r, s') \<and> same_statics s s'"
proof (cases "ap_iface s")
  case (Some api)
  obtain req where "connect_params (ap_ssid (wm_ap_cfg s)) (ap_psk (wm_ap_cfg s)) = Some req"
    using assms by (auto simp: connect_params_def strlen_eq ap_ok_def c_array_def)
  moreover obtain r s1 where d: "start_dhcp_server no kc api s = (r, s1)" by fastforce
  moreover obtain x s2 where "with_net (n_ap_enable no api req) s1 = (x, s2)" by fastforce
  ultimately show ?thesis
    using Some dhcp_statics[OF d] same_statics_trans[OF dhcp_statics[OF d] with_net_statics]
    by (cases "r = 0") (auto simp: enable_ap_def)
qed (simp add: enable_ap_def)

lemma connect_sta_total:
  assumes "sta_ok (wm_sta_cfg s)"
  shows "\<exists>r b n. connect_sta no s = Some (r, s\<lparr>sta_connect_requested := b, wm_net := n\<rparr>)"
proof -
  obtain r n where r: "connect_sta_request no s = Some (r, s\<lparr>wm_net := n\<rparr>)" using connect_request[OF assms] by blast
  show ?thesis
  proof (cases r)
    case (Inl ret)
    then show ?thesis using r by (auto simp: connect_sta_def intro!: exI[of _ "sta_connect_requested s"] exI[of _ n])
  next
    case (Inr ret)
    obtain m where "connect_sta_result no ret (s\<lparr>wm_net := n\<rparr>) = (ret, s\<lparr>wm_net := n\<rparr>\<lparr>sta_connect_requested := (ret = 0), wm_net := m\<rparr>)"
      using connect_result[of no ret "s\<lparr>wm_net := n\<rparr>"] by (elim exE)
    then show ?thesis using r Inr by (auto simp: connect_sta_def)
  qed
qed

text \<open>The start never leaves an object, captures the settings, and enables the retry thread whatever failed.\<close>

definition started_with :: "'s config \<Rightarrow> 'n wifi \<Rightarrow> bool" where
  "started_with c s \<longleftrightarrow> wm_sta_cfg s = sta c \<and> wm_ap_cfg s = ap c \<and> sta_retry_enabled s \<and> \<not> sta_connected s \<and>
     \<not> sta_has_addr s \<and> sta_retry_backoff_s s = 5"

lemma wifi_start_total:
  assumes "config_ok c"
  shows "\<exists>ret s'. wifi_manager_start no kc c (wifi_statics sta0 ap0 n) = Some (ret, s') \<and> started_with c s'"
proof -
  define s0 where "s0 = (wifi_statics sta0 ap0 n)\<lparr>wm_sta_cfg := sta c, wm_ap_cfg := ap c\<rparr>"
  obtain r s1 where r: "with_net (n_register_shutdown no Full_system_reset_handler) s0 = (r, s1)" by fastforce
  define s2 where "s2 = (if r \<noteq> 0 then s1 else snd (with_net (n_register_shutdown no Wifi_shutdown_handler) s1))"
  have "same_statics s0 s2"
    using with_net_statics[OF r] snd_with_net_statics[of s1] same_statics_trans by (auto simp: s2_def)
  then obtain n2 where s2: "s2 = s0\<lparr>wm_net := n2\<rparr>" unfolding same_statics_def by (rule that)
  define s3 where "s3 = s2\<lparr>wm_net := n_add_callbacks no (wm_net s2)\<rparr>"
  define s4 where "s4 = s3\<lparr>ap_iface := n_sap no (wm_net s3), sta_iface := n_sta no (wm_net s3)\<rparr>"
  define s5 where "s5 = rotate_sta_mac no s4"
  have "same_statics s4 s5" by (simp add: rotate_statics s5_def)
  then obtain n5 where s5: "s5 = s4\<lparr>wm_net := n5\<rparr>" unfolding same_statics_def by (rule that)
  have five: "wm_sta_cfg s5 = sta c" "wm_ap_cfg s5 = ap c" "\<not> sta_connected s5" "\<not> sta_has_addr s5" "sta_retry_backoff_s s5 = 5"
    by (simp_all add: s5 s4_def s3_def s2 s0_def wifi_statics_def)
  have ok: "ap_ok (wm_ap_cfg s5)" "sta_ok (sta c)" using assms five by (simp_all add: config_ok_def)
  obtain r6 s6 where six: "(if kc_ap_enable kc then enable_ap no kc s5 else Some (0, s5)) = Some (r6, s6)" "same_statics s5 s6"
    using enable_ap_total[OF ok(1), of no kc] by (cases "kc_ap_enable kc") auto
  obtain n6 where s6: "s6 = s5\<lparr>wm_net := n6\<rparr>" using six(2) unfolding same_statics_def by (rule that)
  have start: "wifi_manager_start no kc c (wifi_statics sta0 ap0 n) =
    do {
      (ret, s) \<leftarrow> Some (r6, s6);
      (ret, s) \<leftarrow>
        (if sta_enabled (wm_sta_cfg s) then
           do { (sta_ret, s) \<leftarrow> connect_sta no (disconnect_sta no s);
                Some (if sta_ret \<noteq> 0 \<and> ret = 0 then sta_ret else ret, s) }
         else Some (ret, s));
      Some (ret, s\<lparr>sta_retry_enabled := True\<rparr>)
    }"
    unfolding six(1)[symmetric] s5_def s4_def s3_def s2_def
    using r by (simp add: wifi_manager_start_def Let_def s0_def bridge_config_get_sta_def bridge_config_get_ap_def)
  show ?thesis
  proof (cases "sta_enabled (wm_sta_cfg s6)")
    case False
    then show ?thesis using five by (simp add: start s6 started_with_def)
  next
    case True
    obtain n7 where d: "disconnect_sta no s6 = s6\<lparr>wm_net := n7\<rparr>" using disconnect_keeps[of no s6] by (elim exE)
    define s7 where "s7 = disconnect_sta no s6"
    have s7: "s7 = s5\<lparr>wm_net := n7\<rparr>" using d by (simp add: s7_def s6)
    have "sta_ok (wm_sta_cfg s7)" using ok(2) five by (simp add: s7)
    from connect_sta_total[OF this, of no] obtain sr b m where
      "connect_sta no s7 = Some (sr, s7\<lparr>sta_connect_requested := b, wm_net := m\<rparr>)" by blast
    then show ?thesis using five True unfolding start s7_def[symmetric] by (simp add: s7_def[symmetric]) (simp add: s7 started_with_def)
  qed
qed

lemma retry_reachable:
  assumes "wifi_manager_start no kc c (wifi_statics sta0 ap0 n) = Some (ret, s0)" and "config_ok c"
    and "(retry_system no early)\<^sup>*\<^sup>* (retry_start s0) x"
  shows "retry_inv (sta c) (sta_iface s0) early x"
proof -
  have "started_with c s0" using wifi_start_total[OF assms(2), of no kc sta0 ap0 n] assms(1) by simp
  then have "retry_inv (sta c) (sta_iface s0) early (retry_start s0)"
    by (simp add: retry_inv_def retry_start_def started_with_def backoff_ok_def in_loop_def)
  moreover have "sta_ok (sta c)" using assms(2) by (simp add: config_ok_def)
  ultimately show ?thesis
    using assms(3) by (induction rule: rtranclp_induct[OF assms(3)]) (use retry_inv_step in blast)+
qed

section \<open>Properties\<close>

text \<open>C12. The station keeps retrying. After the start with any valid configuration, over every interleaving of the retry
  thread, the events and the queries in which the driver delivers the result of a connect request after the request has
  returned: as long as the module takes a connection to be on its way, the driver owes a result; the delay is 5, 10, 20,
  40 or 60 seconds; and a thread that finds the station neither connected nor on its way makes
  the next request in three steps.\<close>

theorem wifi_retry_never_stalls:
  assumes "wifi_manager_start no kc c (wifi_statics sta0 ap0 n) = Some (ret, s0)" and "config_ok c"
    and "(retry_system no False)\<^sup>*\<^sup>* (retry_start s0) (pc, due, s)"
  shows "(sta_connect_requested s \<longrightarrow> due) \<and> backoff_ok (sta_retry_backoff_s s) \<and>
    (pc = Rt_Check \<and> \<not> sta_connected s \<and> \<not> due \<and> sta_iface s \<noteq> None \<longrightarrow>
       (\<exists>s1 ret s2. retry_step no (Rt_Check, s) = Some (Rt_Slept, s) \<and>
          retry_step no (Rt_Slept, s) = Some (Rt_Disconnected, s1) \<and>
          retry_step no (Rt_Disconnected, s1) = Some (Rt_Requested ret, s2)))"
proof -
  have i: "retry_inv (sta c) (sta_iface s0) False (pc, due, s)" by (rule retry_reachable[OF assms])
  have "\<exists>s1 ret s2. retry_step no (Rt_Check, s) = Some (Rt_Slept, s) \<and> retry_step no (Rt_Slept, s) = Some (Rt_Disconnected, s1) \<and>
      retry_step no (Rt_Disconnected, s1) = Some (Rt_Requested ret, s2)"
    if h: "pc = Rt_Check" "\<not> sta_connected s" "\<not> due" "sta_iface s \<noteq> None"
  proof -
    have c: "\<not> sta_connect_requested s" "cstr (sta_ssid (wm_sta_cfg s)) \<noteq> []" "sta_ok (wm_sta_cfg s)"
      using i h assms(2) by (simp_all add: retry_inv_def in_loop_def config_ok_def)
    obtain m where d: "disconnect_sta no s = s\<lparr>wm_net := m\<rparr>" using disconnect_keeps[of no s] by (elim exE)
    obtain r k where "connect_sta_request no (s\<lparr>wm_net := m\<rparr>) = Some (Inr r, s\<lparr>wm_net := k\<rparr>)"
      using connect_request[of "s\<lparr>wm_net := m\<rparr>" no] c h(4) by auto
    then show ?thesis using h c d by (simp add: retry_step_def)
  qed
  then show ?thesis using i by (auto simp: retry_inv_def)
qed

text \<open>A network that accepts everything and counts the connect requests.\<close>

definition demo_wifi_net :: "nat net_ops" where
  "demo_wifi_net = \<lparr>n_sap = (\<lambda>n. Some 1), n_sta = (\<lambda>n. Some 2), n_unicast = (\<lambda>i n. Some []), n_get_gw = (\<lambda>i n. 0),
     n_set_gw = (\<lambda>i a n. n), n_addr_add = (\<lambda>i a n. (True, n)), n_set_netmask = (\<lambda>i a m n. (True, n)),
     n_dhcp_server_start = (\<lambda>i a n. (0, n)), n_ap_enable = (\<lambda>i r n. (0, n)), n_connect = (\<lambda>i r n. (0, Suc n)),
     n_disconnect = (\<lambda>i n. (0, n)), n_power_save_off = (\<lambda>i n. (0, n)), n_set_sta_mode = (\<lambda>n. (0, n)),
     n_link_addr = (\<lambda>i n. None), n_rand = (\<lambda>n. ((0, 0, 0), n)), n_admin_up = (\<lambda>i n. True), n_if_down = (\<lambda>i n. (0, n)),
     n_if_up = (\<lambda>i n. (0, n)), n_set_mac = (\<lambda>i a n. (0, n)), n_iface_status = (\<lambda>i n. (0, False, 0)),
     n_register_shutdown = (\<lambda>h n. (0, n)), n_add_callbacks = (\<lambda>n. n), n_pton = (\<lambda>s. Some 0xC0A80401), n_ntop = (\<lambda>a. [])\<rparr>"

definition demo_wifi_build :: wifi_build where
  "demo_wifi_build = \<lparr>kc_ap_enable = True, kc_ap_ip = ''192.168.4.1'', kc_ap_netmask = ''255.255.255.0''\<rparr>"

definition demo_station :: bridge_config_sta where
  "demo_station = \<lparr>sta_enabled = True, rotate_mac = False, sta_ssid = bytes_of ''net'' @ replicate 30 0, sta_psk = replicate 64 0\<rparr>"

definition wifi_config :: "alist_store config" where
  "wifi_config = (config_boot demo_defaults [])\<lparr>sta := demo_station\<rparr>"

definition demo_wifi :: "nat wifi" where
  "demo_wifi = snd (the (wifi_manager_start demo_wifi_net demo_wifi_build wifi_config (wifi_statics demo_sta demo_ap 0)))"

lemma demo_station_ok: "sta_ok demo_station"
  by (simp add: demo_station_def sta_ok_def c_array_def terminated_def psk_ok_def bytes_of_def cstr_Cons lead_conts_def)

lemma wifi_config_ok: "config_ok wifi_config"
  using demo_inv demo_station_ok by (simp add: wifi_config_def config_inv_def config_ok_def)

lemma demo_ap_params: "\<exists>q. connect_params (ap_ssid demo_ap) (ap_psk demo_ap) = Some q"
  using demo_configs_ok(3) by (simp add: connect_params_def strlen_eq ap_ok_def c_array_def)

lemma demo_station_params:
  "strlen (sta_ssid demo_station) = Some 3" "strlen (sta_psk demo_station) = Some 0"
  by (simp_all add: strlen_eq demo_station_def terminated_def bytes_of_def cstr_Cons)

lemma demo_wifi_eq:
  "wifi_manager_start demo_wifi_net demo_wifi_build wifi_config (wifi_statics demo_sta demo_ap 0) = Some (0, demo_wifi)"
  "demo_wifi = (wifi_statics demo_sta demo_ap 0)\<lparr>wm_sta_cfg := demo_station, wm_ap_cfg := demo_ap, ap_iface := Some 1,
     sta_iface := Some 2, sta_connect_requested := True, sta_retry_enabled := True, wm_net := 1\<rparr>"
proof -
  obtain q where q: "connect_params (ap_ssid demo_ap) (ap_psk demo_ap) = Some q" using demo_ap_params by blast
  have st: "sta_enabled demo_station" "\<not> rotate_mac demo_station" by (simp_all add: demo_station_def)
  have "wifi_manager_start demo_wifi_net demo_wifi_build wifi_config (wifi_statics demo_sta demo_ap 0) =
    Some (0, (wifi_statics demo_sta demo_ap 0)\<lparr>wm_sta_cfg := demo_station, wm_ap_cfg := demo_ap, ap_iface := Some 1,
     sta_iface := Some 2, sta_connect_requested := True, sta_retry_enabled := True, wm_net := 1\<rparr>)"
    using q st demo_station_params
    by (simp add: wifi_manager_start_def Let_def demo_wifi_net_def demo_wifi_build_def wifi_config_def wifi_statics_def with_net_def
        bridge_config_get_sta_def bridge_config_get_ap_def config_boot_def demo_defaults_def rotate_sta_mac_def enable_ap_def
        start_dhcp_server_def disconnect_sta_def connect_sta_def connect_sta_request_def connect_params_def
        connect_sta_result_def disable_sta_power_save_def)
  then show "wifi_manager_start demo_wifi_net demo_wifi_build wifi_config (wifi_statics demo_sta demo_ap 0) = Some (0, demo_wifi)"
    "demo_wifi = (wifi_statics demo_sta demo_ap 0)\<lparr>wm_sta_cfg := demo_station, wm_ap_cfg := demo_ap, ap_iface := Some 1,
     sta_iface := Some 2, sta_connect_requested := True, sta_retry_enabled := True, wm_net := 1\<rparr>"
    by (simp_all add: demo_wifi_def)
qed

text \<open>The first attempt fails; the thread is then in its loop with nothing on its way.\<close>

definition demo_failed :: "nat wifi" where
  "demo_failed = demo_wifi\<lparr>sta_connect_requested := False\<rparr>"

lemma demo_fails:
  "(retry_system demo_wifi_net early)\<^sup>*\<^sup>* (retry_start demo_wifi) (Rt_Check, False, demo_failed)"
proof -
  have req: "sta_connect_requested demo_wifi" by (simp add: demo_wifi_eq(2))
  have h: "wifi_event_handler demo_wifi_net (Wifi_connect_result (Some 1)) (sta_iface demo_wifi) demo_wifi = demo_failed"
    by (simp add: wifi_event_handler_def sta_gone_def demo_failed_def demo_wifi_eq(2) wifi_statics_def)
  have "retry_system demo_wifi_net early (retry_start demo_wifi) (Rt_Wait_enabled, False, demo_failed)"
    using retry_system.result[of early Rt_Wait_enabled demo_wifi_net demo_wifi "Some 1"]
    by (simp add: h retry_start_def req)
  moreover have "retry_step demo_wifi_net (Rt_Wait_enabled, demo_failed) = Some (Rt_Check, demo_failed)"
    using demo_station_params by (simp add: retry_step_def demo_failed_def demo_wifi_eq(2)) (simp add: demo_station_def)
  then have "retry_system demo_wifi_net early (Rt_Wait_enabled, False, demo_failed) (Rt_Check, False, demo_failed)"
    using retry_system.thread[of demo_wifi_net Rt_Wait_enabled demo_failed Rt_Check demo_failed early False] by simp
  ultimately show ?thesis by (meson r_into_rtranclp rtranclp_trans)
qed

theorem wifi_retry_never_stalls_witness:
  "\<exists>s1 ret s2. retry_step demo_wifi_net (Rt_Check, demo_failed) = Some (Rt_Slept, demo_failed) \<and>
     retry_step demo_wifi_net (Rt_Slept, demo_failed) = Some (Rt_Disconnected, s1) \<and>
     retry_step demo_wifi_net (Rt_Disconnected, s1) = Some (Rt_Requested ret, s2)"
proof -
  have "\<not> sta_connected demo_failed" "sta_iface demo_failed \<noteq> None"
    by (simp_all add: demo_failed_def demo_wifi_eq(2) wifi_statics_def)
  then show ?thesis
    using wifi_retry_never_stalls[OF demo_wifi_eq(1) wifi_config_ok demo_fails] by simp
qed

text \<open>C39. The result of a connect request that arrives before the module has noted its request stalls the station. In
  some interleaving in which the driver reports the failure of an attempt between the return of the request and the
  assignment that notes it, the thread ends up waiting for a result that no longer comes: the station is not
  connected, nothing is owed, and the thread stays in its loop for ever.\<close>

theorem early_result_stalls_retry:
  "\<exists>s. (retry_system demo_wifi_net True)\<^sup>*\<^sup>* (retry_start demo_wifi) (Rt_Check, False, s) \<and>
     \<not> sta_connected s \<and> sta_connect_requested s \<and>
     retry_step demo_wifi_net (Rt_Check, s) = Some (Rt_Check, s)"
proof -
  define s1 where "s1 = demo_failed\<lparr>wm_net := 2\<rparr>"
  define s2 where "s2 = demo_failed\<lparr>sta_connect_requested := True, wm_net := 2, sta_retry_backoff_s := 10\<rparr>"
  have f: "\<not> sta_connected demo_failed" "\<not> sta_connect_requested demo_failed" "sta_iface demo_failed = Some 2"
    "wm_sta_cfg demo_failed = demo_station" "sta_retry_backoff_s demo_failed = 5" "wm_net demo_failed = 1"
    by (simp_all add: demo_failed_def demo_wifi_eq(2) wifi_statics_def)
  have d: "disconnect_sta demo_wifi_net demo_failed = demo_failed"
    by (simp add: disconnect_sta_def with_net_def demo_wifi_net_def f(3))
  have steps: "retry_step demo_wifi_net (Rt_Check, demo_failed) = Some (Rt_Slept, demo_failed)"
    "retry_step demo_wifi_net (Rt_Slept, demo_failed) = Some (Rt_Disconnected, demo_failed)"
    by (simp_all add: retry_step_def f d)
  have "retry_step demo_wifi_net (Rt_Disconnected, demo_failed) = Some (Rt_Requested 0, s1)"
    using demo_station_params
    by (simp add: retry_step_def f connect_sta_request_def connect_params_def with_net_def demo_wifi_net_def s1_def numeral_2_eq_2)
  note steps = steps this
  have noted: "retry_step demo_wifi_net (Rt_Requested 0, s1) = Some (Rt_Check, s2)"
    by (simp add: retry_step_def connect_sta_result_def disable_sta_power_save_def with_net_def demo_wifi_net_def s1_def s2_def f
        retry_backoff_def)
  have h: "wifi_event_handler demo_wifi_net (Wifi_connect_result (Some 1)) (sta_iface s1) s1 = s1"
    by (simp add: wifi_event_handler_def sta_gone_def s1_def demo_failed_def demo_wifi_eq(2) wifi_statics_def)
  let ?r = "retry_system demo_wifi_net True"
  have "?r (Rt_Check, False, demo_failed) (Rt_Slept, False, demo_failed)"
    "?r (Rt_Slept, False, demo_failed) (Rt_Disconnected, False, demo_failed)"
    "?r (Rt_Disconnected, False, demo_failed) (Rt_Requested 0, True, s1)"
    using steps[THEN retry_system.thread[of demo_wifi_net, where early = True and due = False]] by simp_all
  moreover have "?r (Rt_Requested 0, True, s1) (Rt_Requested 0, False, s1)"
    using retry_system.result[of True "Rt_Requested 0" demo_wifi_net s1 "Some 1"] h by simp
  moreover have "?r (Rt_Requested 0, False, s1) (Rt_Check, False, s2)"
    using retry_system.thread[OF noted, of True False] by simp
  ultimately have "?r\<^sup>*\<^sup>* (retry_start demo_wifi) (Rt_Check, False, s2)"
    using demo_fails[of True] by (meson rtranclp.rtrancl_into_rtrancl)
  moreover have "\<not> sta_connected s2" "sta_connect_requested s2" using f by (simp_all add: s2_def)
  ultimately show ?thesis by (intro exI[of _ s2]) (simp add: retry_step_def)
qed

end
