(* ===== verification/Bridge_Main.thy ===== *)
theory Bridge_Main
  imports Web_App Tcp_Nmea_Client Wifi_Manager Status_Led
begin

text \<open>
  The start-up and the live configuration, \<open>src/src/main.c\<close>: \<open>main\<close> brings the parts up in order, and the
  listener it registers passes every live change of the configuration on to the receiver and to the TCP client. Settings
  that take effect at boot only are captured by the Wi-Fi manager and by \<open>apply_hostname\<close>.

  A \<open>device\<close> holds the state of the parts; what the hardware and the build answer is a \<open>platform\<close>. The
  threads that are defined statically run from boot on; the model counts the ones that the start functions create.
  \<open>stats_thread\<close> only writes to the log.
\<close>

section \<open>Translation\<close>

record 'n platform =
  pf_hostname_dynamic :: bool
  pf_net_hostname_set :: "byte list \<Rightarrow> rc"
  pf_has_strip :: bool
  pf_strip_ready :: bool
  pf_now_ms :: int
  pf_uart_ready :: bool
  pf_server_enable :: bool
  pf_web_enable :: bool
  pf_wifi :: wifi_build
  pf_net :: "'n net_ops"

record ('q, 's) firmware =
  fw_nmea :: nmea_cfg
  fw_msgq :: "('q, nmea_frame) msgq_ops"
  fw_settings :: "'s settings_ops"
  fw_name_max :: nat

datatype created_thread = Status_led_tid | Uart_nmea_tid | Tcp_nmea_server_tid

record ('q, 's, 'n, 'v) device =
  dv_config :: "'s config"
  dv_uart :: "('q, status_led) uart"
  dv_uart_started :: bool
  dv_client :: nmea_client
  dv_client_start :: "bool \<times> nat"
  dv_server :: "'v server"
  dv_web_start :: "bool \<times> nat"
  dv_wifi :: "'n wifi"
  dv_led :: status_led
  dv_hostname :: "byte list option"
  dv_threads :: "created_thread list"

text \<open>\<open>bridge_config_changed\<close>, with \<open>tcp_nmea_client_config_changed\<close>; the client sees the configuration in force.\<close>

definition tcp_nmea_client_config_changed :: "'s config \<Rightarrow> nmea_client \<Rightarrow> nmea_client option" where
  "tcp_nmea_client_config_changed c cl =
     (let cfg = bridge_config_get_tcp_client c in config_changed_locked cfg (cl\<lparr>live_cfg := cfg\<rparr>))"

definition bridge_config_changed :: "('q, 's, 'n, 'v) device \<Rightarrow> ('q, 's, 'n, 'v) device option" where
  "bridge_config_changed dv =
     (let ais_cfg = bridge_config_get_ais (dv_config dv);
          dv = dv\<lparr>dv_uart := uart_nmea_set_ais_config (filter_enabled ais_cfg) (cfg_own_mmsi ais_cfg) (dv_uart dv)\<rparr>
      in do { cl \<leftarrow> tcp_nmea_client_config_changed (dv_config dv) (dv_client dv); Some (dv\<lparr>dv_client := cl\<rparr>) })"

text \<open>\<open>dv_hostname\<close> is the name the network was given, if it took it.\<close>

definition apply_hostname :: "'n platform \<Rightarrow> ('q, 's, 'n, 'v) device \<Rightarrow> ('q, 's, 'n, 'v) device option" where
  "apply_hostname pf dv =
     (if \<not> pf_hostname_dynamic pf then Some dv
      else
        (let sys_cfg = bridge_config_get_system (dv_config dv) in
         do {
           n \<leftarrow> strlen (hostname sys_cfg);
           let name = take n (hostname sys_cfg);
           Some (if pf_net_hostname_set pf name \<noteq> 0 then dv else dv\<lparr>dv_hostname := Some name\<rparr>)
         }))"

definition note_thread :: "bool \<Rightarrow> created_thread \<Rightarrow> ('q, 's, 'n, 'v) device \<Rightarrow> ('q, 's, 'n, 'v) device" where
  "note_thread created t dv = (if created then dv\<lparr>dv_threads := dv_threads dv @ [t]\<rparr> else dv)"

lemma note_thread_simps [simp]:
  "note_thread False t dv = dv" "note_thread True t dv = dv\<lparr>dv_threads := dv_threads dv @ [t]\<rparr>"
  by (simp_all add: note_thread_def)

text \<open>The network part of \<open>main\<close>: every failure is only logged.\<close>

definition start_network :: "'n platform \<Rightarrow> ('q, 's, 'n, 'v) device \<Rightarrow> (rc \<times> ('q, 's, 'n, 'v) device) option" where
  "start_network pf dv =
     do {
       (ret, w) \<leftarrow> wifi_manager_start (pf_net pf) (pf_wifi pf) (dv_config dv) (dv_wifi dv);
       let dv = dv\<lparr>dv_wifi := w\<rparr>;
       let (ret, sv, created) = tcp_nmea_server_start (pf_server_enable pf) (dv_server dv);
       let dv = note_thread created Tcp_nmea_server_tid (dv\<lparr>dv_server := sv\<rparr>);
       let (ret, st) = tcp_nmea_client_start (dv_client_start dv);
       let dv = dv\<lparr>dv_client_start := st\<rparr>;
       let (ret, st) = web_app_start (pf_web_enable pf) (dv_web_start dv);
       Some (0, dv\<lparr>dv_web_start := st\<rparr>)
     }"

definition main :: "('q, 's) firmware \<Rightarrow> 'n platform \<Rightarrow> ('q, 's, 'n, 'v) device \<Rightarrow> (rc \<times> ('q, 's, 'n, 'v) device) option" where
  "main fw pf dv =
     (let dv = dv\<lparr>dv_uart := (dv_uart dv)\<lparr>uart_bridge := nmea_bridge_init (fw_nmea fw) (fw_msgq fw)\<rparr>\<rparr> in
      do {
        (ret, c) \<leftarrow> bridge_config_init (fw_settings fw) (dv_config dv);
        let dv = dv\<lparr>dv_config := bridge_config_set_listener True c\<rparr>;
        dv \<leftarrow> bridge_config_changed dv;
        dv \<leftarrow> apply_hostname pf dv;
        let (ret, led, created) = status_led_start (pf_has_strip pf) (pf_strip_ready pf) (pf_now_ms pf) (dv_led dv);
        let dv = note_thread created Status_led_tid (dv\<lparr>dv_led := led\<rparr>);
        let (ret, started, created) = uart_nmea_start (pf_uart_ready pf) (dv_uart_started dv);
        let dv = note_thread created Uart_nmea_tid (dv\<lparr>dv_uart_started := started\<rparr>);
        if ret \<noteq> 0 then Some (ret, dv) else start_network pf dv
      })"

text \<open>The statics before \<open>main\<close>; \<open>frame\<close> is the uninitialised buffer of the receiver.\<close>

definition device_statics ::
  "config_defaults \<Rightarrow> 's \<Rightarrow> byte list \<Rightarrow> 'q bridge \<Rightarrow> status_led \<Rightarrow> nat \<Rightarrow> 'v \<Rightarrow> 'n \<Rightarrow> ('q, 's, 'n, 'v) device"
where
  "device_statics d s frame br led slots sv net =
     \<lparr>dv_config = config_boot d s, dv_uart = uart_start frame br led, dv_uart_started = False,
      dv_client = client_statics (d_tcp_client d) led, dv_client_start = (False, 0), dv_server = server_boot slots sv,
      dv_web_start = (False, 0), dv_wifi = wifi_statics (d_sta d) (d_ap d) net, dv_led = led, dv_hostname = None,
      dv_threads = []\<rparr>"

section \<open>The running device\<close>

text \<open>A call of the web thread to the configuration. The setter calls the listener before it returns when the
  value of a live setting has changed; the client reads the configuration in force.\<close>

definition device_call :: "('q, 's) firmware \<Rightarrow> config_call \<Rightarrow> ('q, 's, 'n, 'v) device \<Rightarrow> (rc \<times> ('q, 's, 'n, 'v) device) option" where
  "device_call fw e dv =
     do {
       (ret, c) \<leftarrow> config_step (fw_settings fw) (fw_name_max fw) e (dv_config dv);
       let called = notifications c > notifications (dv_config dv);
       let dv = dv\<lparr>dv_config := c, dv_client := (dv_client dv)\<lparr>live_cfg := tcp_client c\<rparr>\<rparr>;
       dv \<leftarrow> (if called then bridge_config_changed dv else Some dv);
       Some (ret, dv)
     }"

text \<open>Calls of the web thread, rounds of the receiver and steps of the client.\<close>

inductive device_system ::
  "('q, 's) firmware \<Rightarrow> (byte list \<Rightarrow> u32 option) \<Rightarrow> ('q, 's, 'n, 'v) device \<Rightarrow> ('q, 's, 'n, 'v) device \<Rightarrow> bool" for fw pton
where
  call: "device_call fw e dv = Some (ret, dv') \<Longrightarrow> call_sized e \<Longrightarrow> (\<And>l. e \<noteq> SetListener l) \<Longrightarrow> device_system fw pton dv dv'"
| receive: "rx_round (fw_nmea fw) (fw_msgq fw) led_frame ready (dv_uart dv) = Some u \<Longrightarrow>
    device_system fw pton dv (dv\<lparr>dv_uart := u\<rparr>)"
| connect: "client_thread_step pton inp (dv_client dv) = Some cl \<Longrightarrow> device_system fw pton dv (dv\<lparr>dv_client := cl\<rparr>)"

inductive_cases device_systemE: "device_system fw pton dv dv'"

section \<open>What a call changes\<close>

text \<open>The settings a running device has taken over at boot.\<close>

definition boot_settings :: "'s config \<Rightarrow> bridge_config_sta \<times> bridge_config_ap \<times> bridge_config_system" where
  "boot_settings c = (sta c, ap c, system_cfg c)"

definition call_effect :: "'s config \<Rightarrow> 's config \<Rightarrow> bool" where
  "call_effect c c' \<longleftrightarrow> listener c' = listener c \<and> (reboot_required c \<longrightarrow> reboot_required c') \<and>
     (boot_settings c' = boot_settings c \<or> reboot_required c') \<and> notifications c \<le> notifications c' \<and>
     (listener c \<longrightarrow> notifications c' = notifications c \<longrightarrow> ais c' = ais c \<and> tcp_norm (tcp_client c') = tcp_norm (tcp_client c))"

lemma setter_effect:
  assumes "setter_result ops key record valid same upd c = Some (r, c')"
    and "\<And>s. factory_reset_pending c \<or> \<not> same \<Longrightarrow> call_effect c (upd (c\<lparr>store := s\<rparr>))"
  shows "call_effect c c'"
  using assms by (auto simp: setter_result_def call_effect_def boot_settings_def split: if_splits prod.splits)

lemma call_effect_refl: "call_effect c c"
  by (simp add: call_effect_def)

lemma step_effect:
  assumes "config_step ops name_max e c = Some (r, c')" and "config_ok c" and "call_sized e" and "\<And>l. e \<noteq> SetListener l"
  shows "call_effect c c'"
proof -
  have ok: "sta_ok (sta c)" "ap_ok (ap c)" "system_ok (system_cfg c)" "tcp_ok (tcp_client c)"
    using assms(2) by (simp_all add: config_ok_def)
  note effect = call_effect_def boot_settings_def
  consider "e \<in> {config_call.SetAis None, SetSta None, SetAp None, SetSystem None, SetTcpClient None}" | n where "e = config_call.SetAis (Some n)"
    | n where "e = SetSta (Some n)" | n where "e = SetAp (Some n)" | n where "e = SetSystem (Some n)"
    | n where "e = SetTcpClient (Some n)" | "e = FactoryReset"
    using assms(4) by (cases e) (auto simp: not_None_eq)
  then show ?thesis
  proof cases
    case 1
    then have "c' = c"
      using assms(1) by (auto simp: bridge_config_set_ais_def bridge_config_set_sta_def bridge_config_set_ap_def
          bridge_config_set_system_def bridge_config_set_tcp_client_def)
    then show ?thesis by (simp add: call_effect_refl)
  next
    case (2 n)
    show ?thesis
      by (rule setter_effect[OF assms(1)[unfolded 2 config_step.simps set_ais_eq]]) (auto simp: effect)
  next
    case (3 n)
    have "sta_sized n" using assms(3) 3 by simp
    show ?thesis
      by (rule setter_effect[OF assms(1)[unfolded 3 config_step.simps set_sta_eq[OF ok(1) \<open>sta_sized n\<close>]]]) (auto simp: effect)
  next
    case (4 n)
    have "ap_sized n" using assms(3) 4 by simp
    show ?thesis
      by (rule setter_effect[OF assms(1)[unfolded 4 config_step.simps set_ap_eq[OF ok(2) \<open>ap_sized n\<close>]]]) (auto simp: effect)
  next
    case (5 n)
    have "system_sized n" using assms(3) 5 by simp
    show ?thesis
      by (rule setter_effect[OF assms(1)[unfolded 5 config_step.simps set_system_eq[OF ok(3) \<open>system_sized n\<close>]]])
        (auto simp: effect)
  next
    case (6 n)
    have "tcp_sized n" using assms(3) 6 by simp
    show ?thesis
      by (rule setter_effect[OF assms(1)[unfolded 6 config_step.simps set_tcp_eq[OF ok(4) \<open>tcp_sized n\<close>]]]) (auto simp: effect)
  next
    case 7
    then show ?thesis using assms(1)
      by (auto simp: bridge_config_factory_reset_def effect Let_def split: bind_splits if_splits)
  qed
qed

section \<open>The invariant\<close>

definition effective_mmsi :: "bridge_config_ais \<Rightarrow> u32" where
  "effective_mmsi a = (if filter_enabled a then cfg_own_mmsi a else 0)"

definition device_inv ::
  "config_defaults \<Rightarrow> ('s \<Rightarrow> settings_name \<Rightarrow> byte list option) \<Rightarrow> ('s \<Rightarrow> bool) \<Rightarrow> nmea_cfg
    \<Rightarrow> bridge_config_sta \<times> bridge_config_ap \<times> bridge_config_system \<Rightarrow> ('q, 's, 'n, 'v) device \<Rightarrow> bool"
where
  "device_inv d view sok cfg taken dv \<longleftrightarrow>
     config_inv d view sok (dv_config dv) \<and> listener (dv_config dv) \<and> uart_inv cfg (dv_uart dv) \<and>
     ais_effective_mmsi (dv_uart dv) = effective_mmsi (ais (dv_config dv)) \<and>
     seen_cfg_valid (dv_client dv) \<and> tcp_ok (seen_cfg (dv_client dv)) \<and>
     tcp_same (seen_cfg (dv_client dv)) (tcp_client (dv_config dv)) \<and>
     (reboot_required (dv_config dv) \<or> boot_settings (dv_config dv) = taken)"

lemma tcp_same_norm: "tcp_same a b \<longleftrightarrow> tcp_norm a = tcp_norm b"
  by (auto simp: tcp_same_def tcp_norm_eq_iff)

lemma config_changed_total:
  assumes "config_ok (dv_config dv)" and "seen_cfg_valid (dv_client dv) \<longrightarrow> tcp_ok (seen_cfg (dv_client dv))"
  shows "\<exists>cl. bridge_config_changed dv =
      Some (dv\<lparr>dv_uart := (dv_uart dv)\<lparr>ais_effective_mmsi := effective_mmsi (ais (dv_config dv))\<rparr>, dv_client := cl\<rparr>) \<and>
    seen_cfg_valid cl \<and> seen_cfg cl = tcp_client (dv_config dv)"
proof -
  have ok: "tcp_ok (tcp_client (dv_config dv))" using assms(1) by (simp add: config_ok_def)
  have "\<exists>b. tcp_cfg_changed ((dv_client dv)\<lparr>live_cfg := tcp_client (dv_config dv)\<rparr>) (tcp_client (dv_config dv)) = Some b"
  proof (cases "seen_cfg_valid (dv_client dv)")
    case True
    then show ?thesis using assms(2) ok
        tcp_cfg_changed_eq[of "(dv_client dv)\<lparr>live_cfg := tcp_client (dv_config dv)\<rparr>" "tcp_client (dv_config dv)"]
      by simp
  qed (auto simp: tcp_cfg_changed_def)
  then show ?thesis
    by (auto simp: bridge_config_changed_def Let_def bridge_config_get_ais_def tcp_nmea_client_config_changed_def
        bridge_config_get_tcp_client_def config_changed_locked_def uart_nmea_set_ais_config_def effective_mmsi_def
        sem_give_def zsock_shutdown_def)
qed

lemma rx_round_keeps:
  assumes "uart_inv cfg u" and "rx_round cfg ops led_frame bs u = Some u'"
  shows "uart_inv cfg u' \<and> ais_effective_mmsi u' = ais_effective_mmsi u \<and> own_mmsi (ais_filter u') = ais_effective_mmsi u"
  using assms(2) rx_bytes_inv[OF apply_config_inv(1)[OF assms(1)], of ops led_frame bs] apply_config_inv(2,3)[OF assms(1)]
  by (auto simp: rx_round_def uart_inv_def)

lemma device_call_inv:
  assumes "settings_store (fw_settings fw) view sok" and "device_inv d view sok (fw_nmea fw) taken dv"
    and "call_sized e" and "\<And>l. e \<noteq> SetListener l"
  shows "\<exists>ret dv'. device_call fw e dv = Some (ret, dv') \<and> device_inv d view sok (fw_nmea fw) taken dv' \<and>
    dv_wifi dv' = dv_wifi dv \<and> dv_hostname dv' = dv_hostname dv"
proof -
  note i = assms(2)[unfolded device_inv_def]
  obtain r c where c: "config_step (fw_settings fw) (fw_name_max fw) e (dv_config dv) = Some (r, c)" "config_inv d view sok c"
    using settings_store.step_inv[OF assms(1), of d "dv_config dv" e] i assms(3) by blast
  have "config_ok (dv_config dv)" using i by (simp add: config_inv_def)
  note eff = step_effect[OF c(1) this assms(3,4), unfolded call_effect_def]
  define dv1 where "dv1 = dv\<lparr>dv_config := c, dv_client := (dv_client dv)\<lparr>live_cfg := tcp_client c\<rparr>\<rparr>"
  have call: "device_call fw e dv = do {
      dv \<leftarrow> (if notifications c > notifications (dv_config dv) then bridge_config_changed dv1 else Some dv1); Some (r, dv) }"
    by (simp add: device_call_def c(1) dv1_def)
  have ok: "config_ok c" using c(2) by (simp add: config_inv_def)
  have taken: "listener c" "reboot_required c \<or> boot_settings c = taken" using eff i by auto
  show ?thesis
  proof (cases "notifications c > notifications (dv_config dv)")
    case True
    obtain cl where cl: "bridge_config_changed dv1 = Some (dv1\<lparr>dv_uart := (dv_uart dv1)\<lparr>ais_effective_mmsi :=
        effective_mmsi (ais (dv_config dv1))\<rparr>, dv_client := cl\<rparr>)" "seen_cfg_valid cl" "seen_cfg cl = tcp_client (dv_config dv1)"
      using config_changed_total[of dv1] ok i by (auto simp: dv1_def)
    define dv' where "dv' = dv1\<lparr>dv_uart := (dv_uart dv1)\<lparr>ais_effective_mmsi := effective_mmsi (ais (dv_config dv1))\<rparr>, dv_client := cl\<rparr>"
    have dv': "bridge_config_changed dv1 = Some dv'" "dv_config dv' = c" "dv_wifi dv' = dv_wifi dv"
      "dv_hostname dv' = dv_hostname dv" "dv_uart dv' = (dv_uart dv)\<lparr>ais_effective_mmsi := effective_mmsi (ais c)\<rparr>"
      "seen_cfg_valid (dv_client dv')" "seen_cfg (dv_client dv') = tcp_client c"
      using cl by (simp_all add: dv'_def dv1_def)
    have "uart_inv (fw_nmea fw) (dv_uart dv')" using i dv'(5) by (simp add: uart_inv_def uart_ok_def)
    then have "device_inv d view sok (fw_nmea fw) taken dv'"
      using c(2) taken dv' ok tcp_same_equiv(1) by (simp add: device_inv_def config_ok_def)
    then show ?thesis using True call dv' by simp
  next
    case False
    then have n: "notifications c = notifications (dv_config dv)" using eff by simp
    then have "ais c = ais (dv_config dv)" "tcp_norm (tcp_client c) = tcp_norm (tcp_client (dv_config dv))"
      using eff i by simp_all
    then have "device_inv d view sok (fw_nmea fw) taken dv1"
      using i c(2) taken by (simp add: device_inv_def dv1_def tcp_same_norm)
    then show ?thesis using False call by (simp add: dv1_def)
  qed
qed

lemma device_step_inv:
  assumes "device_system fw pton dv dv'" and "settings_store (fw_settings fw) view sok"
    and "device_inv d view sok (fw_nmea fw) taken dv"
  shows "device_inv d view sok (fw_nmea fw) taken dv' \<and> dv_wifi dv' = dv_wifi dv \<and> dv_hostname dv' = dv_hostname dv"
  using assms(1)
proof cases
  case (call e ret)
  then show ?thesis using device_call_inv[OF assms(2,3), of e] by auto
next
  case (receive led_frame ready u)
  then show ?thesis using assms(3) rx_round_keeps[of "fw_nmea fw" "dv_uart dv" "fw_msgq fw" led_frame ready u]
    by (simp add: device_inv_def)
next
  case (connect inp cl)
  then show ?thesis using assms(3) thread_cfg_kept[of pton inp "dv_client dv" cl] by (simp add: device_inv_def)
qed

lemma device_reachable:
  assumes "(device_system fw pton)\<^sup>*\<^sup>* dv dv'" and "settings_store (fw_settings fw) view sok"
    and "device_inv d view sok (fw_nmea fw) taken dv"
  shows "device_inv d view sok (fw_nmea fw) taken dv' \<and> dv_wifi dv' = dv_wifi dv \<and> dv_hostname dv' = dv_hostname dv"
  using assms(1)
  by (induction rule: rtranclp_induct) (use assms(3) device_step_inv[OF _ assms(2)] in \<open>simp, metis\<close>)

section \<open>Start-up\<close>

lemma apply_hostname_eq:
  assumes "config_ok (dv_config dv)"
  shows "apply_hostname pf dv = Some (dv\<lparr>dv_hostname :=
    if pf_hostname_dynamic pf \<and> pf_net_hostname_set pf (cstr (hostname (system_cfg (dv_config dv)))) = 0
    then Some (cstr (hostname (system_cfg (dv_config dv)))) else dv_hostname dv\<rparr>)"
proof -
  have "terminated (hostname (system_cfg (dv_config dv)))" using assms by (simp add: config_ok_def system_ok_def c_array_def)
  then show ?thesis
    by (simp add: apply_hostname_def bridge_config_get_system_def strlen_eq take_cstr Let_def)
qed

text \<open>The threads that \<open>main\<close> creates.\<close>

definition first_threads :: "'n platform \<Rightarrow> created_thread list" where
  "first_threads pf = (if pf_has_strip pf \<and> pf_strip_ready pf then [Status_led_tid] else [])"

definition network_up :: "'n platform \<Rightarrow> ('q, 's, 'n, 'v) device \<Rightarrow> bool" where
  "network_up pf dv \<longleftrightarrow> dv_uart_started dv \<and> started_with (dv_config dv) (dv_wifi dv) \<and>
     dv_threads dv = first_threads pf @ [Uart_nmea_tid] @ (if pf_server_enable pf then [Tcp_nmea_server_tid] else []) \<and>
     dv_client_start dv = (True, 1) \<and> dv_web_start dv = (pf_web_enable pf, if pf_web_enable pf then 1 else 0)"

lemma start_network_total:
  assumes "config_ok (dv_config dv)" and "dv_wifi dv = wifi_statics sta0 ap0 n" and "dv_client_start dv = (False, 0)"
    and "dv_web_start dv = (False, 0)" and "\<not> server_started (dv_server dv)" and "dv_uart_started dv"
    and "dv_threads dv = first_threads pf @ [Uart_nmea_tid]"
  shows "\<exists>dv'. start_network pf dv = Some (0, dv') \<and> network_up pf dv' \<and> dv_config dv' = dv_config dv \<and>
    dv_uart dv' = dv_uart dv \<and> dv_client dv' = dv_client dv \<and> dv_hostname dv' = dv_hostname dv"
proof -
  obtain ret w where w: "wifi_manager_start (pf_net pf) (pf_wifi pf) (dv_config dv) (dv_wifi dv) = Some (ret, w)"
    "started_with (dv_config dv) w"
    using wifi_start_total[OF assms(1), of "pf_net pf" "pf_wifi pf" sta0 ap0 n] assms(2) by auto
  show ?thesis
    by (auto simp: start_network_def w(1) tcp_nmea_server_start_def assms(3-7) tcp_nmea_client_start_def web_app_start_def
        note_thread_def network_up_def w(2))
qed

lemma main_total:
  assumes "settings_store (fw_settings fw) view sok" and "sok s" and "defaults_ok d" and "cfg_ok (fw_nmea fw)"
    and "length frame = frame_max_len (fw_nmea fw)" and "\<not> status_led_running led"
  shows "\<exists>ret dv. main fw pf (device_statics d s frame br led slots sv net) = Some (ret, dv) \<and>
    device_inv d view sok (fw_nmea fw) (boot_settings (dv_config dv)) dv \<and> eff (dv_config dv) = boot_eff d (view s) \<and>
    dv_hostname dv = (if pf_hostname_dynamic pf \<and> pf_net_hostname_set pf (cstr (hostname (system_cfg (dv_config dv)))) = 0
      then Some (cstr (hostname (system_cfg (dv_config dv)))) else None) \<and>
    (if pf_uart_ready pf then ret = 0 \<and> network_up pf dv
     else ret = - ENODEV \<and> dv_threads dv = first_threads pf \<and> dv_wifi dv = wifi_statics (d_sta d) (d_ap d) net \<and>
       dv_client_start dv = (False, 0) \<and> dv_web_start dv = (False, 0))"
proof -
  let ?dv = "device_statics d s frame br led slots sv net"
  obtain c where c: "bridge_config_init (fw_settings fw) (config_boot d s) = Some (0, c)" "config_inv d view sok c" "eff c = boot_eff d (view s)"
    using settings_store.init_config[OF assms(1-3)] by blast
  define c1 where "c1 = bridge_config_set_listener True c"
  have inv: "config_inv d view sok c1" "listener c1" "eff c1 = boot_eff d (view s)"
    using c(2,3) by (simp_all add: c1_def bridge_config_set_listener_def config_inv_def config_ok_def eff_def)
  have ok: "config_ok c1" using inv(1) by (simp add: config_inv_def)
  define dv1 where "dv1 = ?dv\<lparr>dv_uart := (dv_uart ?dv)\<lparr>uart_bridge := nmea_bridge_init (fw_nmea fw) (fw_msgq fw)\<rparr>, dv_config := c1\<rparr>"
  have "\<not> seen_cfg_valid (dv_client dv1)" by (simp add: dv1_def device_statics_def client_statics_def)
  then obtain cl where cl: "bridge_config_changed dv1 = Some (dv1\<lparr>dv_uart := (dv_uart dv1)\<lparr>ais_effective_mmsi :=
      effective_mmsi (ais c1)\<rparr>, dv_client := cl\<rparr>)" "seen_cfg_valid cl" "seen_cfg cl = tcp_client c1"
    using config_changed_total[of dv1] ok that by (auto simp: dv1_def)
  define h where "h = (if pf_hostname_dynamic pf \<and> pf_net_hostname_set pf (cstr (hostname (system_cfg c1))) = 0
    then Some (cstr (hostname (system_cfg c1))) else None)"
  define dv2 where "dv2 = dv1\<lparr>dv_uart := (dv_uart dv1)\<lparr>ais_effective_mmsi := effective_mmsi (ais c1)\<rparr>, dv_client := cl,
    dv_hostname := h\<rparr>"
  have "apply_hostname pf (dv1\<lparr>dv_uart := (dv_uart dv1)\<lparr>ais_effective_mmsi := effective_mmsi (ais c1)\<rparr>, dv_client := cl\<rparr>) = Some dv2"
    using ok by (simp add: apply_hostname_eq dv2_def h_def dv1_def device_statics_def)
  then have m: "main fw pf ?dv = do {
      let (ret, led, created) = status_led_start (pf_has_strip pf) (pf_strip_ready pf) (pf_now_ms pf) (dv_led dv2);
      let dv = note_thread created Status_led_tid (dv2\<lparr>dv_led := led\<rparr>);
      let (ret, started, created) = uart_nmea_start (pf_uart_ready pf) (dv_uart_started dv);
      let dv = note_thread created Uart_nmea_tid (dv\<lparr>dv_uart_started := started\<rparr>);
      if ret \<noteq> 0 then Some (ret, dv) else start_network pf dv
    }"
    using c(1) cl(1) by (simp add: main_def dv1_def c1_def Let_def) (simp add: device_statics_def)
  obtain r led' created where led: "status_led_start (pf_has_strip pf) (pf_strip_ready pf) (pf_now_ms pf) (dv_led dv2) = (r, led', created)"
    by (metis prod_cases3)
  have created: "created = (pf_has_strip pf \<and> pf_strip_ready pf)"
    using led assms(6) by (auto simp: status_led_start_def dv2_def dv1_def device_statics_def split: if_splits)
  define dv3 where "dv3 = note_thread created Status_led_tid (dv2\<lparr>dv_led := led'\<rparr>)"
  have dv3: "dv_config dv3 = c1" "dv_client dv3 = cl" "dv_uart dv3 = dv_uart dv2" "dv_hostname dv3 = h"
    "dv_threads dv3 = first_threads pf" "dv_wifi dv3 = wifi_statics (d_sta d) (d_ap d) net" "dv_client_start dv3 = (False, 0)"
    "dv_web_start dv3 = (False, 0)" "\<not> server_started (dv_server dv3)" "\<not> dv_uart_started dv3"
    by (auto simp: dv3_def note_thread_def dv2_def dv1_def device_statics_def created first_threads_def server_boot_def)
  have "uart_inv (fw_nmea fw) (uart_start frame br led)"
    using assms(4,5) by (simp add: uart_inv_def uart_ok_def uart_start_def filter_ok_cleared) (simp add: cleared_filter_def)
  then have "uart_inv (fw_nmea fw) (dv_uart dv3)" "ais_effective_mmsi (dv_uart dv3) = effective_mmsi (ais c1)"
    by (simp_all add: dv3(3) dv2_def dv1_def device_statics_def uart_inv_def uart_ok_def)
  then have dinv: "device_inv d view sok (fw_nmea fw) (boot_settings c1) dv" if "dv_config dv = c1" "dv_client dv = cl" "dv_uart dv = dv_uart dv3"
    for dv
    using inv(1,2) ok cl that tcp_same_equiv(1) by (simp add: device_inv_def config_ok_def)
  show ?thesis
  proof (cases "pf_uart_ready pf")
    case False
    have "main fw pf ?dv = Some (- ENODEV, dv3\<lparr>dv_uart_started := False\<rparr>)"
      using False dv3(10) by (simp add: m led dv3_def[symmetric] uart_nmea_start_def ENODEV_def)
    moreover have "device_inv d view sok (fw_nmea fw) (boot_settings c1) (dv3\<lparr>dv_uart_started := False\<rparr>)"
      by (rule dinv) (simp_all add: dv3)
    ultimately show ?thesis using False dv3 inv(3) by (simp add: h_def)
  next
    case True
    define dv4 where "dv4 = dv3\<lparr>dv_uart_started := True, dv_threads := first_threads pf @ [Uart_nmea_tid]\<rparr>"
    have "main fw pf ?dv = start_network pf dv4"
      using True dv3(5,10) by (simp add: m led dv3_def[symmetric] uart_nmea_start_def dv4_def)
    moreover obtain dv' where dv': "start_network pf dv4 = Some (0, dv')" "network_up pf dv'" "dv_config dv' = c1"
        "dv_uart dv' = dv_uart dv3" "dv_client dv' = cl" "dv_hostname dv' = h"
      using start_network_total[of dv4 "d_sta d" "d_ap d" net pf] ok dv3 by (auto simp: dv4_def)
    moreover have "device_inv d view sok (fw_nmea fw) (boot_settings c1) dv'"
      by (rule dinv) (simp_all add: dv')
    ultimately show ?thesis using True inv(3) by (simp add: h_def)
  qed
qed

section \<open>Properties\<close>


text \<open>C5. Live or flagged. After the start, over every interleaving of configuration calls, rounds of the receiver and steps
  of the TCP client: the receiver filters with the AIS setting in force, from its next round on also the filter; the
  client knows the TCP client settings in force; and the station, access point and host name settings in force are the
  ones the Wi-Fi manager and the network run with, unless the configuration says that a reboot is required.\<close>

theorem settings_live_or_flagged:
  assumes "settings_store (fw_settings fw) view sok" and "sok s" and "defaults_ok d" and "cfg_ok (fw_nmea fw)"
    and "length frame = frame_max_len (fw_nmea fw)" and "\<not> status_led_running led" and "pf_uart_ready pf"
    and "main fw pf (device_statics d s frame br led slots sv net) = Some (ret, dv0)"
    and "(device_system fw pton)\<^sup>*\<^sup>* dv0 dv"
  shows "ais_effective_mmsi (dv_uart dv) = effective_mmsi (ais (dv_config dv)) \<and>
    (\<forall>u. rx_round (fw_nmea fw) (fw_msgq fw) led_frame ready (dv_uart dv) = Some u \<longrightarrow>
       own_mmsi (ais_filter u) = effective_mmsi (ais (dv_config dv))) \<and>
    tcp_same (seen_cfg (dv_client dv)) (tcp_client (dv_config dv)) \<and>
    (bridge_config_reboot_required (dv_config dv) \<or>
     wm_sta_cfg (dv_wifi dv) = sta (dv_config dv) \<and> wm_ap_cfg (dv_wifi dv) = ap (dv_config dv) \<and>
     (dv_hostname dv \<noteq> None \<longrightarrow> dv_hostname dv = Some (cstr (hostname (system_cfg (dv_config dv))))))"
proof -
  have m: "device_inv d view sok (fw_nmea fw) (boot_settings (dv_config dv0)) dv0" "network_up pf dv0"
    "dv_hostname dv0 \<noteq> None \<longrightarrow> dv_hostname dv0 = Some (cstr (hostname (system_cfg (dv_config dv0))))"
    using main_total[OF assms(1-6), of pf br slots sv net] assms(7,8) by (auto split: if_splits)
  note r = device_reachable[OF assms(9,1) m(1)]
  then have "uart_inv (fw_nmea fw) (dv_uart dv)" "ais_effective_mmsi (dv_uart dv) = effective_mmsi (ais (dv_config dv))"
    by (simp_all add: device_inv_def)
  moreover have "reboot_required (dv_config dv) \<or> boot_settings (dv_config dv) = boot_settings (dv_config dv0)"
    using r by (simp add: device_inv_def)
  then have "bridge_config_reboot_required (dv_config dv) \<or>
     wm_sta_cfg (dv_wifi dv) = sta (dv_config dv) \<and> wm_ap_cfg (dv_wifi dv) = ap (dv_config dv) \<and>
     (dv_hostname dv \<noteq> None \<longrightarrow> dv_hostname dv = Some (cstr (hostname (system_cfg (dv_config dv)))))"
    using r m(2,3) by (auto simp: bridge_config_reboot_required_def boot_settings_def network_up_def started_with_def)
  ultimately show ?thesis
    using r rx_round_keeps[of "fw_nmea fw" "dv_uart dv" "fw_msgq fw" led_frame ready] by (auto simp: device_inv_def)
qed


text \<open>A device with everything built in; the network and the hardware accept everything.\<close>

definition demo_platform :: "nat platform" where
  "demo_platform = \<lparr>pf_hostname_dynamic = True, pf_net_hostname_set = (\<lambda>n. 0), pf_has_strip = True, pf_strip_ready = True,
     pf_now_ms = 0, pf_uart_ready = True, pf_server_enable = True, pf_web_enable = True, pf_wifi = demo_wifi_build,
     pf_net = demo_wifi_net\<rparr>"

definition demo_firmware :: "(nmea_frame ring, alist_store) firmware" where
  "demo_firmware = \<lparr>fw_nmea = small_cfg, fw_msgq = ring_ops, fw_settings = alist_ops, fw_name_max = 64\<rparr>"

definition demo_device :: "(nmea_frame ring, alist_store, nat, nat) device" where
  "demo_device = device_statics demo_defaults [] (replicate 32 0) (nmea_bridge_init small_cfg ring_ops)
     (demo_led\<lparr>status_led_running := False\<rparr>) 2 0 0"

definition own_ship :: bridge_config_ais where
  "own_ship = \<lparr>filter_enabled = True, cfg_own_mmsi = 211234567\<rparr>"

lemma demo_firmware_ok:
  "settings_store (fw_settings demo_firmware) map_of alist_ok" "alist_ok []" "cfg_ok (fw_nmea demo_firmware)"
  "length (replicate 32 (0 :: byte)) = frame_max_len (fw_nmea demo_firmware)" "\<not> status_led_running (demo_led\<lparr>status_led_running := False\<rparr>)"
  "pf_uart_ready demo_platform"
  using alist.settings_store_axioms
  by (simp_all add: demo_firmware_def alist_ok_def small_cfg_def cfg_ok_def demo_platform_def)


lemma alist_set_ais:
  assumes "ais_ok a"
  shows "\<exists>c'. bridge_config_set_ais alist_ops (Some a) c = Some (0, c') \<and> ais c' = a"
  using assms by (auto simp: set_ais_eq setter_result_def alist_ops_def)

lemma config_changed_config: "bridge_config_changed dv = Some dv' \<Longrightarrow> dv_config dv' = dv_config dv"
  by (auto simp: bridge_config_changed_def Let_def split: bind_splits)

lemma device_set_ais:
  assumes "device_call fw (config_call.SetAis (Some a)) dv = Some (ret, dv')" and "fw_settings fw = alist_ops" and "ais_ok a"
  shows "ret = 0 \<and> ais (dv_config dv') = a"
  using assms alist_set_ais[OF assms(3), of "dv_config dv"]
  by (auto simp: device_call_def Let_def split: bind_splits if_splits dest!: config_changed_config)

theorem settings_live_or_flagged_witness:
  "\<exists>dv0 dv. main demo_firmware demo_platform demo_device = Some (0, dv0) \<and>
     device_call demo_firmware (config_call.SetAis (Some own_ship)) dv0 = Some (0, dv) \<and>
     ais_effective_mmsi (dv_uart dv) = 211234567"
proof -
  obtain ret dv0 where m: "main demo_firmware demo_platform demo_device = Some (ret, dv0)" "ret = 0"
    "device_inv demo_defaults map_of alist_ok (fw_nmea demo_firmware) (boot_settings (dv_config dv0)) dv0"
    using main_total[OF demo_firmware_ok(1,2) demo_defaults_ok demo_firmware_ok(3-5), of demo_platform
        "nmea_bridge_init small_cfg ring_ops" 2 0 0] demo_firmware_ok(6)
    unfolding demo_device_def by auto
  obtain r dv where c: "device_call demo_firmware (config_call.SetAis (Some own_ship)) dv0 = Some (r, dv)"
    using device_call_inv[OF demo_firmware_ok(1) m(3), of "config_call.SetAis (Some own_ship)"] by auto
  have own: "ais_ok own_ship" by (simp add: ais_ok_def own_ship_def BRIDGE_CONFIG_AIS_MMSI_MAX_def)
  have set: "r = 0" "ais (dv_config dv) = own_ship"
    using device_set_ais[OF c _ own] by (simp_all add: demo_firmware_def)
  have "(device_system demo_firmware demo_pton)\<^sup>*\<^sup>* dv0 dv"
    using device_system.call[OF c, of demo_pton] by simp
  then have "ais_effective_mmsi (dv_uart dv) = effective_mmsi own_ship"
    using settings_live_or_flagged[OF demo_firmware_ok(1,2) demo_defaults_ok demo_firmware_ok(3-6)
        m(1)[unfolded demo_device_def]] set(2) by simp
  then show ?thesis using m(1,2) c set(1) by (auto simp: effective_mmsi_def own_ship_def)
qed

end
