(* ===== verification/Nmea_Bridge_Interleaving.thy ===== *)
theory Nmea_Bridge_Interleaving
  imports Nmea_Bridge
begin

text \<open>
  The three kernel calls of \<open>put_drop_oldest\<close> are not atomic: no lock covers the ingest queue,
  and \<open>nmea_bridge_sink_take\<close> reads a sink queue outside \<open>sinks_lock\<close>. Each queue has one
  producer (the UART thread for the ingest queue, the dispatcher for the sinks) and one
  consumer. The step relation \<open>race_step\<close> interleaves the producer's calls one by one with the
  gets of the consumer; ghost fields record what was offered, what was taken and how many
  frames were really lost.
\<close>

section \<open>The step relation\<close>

datatype 'm producer_pc = Idle | PutFailed 'm | DroppedOne 'm

record ('q, 'm) race =
  race_queue :: 'q
  race_pc :: "'m producer_pc"
  drop_counter :: u32
  offered :: "'m list"
  taken :: "'m list"
  lost :: nat

fun pending :: "'m producer_pc \<Rightarrow> 'm list" where
  "pending Idle = []"
| "pending (PutFailed m) = [m]"
| "pending (DroppedOne m) = [m]"

inductive race_step :: "('q, 'm) msgq_ops \<Rightarrow> ('q, 'm) race \<Rightarrow> ('q, 'm) race \<Rightarrow> bool"
  for ops :: "('q, 'm) msgq_ops"
where
  put: "race_pc s = Idle \<Longrightarrow> mq_put ops (race_queue s) m = (0, q) \<Longrightarrow>
    race_step ops s (s\<lparr>race_queue := q, offered := offered s @ [m]\<rparr>)"
| put_fails: "race_pc s = Idle \<Longrightarrow> mq_put ops (race_queue s) m = (r, q) \<Longrightarrow> r \<noteq> 0 \<Longrightarrow>
    race_step ops s (s\<lparr>race_queue := q, race_pc := PutFailed m, offered := offered s @ [m]\<rparr>)"
| drop_oldest: "race_pc s = PutFailed m \<Longrightarrow> mq_get ops (race_queue s) K_NO_WAIT = (x, q) \<Longrightarrow>
    race_step ops s (s\<lparr>race_queue := q, race_pc := DroppedOne m, drop_counter := drop_counter s + 1,
      lost := lost s + (case x of Inl _ \<Rightarrow> 0 | Inr _ \<Rightarrow> 1)\<rparr>)"
| put_again: "race_pc s = DroppedOne m \<Longrightarrow> mq_put ops (race_queue s) m = (r, q) \<Longrightarrow>
    race_step ops s (s\<lparr>race_queue := q, race_pc := Idle,
      drop_counter := drop_counter s + (if r \<noteq> 0 then 1 else 0),
      lost := lost s + (if r \<noteq> 0 then 1 else 0)\<rparr>)"
| take: "mq_get ops (race_queue s) t = (Inr m, q) \<Longrightarrow>
    race_step ops s (s\<lparr>race_queue := q, taken := taken s @ [m]\<rparr>)"

inductive_cases race_stepE: "race_step ops s s'"

definition race_start :: "'q \<Rightarrow> ('q, 'm) race" where
  "race_start q = \<lparr>race_queue = q, race_pc = Idle, drop_counter = 0, offered = [], taken = [], lost = 0\<rparr>"

text \<open>Without interference the steps of the producer are \<open>put_drop_oldest\<close>.\<close>

lemma put_drop_oldest_steps:
  assumes "put_drop_oldest ops (race_queue s) m (drop_counter s) = (q, c)" and "race_pc s = Idle"
  shows "\<exists>n. (race_step ops)\<^sup>*\<^sup>* s
    (s\<lparr>race_queue := q, drop_counter := c, offered := offered s @ [m], lost := n\<rparr>)"
proof -
  obtain r q1 where p1: "mq_put ops (race_queue s) m = (r, q1)" by fastforce
  show ?thesis
  proof (cases "r = 0")
    case True
    have "race_step ops s (s\<lparr>race_queue := q1, offered := offered s @ [m]\<rparr>)"
      using race_step.put[OF assms(2), of ops m q1] p1 True by simp
    moreover have "s\<lparr>race_queue := q1, offered := offered s @ [m]\<rparr> =
        s\<lparr>race_queue := q, drop_counter := c, offered := offered s @ [m], lost := lost s\<rparr>"
      using assms p1 True by (cases s) (simp add: put_drop_oldest_def)
    ultimately show ?thesis by (metis r_into_rtranclp)
  next
    case False
    let ?s1 = "s\<lparr>race_queue := q1, race_pc := PutFailed m, offered := offered s @ [m]\<rparr>"
    obtain x q2 where p2: "mq_get ops q1 K_NO_WAIT = (x, q2)" by fastforce
    obtain r' q3 where p3: "mq_put ops q2 m = (r', q3)" by fastforce
    have 1: "race_step ops s ?s1" using race_step.put_fails[OF assms(2) p1 False] .
    have 2: "race_step ops ?s1 (?s1\<lparr>race_queue := q2, race_pc := DroppedOne m,
        drop_counter := drop_counter s + 1, lost := lost s + (case x of Inl _ \<Rightarrow> 0 | Inr _ \<Rightarrow> 1)\<rparr>)" (is "race_step _ _ ?s2")
      using race_step.drop_oldest[of ?s1 m ops x q2] p2 by simp
    have 3: "race_step ops ?s2 (?s2\<lparr>race_queue := q3, race_pc := Idle,
        drop_counter := drop_counter ?s2 + (if r' \<noteq> 0 then 1 else 0),
        lost := lost ?s2 + (if r' \<noteq> 0 then 1 else 0)\<rparr>)" (is "race_step _ _ ?s3")
      using race_step.put_again[of ?s2 m ops r' q3] p3 by simp
    have "q = q3" "c = drop_counter ?s3"
      using assms(1) p1 False p2 p3 by (auto simp: put_drop_oldest_def Let_def)
    then have "?s3 = s\<lparr>race_queue := q, drop_counter := c, offered := offered s @ [m], lost := lost ?s3\<rparr>"
      using assms(2) by (cases s) simp
    moreover have "(race_step ops)\<^sup>*\<^sup>* s ?s3"
      by (rule converse_rtranclp_into_rtranclp[of "race_step ops", OF 1],
          rule converse_rtranclp_into_rtranclp[of "race_step ops", OF 2],
          rule r_into_rtranclp[of "race_step ops", OF 3])
    ultimately show ?thesis by metis
  qed
qed

section \<open>The invariant\<close>

definition race_ok ::
  "('q \<Rightarrow> 'm list) \<Rightarrow> ('q \<Rightarrow> nat) \<Rightarrow> ('q \<Rightarrow> bool) \<Rightarrow> nat \<Rightarrow> ('q, 'm) race \<Rightarrow> bool"
where
  "race_ok view cap qinv n s \<longleftrightarrow>
     qinv (race_queue s) \<and> cap (race_queue s) = n \<and>
     (\<forall>m. race_pc s = DroppedOne m \<longrightarrow> length (view (race_queue s)) < n) \<and>
     subseq (taken s @ view (race_queue s) @ pending (race_pc s)) (offered s) \<and>
     length (offered s) =
       length (taken s) + length (view (race_queue s)) + length (pending (race_pc s)) + lost s \<and>
     (\<exists>k. drop_counter s = of_nat (lost s + k))"

context msgq
begin

lemma put_cases:
  assumes "qinv q" and "mq_put ops q m = (r, q')"
  shows "if length (view q) < cap q then r = 0 \<and> qinv q' \<and> view q' = view q @ [m] \<and> cap q' = cap q
    else r \<noteq> 0 \<and> q' = q"
proof (cases "length (view q) < cap q")
  case True
  then show ?thesis using put_ok[OF assms(1), of m] assms(2) by auto
next
  case False
  then have "length (view q) = cap q" using bound[OF assms(1)] by simp
  then show ?thesis using put_full[OF assms(1), of m] assms(2) False by auto
qed

lemma get_cases:
  assumes "qinv q" and "mq_get ops q t = (x, q')"
  shows "case view q of [] \<Rightarrow> (\<exists>e. x = Inl e) \<and> q' = q
    | m # ms \<Rightarrow> x = Inr m \<and> qinv q' \<and> view q' = ms \<and> cap q' = cap q"
proof (cases "view q")
  case Nil
  then show ?thesis using get_empty[OF assms(1), of t] assms(2) by auto
next
  case (Cons m ms)
  then show ?thesis using get_ok[OF assms(1), of m ms t] assms(2) by auto
qed

lemma subseq_skip: "subseq (xs @ y # zs) os \<Longrightarrow> subseq (xs @ zs) os"
  by (rule subseq_order.trans[of _ "xs @ y # zs"]) (auto intro: list_emb_append_mono)

lemma subseq_snoc: "subseq (xs @ ys) os \<Longrightarrow> subseq (xs @ ys @ [m]) (os @ [m])"
  using list_emb_append_mono[OF _ subseq_order.refl[of "[m]"], of "xs @ ys" os] by simp

lemma race_ok_step:
  assumes "race_step ops s s'" and "race_ok view cap qinv n s" and "0 < n"
  shows "race_ok view cap qinv n s'"
  using assms
proof (cases rule: race_step.cases)
  case (put m q)
  then show ?thesis
    using put_cases[of "race_queue s" m 0 q] assms(2)
    by (auto simp: race_ok_def split: if_splits intro: subseq_snoc)
next
  case (put_fails m r q)
  then show ?thesis
    using put_cases[of "race_queue s" m r q] assms(2)
    by (auto simp: race_ok_def split: if_splits intro: subseq_snoc)
next
  case (drop_oldest m x q)
  obtain k where k: "drop_counter s = of_nat (lost s + k)" using assms(2) by (auto simp: race_ok_def)
  have "drop_counter s + 1 = of_nat (lost s + Suc k)" "drop_counter s + 1 = of_nat (Suc (lost s) + k)"
    by (simp_all add: k)
  then have c: "\<exists>k. drop_counter s + 1 = of_nat (lost s + k)"
      "\<exists>k. drop_counter s + 1 = of_nat (Suc (lost s) + k)"
    by blast+
  show ?thesis
    using drop_oldest get_cases[of "race_queue s" K_NO_WAIT x q] assms(2,3) c bound[of "race_queue s"]
    by (cases "view (race_queue s)") (auto simp: race_ok_def dest: subseq_skip)
next
  case (put_again m r q)
  then show ?thesis
    using put_cases[of "race_queue s" m r q] assms(2)
    by (auto simp: race_ok_def split: if_splits)
next
  case (take t m q)
  then show ?thesis
    using get_cases[of "race_queue s" t "Inr m" q] assms(2)
    by (cases "view (race_queue s)") (auto simp: race_ok_def)
qed

lemma race_ok_reach:
  assumes "(race_step ops)\<^sup>*\<^sup>* (race_start (mq_init ops n)) s" and "0 < n"
  shows "race_ok view cap qinv n s"
  using assms(1)
proof (induction rule: rtranclp_induct)
  case base
  then show ?case using init[OF assms(2)] by (auto simp: race_ok_def race_start_def intro: exI[of _ 0])
next
  case (step s s')
  then show ?case using race_ok_step assms(2) by blast
qed

end

section \<open>Properties\<close>


text \<open>The producer finds a queue of two full, the consumer empties it, the producer drops
  nothing and counts one.\<close>

definition drained :: "nat ring \<Rightarrow> (nat ring, nat) race" where
  "drained q = \<lparr>race_queue = q, race_pc = DroppedOne 12, drop_counter = 1, offered = [10, 11, 12],
     taken = [10, 11], lost = 0\<rparr>"

lemma drained_reachable:
  "(race_step ring_ops)\<^sup>*\<^sup>* (race_start (ring_init 2))
     (drained \<lparr>ring_slots = [Some 10, Some 11], ring_read = 0, ring_used = 0\<rparr>)"
proof -
  let ?q = "\<lambda>slots r u. \<lparr>ring_slots = slots, ring_read = r, ring_used = u\<rparr> :: nat ring"
  let ?s = "\<lambda>q pc c os ts. \<lparr>race_queue = q, race_pc = pc, drop_counter = c, offered = os, taken = ts,
      lost = 0\<rparr> :: (nat ring, nat) race"
  let ?full = "?q [Some 10, Some 11]"
  note ring = ring_put_def ring_get_def ring_max_def errno_defs
  have "(race_step ring_ops)\<^sup>*\<^sup>* (race_start (ring_init 2)) (?s (?q [Some 10, None] 0 1) Idle 0 [10] [])"
    using race_step.put[of "race_start (ring_init 2)" ring_ops 10 "?q [Some 10, None] 0 1"]
    by (intro r_into_rtranclp) (simp add: race_start_def ring_init_def numeral_2_eq_2 ring)
  also have "race_step ring_ops \<dots> (?s (?full 0 2) Idle 0 [10, 11] [])"
    using race_step.put[of "?s (?q [Some 10, None] 0 1) Idle 0 [10] []" ring_ops 11 "?full 0 2"]
    by (simp add: ring numeral_2_eq_2)
  also have "race_step ring_ops \<dots> (?s (?full 0 2) (PutFailed 12) 0 [10, 11, 12] [])"
    using race_step.put_fails[of "?s (?full 0 2) Idle 0 [10, 11] []" ring_ops 12 "- ENOMSG" "?full 0 2"]
    by (simp add: ring)
  also have "race_step ring_ops \<dots> (?s (?full 1 1) (PutFailed 12) 0 [10, 11, 12] [10])"
    using race_step.take[of ring_ops "?s (?full 0 2) (PutFailed 12) 0 [10, 11, 12] []" K_FOREVER 10 "?full 1 1"]
    by (simp add: ring numeral_2_eq_2)
  also have "race_step ring_ops \<dots> (?s (?full 0 0) (PutFailed 12) 0 [10, 11, 12] [10, 11])"
    using race_step.take[of ring_ops "?s (?full 1 1) (PutFailed 12) 0 [10, 11, 12] [10]" K_FOREVER 11 "?full 0 0"]
    by (simp add: ring numeral_2_eq_2)
  also have "race_step ring_ops \<dots> (drained (?full 0 0))"
    using race_step.drop_oldest[of "?s (?full 0 0) (PutFailed 12) 0 [10, 11, 12] [10, 11]" 12 ring_ops
        "Inl (- ENOMSG)" "?full 0 0"]
    by (simp add: ring drained_def)
  finally show ?thesis .
qed


text \<open>C38. The drop counter may overcount: in some interleaving the consumer empties the queue
  between the failed put and the drop, so the counter rises although no frame is lost.\<close>

theorem drop_counter_may_overcount:
  "\<exists>s. (race_step ring_ops)\<^sup>*\<^sup>* (race_start (mq_init ring_ops 2)) s \<and>
     drop_counter s = 1 \<and> lost s = 0 \<and> taken s @ pending (race_pc s) = (offered s :: nat list)"
  using drained_reachable by (intro exI[of _ "drained _"] conjI) (auto simp: drained_def)

end
