(* ===== verification/Tcp_Nmea_System.thy ===== *)
theory Tcp_Nmea_System
  imports Tcp_Nmea_Session
begin

text \<open>
  The bridge with its TCP sessions as one system: producers publish, the dispatcher runs, peers
  connect, the network moves, and every session thread takes its steps, in any order. Only
  sessions open, drain and close sinks. A step of the system is a step of one of these; the
  invariant ties each running session to the slot of its own, what it sent to what its slot
  delivered, and the counters to the number of running sessions.
\<close>

section \<open>The system\<close>

record ('q, 'w) nmea_system =
  sy_trace :: "'q traced"
  sy_active :: u32
  sy_led :: status_led
  sy_sessions :: "'w session list"

definition sy_shared :: "('q, 'w) nmea_system \<Rightarrow> 'q shared" where
  "sy_shared y = \<lparr>sh_bridge = tr_bridge (sy_trace y), active_sessions = sy_active y, sh_led = sy_led y\<rparr>"

text \<open>The call into the bridge that the next step of a session makes.\<close>

definition session_call :: "string option \<Rightarrow> 'w session \<Rightarrow> bridge_call option" where
  "session_call sink_name s =
     (case se_pc s of
        At_Open \<Rightarrow> Some (SinkOpen (Some (se_sink s)) sink_name)
      | At_Take \<Rightarrow> Some (SinkTake (Some (se_sink s)) True (K_MSEC 250))
      | At_End \<Rightarrow> Some (SinkClose (Some (se_sink s)))
      | _ \<Rightarrow> None)"

definition traced_call ::
  "nmea_cfg \<Rightarrow> ('q, nmea_frame) msgq_ops \<Rightarrow> bridge_call option \<Rightarrow> 'q traced \<Rightarrow> 'q traced"
where
  "traced_call cfg ops c t = (case c of None \<Rightarrow> t | Some ev \<Rightarrow> bridge_event cfg ops ev t)"

definition system_start :: "nmea_cfg \<Rightarrow> ('q, nmea_frame) msgq_ops \<Rightarrow> status_led \<Rightarrow> ('q, 'w) nmea_system" where
  "system_start cfg ops led = \<lparr>sy_trace = traced_init cfg ops, sy_active = 0, sy_led = led, sy_sessions = []\<rparr>"

inductive system_step ::
  "nmea_cfg \<Rightarrow> ('q, nmea_frame) msgq_ops \<Rightarrow> 'w sock_ops \<Rightarrow> ('w \<Rightarrow> byte list) \<Rightarrow>
    ('q, 'w) nmea_system \<Rightarrow> ('q, 'w) nmea_system \<Rightarrow> bool"
  for cfg ops so wire
where
  publish: "call_ok (Publish data len) \<Longrightarrow>
    system_step cfg ops so wire y (y\<lparr>sy_trace := bridge_event cfg ops (Publish data len) (sy_trace y)\<rparr>)"
| dispatch:
    "system_step cfg ops so wire y (y\<lparr>sy_trace := bridge_event cfg ops Dispatch (sy_trace y)\<rparr>)"
| received:
    "system_step cfg ops so wire y (y\<lparr>sy_led := status_led_nmea_frame_received now_ms (sy_led y)\<rparr>)"
| connect: "wire w = [] \<Longrightarrow>
    system_step cfg ops so wire y (y\<lparr>sy_sessions := sy_sessions y @ [session_start w]\<rparr>)"
| network: "i < length (sy_sessions y) \<Longrightarrow> wire w = wire (se_sock (sy_sessions y ! i)) \<Longrightarrow>
    system_step cfg ops so wire y (y\<lparr>sy_sessions := (sy_sessions y)[i := (sy_sessions y ! i)\<lparr>se_sock := w\<rparr>]\<rparr>)"
| session: "i < length (sy_sessions y) \<Longrightarrow>
    session_step ops so sink_name now_ms (sy_sessions y ! i) (sy_shared y) = Some (s, sh) \<Longrightarrow>
    system_step cfg ops so wire y
      (y\<lparr>sy_trace := traced_call cfg ops (session_call sink_name (sy_sessions y ! i)) (sy_trace y),
         sy_active := active_sessions sh, sy_led := sh_led sh,
         sy_sessions := (sy_sessions y)[i := s]\<rparr>)"

inductive_cases system_stepE: "system_step cfg ops so wire y y'"

text \<open>The trace follows the bridge that the session works on.\<close>

lemma session_call_bridge:
  assumes "session_step ops so sink_name now_ms s sh = Some (s', sh')" and "sh_bridge sh = tr_bridge t"
  shows "tr_bridge (traced_call cfg ops (session_call sink_name s) t) = sh_bridge sh'"
  using assms
  by (auto simp: session_step_def session_call_def traced_call_def drain_step_def Let_def
      split: session_pc.splits prod.splits if_splits option.splits sum.splits)

section \<open>Effect of the calls on the slots\<close>

definition slots_active :: "'q traced \<Rightarrow> bool list" where
  "slots_active t = map slot_active (sinks (tr_bridge t))"

lemma publish_slots [simp]:
  "slots_active (bridge_event cfg ops (Publish data len) t) = slots_active t"
  "tr_taken (bridge_event cfg ops (Publish data len) t) = tr_taken t"
  by (auto simp: slots_active_def nmea_bridge_publish_frame_def Let_def split: prod.splits)

lemma dispatch_sinks_active:
  "dispatch_sinks ops f ss d a = (ss', d', a') \<Longrightarrow> map slot_active ss' = map slot_active ss"
  by (induction ss arbitrary: d a ss') (auto simp: Let_def split: prod.splits if_splits)

lemma dispatch_slots [simp]:
  "slots_active (bridge_event cfg ops Dispatch t) = slots_active t"
  "tr_taken (bridge_event cfg ops Dispatch t) = tr_taken t"
  "tr_published (bridge_event cfg ops Dispatch t) = tr_published t"
  by (auto simp: slots_active_def dispatcher_round_def Let_def split: prod.splits option.splits sum.splits
      dest: dispatch_sinks_active)

lemma publish_grows: "\<exists>xs. tr_published (bridge_event cfg ops (Publish data len) t) = tr_published t @ xs"
  by (auto split: prod.splits)

lemma close_slots:
  assumes "valid_id (tr_bridge t) (sink_id h)"
  shows "slots_active (bridge_event cfg ops (SinkClose (Some h)) t) = (slots_active t)[nat (sink_id h) := False]"
    and "tr_taken (bridge_event cfg ops (SinkClose (Some h)) t) = tr_taken t"
    and "tr_published (bridge_event cfg ops (SinkClose (Some h)) t) = tr_published t"
  using assms by (auto simp: slots_active_def nmea_bridge_sink_close_def Let_def map_update)

lemma open_slots:
  assumes "nmea_bridge_sink_open ops (tr_bridge t) (Some h) name = (r, br, h')"
  shows "if r = 0 then \<exists>k < length (slots_active t). \<not> slots_active t ! k \<and> h' = Some \<lparr>sink_id = int k\<rparr> \<and>
      slots_active (bridge_event cfg ops (SinkOpen (Some h) name) t) = (slots_active t)[k := True] \<and>
      tr_taken (bridge_event cfg ops (SinkOpen (Some h) name) t) = (tr_taken t)[k := []]
    else list_all id (slots_active t) \<and>
      slots_active (bridge_event cfg ops (SinkOpen (Some h) name) t) = slots_active t \<and>
      tr_taken (bridge_event cfg ops (SinkOpen (Some h) name) t) = tr_taken t"
proof (cases "open_slot ops name (sinks (tr_bridge t)) 0")
  case None
  then show ?thesis
    using assms open_slot_None[of ops name "sinks (tr_bridge t)" 0]
    by (auto simp: nmea_bridge_sink_open_def slots_active_def errno_defs list_all_iff)
next
  case (Some x)
  obtain j ss where x: "x = (j, ss)" by fastforce
  from open_slot_nth[OF Some[unfolded x]] obtain k where "k < length (sinks (tr_bridge t))" "j = int k"
      "\<not> slot_active (sinks (tr_bridge t) ! k)"
      "ss = (sinks (tr_bridge t))[k := (sinks (tr_bridge t) ! k)\<lparr>slot_active := True, slot_name := name,
        slot_stats := zero_sink_stats, slot_msgq := mq_purge ops (slot_msgq (sinks (tr_bridge t) ! k))\<rparr>]"
    by auto
  then show ?thesis
    using assms Some x by (auto simp: nmea_bridge_sink_open_def slots_active_def map_update intro!: exI[of _ k])
qed

lemma open_published [simp]: "tr_published (bridge_event cfg ops (SinkOpen h name) t) = tr_published t"
  by (auto split: prod.splits)

context frame_msgq
begin

lemma take_slots:
  assumes "bridge_ok cfg view cap qinv (tr_bridge t)" and "valid_id (tr_bridge t) (sink_id h)"
    and "slots_active t ! nat (sink_id h)"
    and "nmea_bridge_sink_take ops (tr_bridge t) (Some h) True timeout = (x, br)"
  shows "slots_active (bridge_event cfg ops (SinkTake (Some h) True timeout) t) = slots_active t"
    and "tr_published (bridge_event cfg ops (SinkTake (Some h) True timeout) t) = tr_published t"
    and "case x of Inl e \<Rightarrow> e \<noteq> - ENOTCONN \<and>
          tr_taken (bridge_event cfg ops (SinkTake (Some h) True timeout) t) = tr_taken t
      | Inr f \<Rightarrow> frame_ok cfg f \<and> tr_taken (bridge_event cfg ops (SinkTake (Some h) True timeout) t) =
          (tr_taken t)[nat (sink_id h) := tr_taken t ! nat (sink_id h) @ [f]]"
proof -
  let ?k = "nat (sink_id h)"
  have k: "?k < length (sinks (tr_bridge t))" using assms(2) by (auto simp: valid_id_def)
  have act: "slot_active (sinks (tr_bridge t) ! ?k)" using assms(3) k by (simp add: slots_active_def)
  note op = sink_take_open[OF assms(1,2) refl act, of timeout]
  have "slot_ok cfg view cap qinv (sinks (tr_bridge t) ! ?k)" by (rule slot_ok_nth[OF assms(1,2)])
  then have f: "frame_ok cfg m" if "view (slot_msgq (sinks (tr_bridge t) ! ?k)) = m # ms" for m ms
    using that by (simp add: slot_ok_def)
  have "map slot_active (sinks (tr_bridge t)) ! ?k = True" using act k by simp
  then have u: "(map slot_active (sinks (tr_bridge t)))[?k := True] = map slot_active (sinks (tr_bridge t))"
    by (metis list_update_id)
  show "slots_active (bridge_event cfg ops (SinkTake (Some h) True timeout) t) = slots_active t"
    using op act u assms(4) by (auto simp: slots_active_def Let_def map_update split: list.splits)
  show "tr_published (bridge_event cfg ops (SinkTake (Some h) True timeout) t) = tr_published t"
    using assms(4) by (auto simp: Let_def split: sum.splits)
  show "case x of Inl e \<Rightarrow> e \<noteq> - ENOTCONN \<and>
          tr_taken (bridge_event cfg ops (SinkTake (Some h) True timeout) t) = tr_taken t
      | Inr f \<Rightarrow> frame_ok cfg f \<and> tr_taken (bridge_event cfg ops (SinkTake (Some h) True timeout) t) =
          (tr_taken t)[nat (sink_id h) := tr_taken t ! nat (sink_id h) @ [f]]"
    using op assms(4) f by (auto simp: Let_def errno_defs split: list.splits)
qed

end

section \<open>The invariant\<close>

definition running :: "'w session \<Rightarrow> bool" where
  "running s \<longleftrightarrow> (case se_pc s of At_Open \<Rightarrow> False | Returned _ \<Rightarrow> False | _ \<Rightarrow> True)"

definition slot_of :: "'w session \<Rightarrow> nat" where
  "slot_of s = nat (sink_id (se_sink s))"

text \<open>The bytes of whole frames, and of whole frames of which the last is cut short.\<close>

definition whole :: "nmea_frame list \<Rightarrow> byte list" where
  "whole fs = concat (map fdata fs)"

definition cut_short :: "nmea_frame list \<Rightarrow> byte list \<Rightarrow> bool" where
  "cut_short fs x \<longleftrightarrow> fs \<noteq> [] \<and> (\<exists>m < length (fdata (last fs)). x = whole (butlast fs) @ take m (fdata (last fs)))"

text \<open>What has been sent, when the frames \<open>fs\<close> were taken and the session ended with \<open>r\<close>.\<close>

definition sent_by_end :: "tcp_nmea_session_result \<Rightarrow> nmea_frame list \<Rightarrow> byte list \<Rightarrow> bool" where
  "sent_by_end r fs x \<longleftrightarrow>
     (if r = TCP_NMEA_SESSION_ENDED_SEND_FAILED then cut_short fs x else x = whole fs)"

definition sent_ok :: "nmea_cfg \<Rightarrow> nmea_frame list \<Rightarrow> byte list \<Rightarrow> 'w session \<Rightarrow> bool" where
  "sent_ok cfg fs x s \<longleftrightarrow>
     (case se_pc s of
        At_Send f \<Rightarrow> frame_ok cfg f \<and> fs \<noteq> [] \<and> last fs = f \<and> x = whole (butlast fs)
      | At_End \<Rightarrow> se_result s \<noteq> TCP_NMEA_SESSION_ENDED_SINK_UNAVAILABLE \<and> sent_by_end (se_result s) fs x
      | _ \<Rightarrow> x = whole fs) \<and>
     (se_pc s \<noteq> At_End \<longrightarrow> se_result s = TCP_NMEA_SESSION_ENDED_PEER_CLOSED)"

definition session_ok ::
  "nmea_cfg \<Rightarrow> ('w \<Rightarrow> byte list) \<Rightarrow> 'q traced \<Rightarrow> 'w session \<Rightarrow> bool"
where
  "session_ok cfg wire t s \<longleftrightarrow>
     (if running s then
        0 \<le> sink_id (se_sink s) \<and> slot_of s < length (slots_active t) \<and> slots_active t ! slot_of s \<and>
        sent_ok cfg (tr_taken t ! slot_of s) (wire (se_sock s)) s
      else case se_pc s of
        Returned r \<Rightarrow> \<exists>fs. subseq fs (tr_published t) \<and> sent_by_end r fs (wire (se_sock s))
      | _ \<Rightarrow> wire (se_sock s) = [] \<and> se_result s = TCP_NMEA_SESSION_ENDED_PEER_CLOSED)"

definition running_set :: "'w session list \<Rightarrow> nat set" where
  "running_set ss = {i. i < length ss \<and> running (ss ! i)}"

definition owners_ok :: "'q traced \<Rightarrow> 'w session list \<Rightarrow> bool" where
  "owners_ok t ss \<longleftrightarrow> bij_betw (\<lambda>i. slot_of (ss ! i)) (running_set ss) {k. k < length (slots_active t) \<and> slots_active t ! k}"

definition system_inv ::
  "nmea_cfg \<Rightarrow> ('q \<Rightarrow> nmea_frame list) \<Rightarrow> ('q \<Rightarrow> nat) \<Rightarrow> ('q \<Rightarrow> bool) \<Rightarrow> ('w \<Rightarrow> byte list) \<Rightarrow>
    ('q, 'w) nmea_system \<Rightarrow> bool"
where
  "system_inv cfg view cap qinv wire y \<longleftrightarrow>
     bridge_ok cfg view cap qinv (tr_bridge (sy_trace y)) \<and> in_order view (sy_trace y) \<and>
     list_all (session_ok cfg wire (sy_trace y)) (sy_sessions y) \<and>
     owners_ok (sy_trace y) (sy_sessions y) \<and>
     sy_active y = of_nat (card (running_set (sy_sessions y))) \<and>
     active_tcp_nmea_sessions (status_led_state (sy_led y)) = of_nat (card (running_set (sy_sessions y)))"

lemma finite_running_set [simp]: "finite (running_set ss)"
  by (simp add: running_set_def)

lemma running_set_update:
  assumes "i < length ss"
  shows "running_set (ss[i := s]) = (if running s then insert i (running_set ss) else running_set ss - {i})"
  using assms by (auto simp: running_set_def nth_list_update split: if_splits)

lemma card_running_update:
  assumes "i < length ss"
  shows "\<not> running (ss ! i) \<Longrightarrow> running s \<Longrightarrow> card (running_set (ss[i := s])) = Suc (card (running_set ss))"
    and "running (ss ! i) \<Longrightarrow> \<not> running s \<Longrightarrow> Suc (card (running_set (ss[i := s]))) = card (running_set ss)"
proof -
  assume "\<not> running (ss ! i)" "running s"
  then have "i \<notin> running_set ss" by (simp add: running_set_def)
  then show "card (running_set (ss[i := s])) = Suc (card (running_set ss))"
    using \<open>running s\<close> by (simp add: running_set_update[OF assms])
next
  assume "running (ss ! i)" "\<not> running s"
  then have "i \<in> running_set ss" using assms by (simp add: running_set_def)
  then show "Suc (card (running_set (ss[i := s]))) = card (running_set ss)"
    using \<open>\<not> running s\<close> card_Suc_Diff1[of "running_set ss" i] by (simp add: running_set_update[OF assms])
qed

lemma running_bound:
  assumes "owners_ok t ss"
  shows "card (running_set ss) \<le> length (slots_active t)"
proof -
  have "card (running_set ss) = card {k. k < length (slots_active t) \<and> slots_active t ! k}"
    using assms by (simp add: owners_ok_def bij_betw_same_card)
  also have "\<dots> \<le> card {..< length (slots_active t)}" by (rule card_mono) auto
  finally show ?thesis by simp
qed

text \<open>Sessions that differ in position differ in slot.\<close>

lemma slots_distinct:
  "owners_ok t ss \<Longrightarrow> i < length ss \<Longrightarrow> j < length ss \<Longrightarrow> i \<noteq> j \<Longrightarrow> running (ss ! i) \<Longrightarrow> running (ss ! j) \<Longrightarrow>
   slot_of (ss ! i) \<noteq> slot_of (ss ! j)"
  by (auto simp: owners_ok_def bij_betw_def inj_on_def running_set_def)

lemma owners_keep:
  assumes "owners_ok t ss" and "i < length ss" and "running s = running (ss ! i)"
    and "running s \<Longrightarrow> slot_of s = slot_of (ss ! i)" and "slots_active t' = slots_active t"
  shows "owners_ok t' (ss[i := s])"
proof -
  have r: "running_set (ss[i := s]) = running_set ss"
    using assms(2,3) by (auto simp: running_set_def nth_list_update)
  have "slot_of (ss[i := s] ! j) = slot_of (ss ! j)" if "j \<in> running_set ss" for j
    using assms(2-4) that by (cases "j = i") (auto simp: running_set_def)
  then have "bij_betw (\<lambda>j. slot_of (ss[i := s] ! j)) (running_set ss) B =
      bij_betw (\<lambda>j. slot_of (ss ! j)) (running_set ss) B" for B
    by (rule bij_betw_cong)
  then show ?thesis using assms(1,5) r by (simp add: owners_ok_def)
qed

lemma owners_open:
  assumes "owners_ok t ss" and "i < length ss" and "\<not> running (ss ! i)" and "running s"
    and "slot_of s = k" and "k < length (slots_active t)" and "\<not> slots_active t ! k"
    and "slots_active t' = (slots_active t)[k := True]"
  shows "owners_ok t' (ss[i := s])"
proof -
  have i: "i \<notin> running_set ss" using assms(3) by (simp add: running_set_def)
  have "bij_betw (\<lambda>j. slot_of (ss[i := s] ! j)) (running_set ss) B =
      bij_betw (\<lambda>j. slot_of (ss ! j)) (running_set ss) B" for B
    by (rule bij_betw_cong) (metis i nth_list_update_neq)
  then have "bij_betw (\<lambda>j. slot_of (ss[i := s] ! j)) (running_set ss) {k. k < length (slots_active t) \<and> slots_active t ! k}"
    using assms(1) by (simp add: owners_ok_def)
  then have "bij_betw (\<lambda>j. slot_of (ss[i := s] ! j)) (running_set ss \<union> {i})
      ({k. k < length (slots_active t) \<and> slots_active t ! k} \<union> {slot_of (ss[i := s] ! i)})"
    by (rule notIn_Un_bij_betw[OF i, rotated]) (use assms in auto)
  moreover have "{k. k < length (slots_active t) \<and> slots_active t ! k} \<union> {slot_of (ss[i := s] ! i)} =
      {k. k < length (slots_active t') \<and> slots_active t' ! k}"
    using assms(2,5,6,8) by (auto simp: nth_list_update)
  ultimately show ?thesis
    using assms(2,4) by (simp add: owners_ok_def running_set_update)
qed

lemma update_False_nth: "k < length xs \<Longrightarrow> xs[j := False] ! k \<longleftrightarrow> xs ! k \<and> k \<noteq> j"
  by (cases "k = j") auto

lemma owners_close:
  assumes "owners_ok t ss" and "i < length ss" and "running (ss ! i)" and "\<not> running s"
    and "slots_active t' = (slots_active t)[slot_of (ss ! i) := False]"
  shows "owners_ok t' (ss[i := s])"
proof -
  have i: "i \<in> running_set ss" using assms(2,3) by (simp add: running_set_def)
  have "bij_betw (\<lambda>j. slot_of (ss ! j)) (running_set ss - {i})
      ({k. k < length (slots_active t) \<and> slots_active t ! k} - {slot_of (ss ! i)})"
    using assms(1) i unfolding owners_ok_def bij_betw_def inj_on_def by blast
  moreover have "bij_betw (\<lambda>j. slot_of (ss[i := s] ! j)) (running_set ss - {i}) B =
      bij_betw (\<lambda>j. slot_of (ss ! j)) (running_set ss - {i}) B" for B
    by (rule bij_betw_cong) (auto simp: nth_list_update)
  moreover have "{k. k < length (slots_active t) \<and> slots_active t ! k} - {slot_of (ss ! i)} =
      {k. k < length (slots_active t') \<and> slots_active t' ! k}"
    by (auto simp: assms(5) update_False_nth)
  ultimately show ?thesis
    using assms(2,4) by (simp add: owners_ok_def running_set_update)
qed

section \<open>Every step keeps the invariant\<close>

lemma subseq_append_right: "subseq xs ys \<Longrightarrow> subseq xs (ys @ zs)"
  by (metis append_Nil2 list_emb_append_mono subseq_order.refl list_emb_Nil)

text \<open>A session that took no part in a call is as it was, provided the call left its slot alone.\<close>

lemma session_ok_frame:
  assumes "session_ok cfg wire t s" and "tr_published t' = tr_published t @ xs"
    and "length (slots_active t') = length (slots_active t)"
    and "running s \<Longrightarrow> slots_active t' ! slot_of s = slots_active t ! slot_of s \<and>
      tr_taken t' ! slot_of s = tr_taken t ! slot_of s"
  shows "session_ok cfg wire t' s"
  using assms subseq_append_right[of _ "tr_published t" xs]
  by (auto simp: session_ok_def running_def split: if_splits session_pc.splits)

text \<open>The steps of a session that do not call the bridge.\<close>

lemma whole_snoc: "whole (fs @ [f]) = whole fs @ fdata f"
  by (simp add: whole_def)

lemma whole_butlast: "fs \<noteq> [] \<Longrightarrow> whole (butlast fs) @ fdata (last fs) = whole fs"
  by (metis append_butlast_last_id whole_snoc)

context tcp_socket
begin

lemma drain_step_ok:
  assumes "drain_step so next s = Some s'" and "session_ok cfg wire t s"
    and "se_pc s = At_Drain \<or> se_pc s = At_Drain_Again" and "next = At_Take \<or> next = At_Drain"
  shows "session_ok cfg wire t s' \<and> running s' \<and> slot_of s' = slot_of s"
proof -
  obtain r w where d: "drain_socket_rx so (se_sock s) = Some (r, w)"
    using assms(1) by (auto simp: drain_step_def split: option.splits prod.splits)
  note dw = drain_wire[OF d]
  show ?thesis
  proof (cases r)
    case None
    then show ?thesis
      using assms d dw by (auto simp: drain_step_def session_ok_def running_def slot_of_def sent_ok_def)
  next
    case (Some r')
    then show ?thesis
      using assms d dw
      by (auto simp: drain_step_def session_ok_def running_def slot_of_def sent_ok_def sent_by_end_def)
  qed
qed

lemma send_step_ok:
  assumes "send_all so f (se_sock s) = Some (r, w)" and "session_ok cfg wire t s" and "se_pc s = At_Send f"
  shows "session_ok cfg wire t (case r of None \<Rightarrow> s\<lparr>se_sock := w, se_pc := At_Drain_Again\<rparr>
    | Some r \<Rightarrow> s\<lparr>se_sock := w, se_result := r, se_pc := At_End\<rparr>)"
proof -
  let ?fs = "tr_taken t ! slot_of s"
  have s: "frame_ok cfg f" "?fs \<noteq> []" "last ?fs = f" "wire (se_sock s) = whole (butlast ?fs)"
    using assms(2,3) by (auto simp: session_ok_def running_def sent_ok_def)
  then have "length (fdata f) = unat (flen f)" by (simp add: frame_ok_def)
  note sw = send_all_wire[OF assms(1) this]
  show ?thesis
  proof (cases r)
    case None
    then show ?thesis
      using assms(2,3) s sw whole_butlast[OF s(2)]
      by (simp add: session_ok_def running_def slot_of_def sent_ok_def)
  next
    case (Some r')
    then show ?thesis
      using assms(2,3) s sw
      by (simp add: session_ok_def running_def slot_of_def sent_ok_def sent_by_end_def cut_short_def)
  qed
qed

end

text \<open>The counters of a system with \<open>n\<close> running sessions.\<close>

lemma led_session_started:
  "active_tcp_nmea_sessions (status_led_state led) = of_nat n \<Longrightarrow>
   active_tcp_nmea_sessions (status_led_state (status_led_tcp_nmea_session_started led)) = of_nat (Suc n)"
  by (simp add: status_led_tcp_nmea_session_started_def status_led_policy_tcp_nmea_session_started_def)

lemma led_session_ended:
  assumes "active_tcp_nmea_sessions (status_led_state led) = of_nat (Suc n)" and "Suc n < 2 ^ 16"
  shows "active_tcp_nmea_sessions (status_led_state (status_led_tcp_nmea_session_ended led)) = of_nat n"
proof -
  have "(of_nat (Suc n) :: u16) \<noteq> 0"
    using assms(2) unat_of_nat_small[of "Suc n", where 'a = 16] by (auto simp del: of_nat_Suc)
  then have "0 < (of_nat (Suc n) :: u16)" by (simp only: word_gt_0)
  then show ?thesis
    using assms(1)
    by (simp add: status_led_tcp_nmea_session_ended_def status_led_policy_tcp_nmea_session_ended_def)
qed

lemma led_events [simp]:
  "active_tcp_nmea_sessions (status_led_state (status_led_nmea_send_failed now led)) =
     active_tcp_nmea_sessions (status_led_state led)"
  "active_tcp_nmea_sessions (status_led_state (status_led_nmea_frame_forwarded now led)) =
     active_tcp_nmea_sessions (status_led_state led)"
  "active_tcp_nmea_sessions (status_led_state (status_led_nmea_frame_received now led)) =
     active_tcp_nmea_sessions (status_led_state led)"
  by (simp_all add: status_led_nmea_send_failed_def status_led_nmea_frame_forwarded_def
      status_led_nmea_frame_received_def status_led_policy_nmea_send_failed_def
      status_led_policy_nmea_frame_forwarded_def status_led_policy_nmea_frame_received_def)

locale session_system = frame_msgq ops view cap qinv + tcp_socket so wire
  for ops :: "('q, nmea_frame) msgq_ops"
    and view :: "'q \<Rightarrow> nmea_frame list"
    and cap :: "'q \<Rightarrow> nat"
    and qinv :: "'q \<Rightarrow> bool"
    and so :: "'w sock_ops"
    and wire :: "'w \<Rightarrow> byte list"
begin

text \<open>What is left to show for a step of session \<open>i\<close>.\<close>

lemma inv_after_session:
  assumes "system_inv cfg view cap qinv wire y" and "cfg_ok cfg" and "i < length (sy_sessions y)"
    and "t = traced_call cfg ops c (sy_trace y)" and "\<And>ev. c = Some ev \<Longrightarrow> call_ok ev"
    and "tr_published t = tr_published (sy_trace y)"
    and "length (slots_active t) = length (slots_active (sy_trace y))"
    and "session_ok cfg wire t s" and "owners_ok t ((sy_sessions y)[i := s])"
    and "\<And>k. k \<noteq> slot_of s \<Longrightarrow> slots_active t ! k = slots_active (sy_trace y) ! k \<and>
      tr_taken t ! k = tr_taken (sy_trace y) ! k"
    and "\<And>j. j < length (sy_sessions y) \<Longrightarrow> j \<noteq> i \<Longrightarrow> running (sy_sessions y ! j) \<Longrightarrow>
      slot_of (sy_sessions y ! j) \<noteq> slot_of s \<or> t = sy_trace y"
    and "a = of_nat (card (running_set ((sy_sessions y)[i := s])))"
    and "active_tcp_nmea_sessions (status_led_state led) = of_nat (card (running_set ((sy_sessions y)[i := s])))"
  shows "system_inv cfg view cap qinv wire
    (y\<lparr>sy_trace := t, sy_active := a, sy_led := led, sy_sessions := (sy_sessions y)[i := s]\<rparr>)"
proof -
  have inv: "bridge_ok cfg view cap qinv (tr_bridge (sy_trace y))" "in_order view (sy_trace y)"
      "list_all (session_ok cfg wire (sy_trace y)) (sy_sessions y)"
    using assms(1) by (auto simp: system_inv_def)
  have "bridge_ok cfg view cap qinv (tr_bridge t)" "in_order view t"
    using event_bridge_ok[OF inv(1) assms(2)] event_in_order[OF inv(1) assms(2) inv(2)] inv assms(4,5)
    by (auto simp: traced_call_def split: option.splits)
  moreover have "session_ok cfg wire t (sy_sessions y ! j)" if "j < length (sy_sessions y)" "j \<noteq> i" for j
    using session_ok_frame[of cfg wire "sy_trace y" "sy_sessions y ! j" t "[]"] inv(3) assms(6,7,10,11) that
    by (auto simp: list_all_length)
  ultimately show ?thesis
    using assms by (auto simp: system_inv_def list_all_length nth_list_update)
qed

lemma quiet_step_inv:
  assumes "system_inv cfg view cap qinv wire y" and "cfg_ok cfg" and "i < length (sy_sessions y)"
    and "session_ok cfg wire (sy_trace y) s" and "running (sy_sessions y ! i)" and "running s"
    and "slot_of s = slot_of (sy_sessions y ! i)"
    and "active_tcp_nmea_sessions (status_led_state led) = active_tcp_nmea_sessions (status_led_state (sy_led y))"
  shows "system_inv cfg view cap qinv wire
    (y\<lparr>sy_trace := traced_call cfg ops None (sy_trace y), sy_active := sy_active y, sy_led := led,
       sy_sessions := (sy_sessions y)[i := s]\<rparr>)"
proof (rule inv_after_session[OF assms(1-3) refl])
  have "owners_ok (sy_trace y) (sy_sessions y)" using assms(1) by (simp add: system_inv_def)
  then show "owners_ok (traced_call cfg ops None (sy_trace y)) ((sy_sessions y)[i := s])"
    using owners_keep[of "sy_trace y" "sy_sessions y" i s "sy_trace y"] assms by (simp add: traced_call_def)
  have "running_set ((sy_sessions y)[i := s]) = running_set (sy_sessions y)"
    using assms(3,5,6) by (auto simp: running_set_def nth_list_update)
  then show "sy_active y = of_nat (card (running_set ((sy_sessions y)[i := s])))"
      "active_tcp_nmea_sessions (status_led_state led) = of_nat (card (running_set ((sy_sessions y)[i := s])))"
    using assms(1,8) by (simp_all add: system_inv_def)
qed (use assms in \<open>auto simp: traced_call_def\<close>)

lemma running_card_small:
  assumes "system_inv cfg view cap qinv wire y" and "cfg_ok cfg"
  shows "card (running_set (sy_sessions y)) \<le> sinks_max cfg" and "card (running_set (sy_sessions y)) < 2 ^ 16"
proof -
  show "card (running_set (sy_sessions y)) \<le> sinks_max cfg"
    using assms(1) running_bound[of "sy_trace y" "sy_sessions y"]
    by (simp add: system_inv_def bridge_ok_def slots_active_def)
  then show "card (running_set (sy_sessions y)) < 2 ^ 16" using assms(2) by (simp add: cfg_ok_def)
qed

lemma open_step_inv:
  assumes "system_inv cfg view cap qinv wire y" and "cfg_ok cfg" and "i < length (sy_sessions y)"
    and "se_pc (sy_sessions y ! i) = At_Open"
    and "session_step ops so sink_name now_ms (sy_sessions y ! i) (sy_shared y) = Some (s, sh)"
  shows "system_inv cfg view cap qinv wire
      (y\<lparr>sy_trace := traced_call cfg ops (session_call sink_name (sy_sessions y ! i)) (sy_trace y),
         sy_active := active_sessions sh, sy_led := sh_led sh, sy_sessions := (sy_sessions y)[i := s]\<rparr>)"
proof -
  let ?ss = "sy_sessions y" and ?t = "sy_trace y"
  let ?s0 = "?ss ! i"
  let ?ev = "SinkOpen (Some (se_sink ?s0)) sink_name"
  obtain r br h where o: "nmea_bridge_sink_open ops (tr_bridge ?t) (Some (se_sink ?s0)) sink_name = (r, br, h)"
    by (metis prod_cases3)
  note slots = open_slots[OF o, of cfg]
  have c: "session_call sink_name ?s0 = Some ?ev" using assms(4) by (simp add: session_call_def)
  have nr: "\<not> running ?s0" using assms(4) by (simp add: running_def)
  have own: "owners_ok ?t ?ss" using assms(1) by (simp add: system_inv_def)
  have s0: "wire (se_sock ?s0) = []" "se_result ?s0 = TCP_NMEA_SESSION_ENDED_PEER_CLOSED"
    using assms(1,3,4) nr by (auto simp: system_inv_def list_all_length session_ok_def)
  have len: "length (tr_taken ?t) = length (slots_active ?t)"
    using assms(1) by (simp add: system_inv_def in_order_def Let_def slots_active_def)
  show ?thesis
  proof (cases "r = 0")
    case True
    then obtain k where k: "k < length (slots_active ?t)" "\<not> slots_active ?t ! k" "h = Some \<lparr>sink_id = int k\<rparr>"
        "slots_active (bridge_event cfg ops ?ev ?t) = (slots_active ?t)[k := True]"
        "tr_taken (bridge_event cfg ops ?ev ?t) = (tr_taken ?t)[k := []]"
      using slots by auto
    have s: "s = ?s0\<lparr>se_sink := \<lparr>sink_id = int k\<rparr>, se_pc := At_Drain\<rparr>"
        "active_sessions sh = sy_active y + 1" "sh_led sh = status_led_tcp_nmea_session_started (sy_led y)"
      using assms(4,5) o True k(3) by (auto simp: session_step_def sy_shared_def Let_def)
    have run: "running s" "slot_of s = k" using s by (simp_all add: running_def slot_of_def)
    have card: "card (running_set (?ss[i := s])) = Suc (card (running_set ?ss))"
      using card_running_update(1)[OF assms(3) nr run(1)] .
    show ?thesis
    proof (rule inv_after_session[OF assms(1-3) refl])
      show "session_ok cfg wire (traced_call cfg ops (session_call sink_name ?s0) ?t) s"
        using k s s0 len by (simp add: c traced_call_def session_ok_def running_def slot_of_def sent_ok_def whole_def
            del: bridge_event.simps)
      show "owners_ok (traced_call cfg ops (session_call sink_name ?s0) ?t) (?ss[i := s])"
        using owners_open[OF own assms(3) nr run k(1,2)] k(4) by (simp add: c traced_call_def del: bridge_event.simps)
      show "slot_of (?ss ! j) \<noteq> slot_of s \<or> traced_call cfg ops (session_call sink_name ?s0) ?t = ?t"
        if "j < length ?ss" "running (?ss ! j)" for j
        using assms(1) that k(2) run(2) by (auto simp: system_inv_def list_all_length session_ok_def)
    qed (use k run card assms(1) s led_session_started in
        \<open>simp_all add: c traced_call_def system_inv_def del: bridge_event.simps\<close>)
  next
    case False
    have s: "s = ?s0\<lparr>se_sink := the h, se_pc := Returned TCP_NMEA_SESSION_ENDED_SINK_UNAVAILABLE\<rparr>"
        "active_sessions sh = sy_active y" "sh_led sh = sy_led y"
      using assms(4,5) o False by (auto simp: session_step_def sy_shared_def Let_def)
    have nrs: "\<not> running s" using s by (simp add: running_def)
    have e: "slots_active (bridge_event cfg ops ?ev ?t) = slots_active ?t"
        "tr_taken (bridge_event cfg ops ?ev ?t) = tr_taken ?t" using slots False by auto
    have rs: "running_set (?ss[i := s]) = running_set ?ss"
      using nr nrs assms(3) by (auto simp: running_set_def nth_list_update)
    have b: "bridge_event cfg ops ?ev ?t = ?t"
      using o False by (auto simp: nmea_bridge_sink_open_def split: option.splits)
    show ?thesis
    proof (rule inv_after_session[OF assms(1-3) refl])
      show "session_ok cfg wire (traced_call cfg ops (session_call sink_name ?s0) ?t) s"
        using s s0 by (auto simp: session_ok_def running_def sent_by_end_def whole_def intro!: exI[of _ "[]"])
      show "owners_ok (traced_call cfg ops (session_call sink_name ?s0) ?t) (?ss[i := s])"
        using owners_keep[OF own assms(3), of s ?t] nr nrs b by (simp add: c traced_call_def del: bridge_event.simps)
    qed (use e b rs assms(1) s in \<open>simp_all add: c traced_call_def system_inv_def del: bridge_event.simps\<close>)
  qed
qed

lemma take_step_inv:
  assumes "system_inv cfg view cap qinv wire y" and "cfg_ok cfg" and "i < length (sy_sessions y)"
    and "se_pc (sy_sessions y ! i) = At_Take"
    and "session_step ops so sink_name now_ms (sy_sessions y ! i) (sy_shared y) = Some (s, sh)"
  shows "system_inv cfg view cap qinv wire
      (y\<lparr>sy_trace := traced_call cfg ops (session_call sink_name (sy_sessions y ! i)) (sy_trace y),
         sy_active := active_sessions sh, sy_led := sh_led sh, sy_sessions := (sy_sessions y)[i := s]\<rparr>)"
proof -
  let ?ss = "sy_sessions y" and ?t = "sy_trace y"
  let ?s0 = "?ss ! i"
  let ?ev = "SinkTake (Some (se_sink ?s0)) True (K_MSEC 250)" and ?k = "slot_of ?s0"
  obtain x br where o: "nmea_bridge_sink_take ops (tr_bridge ?t) (Some (se_sink ?s0)) True (K_MSEC 250) = (x, br)"
    by fastforce
  have c: "session_call sink_name ?s0 = Some ?ev" using assms(4) by (simp add: session_call_def)
  have run0: "running ?s0" using assms(4) by (simp add: running_def)
  have bok: "bridge_ok cfg view cap qinv (tr_bridge ?t)" and own: "owners_ok ?t ?ss"
    using assms(1) by (simp_all add: system_inv_def)
  have s0: "0 \<le> sink_id (se_sink ?s0)" "?k < length (slots_active ?t)" "slots_active ?t ! ?k"
      "wire (se_sock ?s0) = whole (tr_taken ?t ! ?k)" "se_result ?s0 = TCP_NMEA_SESSION_ENDED_PEER_CLOSED"
    using assms(1,3,4) run0 by (auto simp: system_inv_def list_all_length session_ok_def sent_ok_def)
  have v: "valid_id (tr_bridge ?t) (sink_id (se_sink ?s0))"
    using s0 by (auto simp: valid_id_def slots_active_def slot_of_def)
  note tk = take_slots[OF bok v s0(3)[unfolded slot_of_def] o, folded slot_of_def]
  have len: "length (tr_taken ?t) = length (slots_active ?t)"
    using assms(1) by (simp add: system_inv_def in_order_def Let_def slots_active_def)
  have s: "s = ?s0\<lparr>se_pc := (case x of Inl e \<Rightarrow> At_Drain | Inr f \<Rightarrow> At_Send f)\<rparr>"
      "active_sessions sh = sy_active y" "sh_led sh = sy_led y"
    using assms(4,5) o tk(3) by (auto simp: session_step_def sy_shared_def split: sum.splits)
  have run: "running s" "slot_of s = ?k" using s by (auto simp: running_def slot_of_def split: sum.splits)
  have rs: "running_set (?ss[i := s]) = running_set ?ss"
    using run0 run assms(3) by (auto simp: running_set_def nth_list_update)
  show ?thesis
  proof (rule inv_after_session[OF assms(1-3) refl])
    show "session_ok cfg wire (traced_call cfg ops (session_call sink_name ?s0) ?t) s"
      using tk s s0 run len
      by (cases x) (simp_all add: c traced_call_def session_ok_def sent_ok_def del: bridge_event.simps)
    show "owners_ok (traced_call cfg ops (session_call sink_name ?s0) ?t) (?ss[i := s])"
      using owners_keep[OF own assms(3), of s "bridge_event cfg ops ?ev ?t"] run0 run tk(1)
      by (simp add: c traced_call_def del: bridge_event.simps)
    show "slot_of (?ss ! j) \<noteq> slot_of s \<or> traced_call cfg ops (session_call sink_name ?s0) ?t = ?t"
      if "j < length ?ss" "j \<noteq> i" "running (?ss ! j)" for j
      using slots_distinct[OF own that(1) assms(3) that(2,3) run0] run by simp
    show "slots_active (traced_call cfg ops (session_call sink_name ?s0) ?t) ! k = slots_active ?t ! k \<and>
        tr_taken (traced_call cfg ops (session_call sink_name ?s0) ?t) ! k = tr_taken ?t ! k"
      if "k \<noteq> slot_of s" for k
      using tk that run(2) by (cases x) (simp_all add: c traced_call_def del: bridge_event.simps)
  qed (use tk rs assms(1) s in \<open>simp_all add: c traced_call_def system_inv_def del: bridge_event.simps\<close>)
qed

lemma end_step_inv:
  assumes "system_inv cfg view cap qinv wire y" and "cfg_ok cfg" and "i < length (sy_sessions y)"
    and "se_pc (sy_sessions y ! i) = At_End"
    and "session_step ops so sink_name now_ms (sy_sessions y ! i) (sy_shared y) = Some (s, sh)"
  shows "system_inv cfg view cap qinv wire
      (y\<lparr>sy_trace := traced_call cfg ops (session_call sink_name (sy_sessions y ! i)) (sy_trace y),
         sy_active := active_sessions sh, sy_led := sh_led sh, sy_sessions := (sy_sessions y)[i := s]\<rparr>)"
proof -
  let ?ss = "sy_sessions y" and ?t = "sy_trace y"
  let ?s0 = "?ss ! i"
  let ?ev = "SinkClose (Some (se_sink ?s0))" and ?k = "slot_of ?s0"
  have c: "session_call sink_name ?s0 = Some ?ev" using assms(4) by (simp add: session_call_def)
  have run0: "running ?s0" using assms(4) by (simp add: running_def)
  have ord: "in_order view ?t" and own: "owners_ok ?t ?ss"
    using assms(1) by (simp_all add: system_inv_def)
  have s0: "0 \<le> sink_id (se_sink ?s0)" "?k < length (slots_active ?t)" "slots_active ?t ! ?k"
      "sent_by_end (se_result ?s0) (tr_taken ?t ! ?k) (wire (se_sock ?s0))"
    using assms(1,3,4) run0 by (auto simp: system_inv_def list_all_length session_ok_def sent_ok_def)
  have v: "valid_id (tr_bridge ?t) (sink_id (se_sink ?s0))"
    using s0 by (auto simp: valid_id_def slots_active_def slot_of_def)
  note cl = close_slots[OF v, of cfg ops, folded slot_of_def]
  have s: "s = ?s0\<lparr>se_sink := (se_sink ?s0)\<lparr>sink_id := -1\<rparr>, se_pc := Returned (se_result ?s0)\<rparr>"
      "active_sessions sh = sy_active y - 1" "sh_led sh = status_led_tcp_nmea_session_ended (sy_led y)"
    using assms(4,5) v by (auto simp: session_step_def sy_shared_def nmea_bridge_sink_close_def Let_def)
  have nr: "\<not> running s" using s by (simp add: running_def)
  have slot: "slot_of s = 0" using s by (simp add: slot_of_def)
  have sub: "subseq (tr_taken ?t ! ?k) (tr_published ?t)"
  proof -
    have "subseq (tr_taken ?t ! ?k @ view (slot_msgq (sinks (tr_bridge ?t) ! ?k)) @ view (ingest_msgq (tr_bridge ?t)))
        (tr_published ?t)"
      using ord s0 by (auto simp: in_order_def Let_def slots_active_def)
    then show ?thesis by (metis append_Nil2 list_emb_append_mono list_emb_Nil subseq_order.refl subseq_order.trans)
  qed
  have card: "card (running_set ?ss) = Suc (card (running_set (?ss[i := s])))"
    using card_running_update(2)[OF assms(3) run0 nr] by simp
  let ?t' = "traced_call cfg ops (session_call sink_name ?s0) ?t"
  have t': "?t' = bridge_event cfg ops ?ev ?t" by (simp add: c traced_call_def)
  have bok: "bridge_ok cfg view cap qinv (tr_bridge ?t')" "in_order view ?t'"
    using event_bridge_ok[of cfg ?t ?ev] event_in_order[of cfg ?t ?ev] assms(1,2) t' by (auto simp: system_inv_def)
  have other: "session_ok cfg wire ?t' (?ss ! j)" if "j < length ?ss" "j \<noteq> i" for j
  proof (rule session_ok_frame[of cfg wire ?t])
    show "session_ok cfg wire ?t (?ss ! j)" using assms(1) that by (simp add: system_inv_def list_all_length)
    show "tr_published ?t' = tr_published ?t @ []" "length (slots_active ?t') = length (slots_active ?t)"
      using cl t' by (simp_all del: bridge_event.simps)
    assume "running (?ss ! j)"
    from slots_distinct[OF own that(1) assms(3) that(2) this run0]
    show "slots_active ?t' ! slot_of (?ss ! j) = slots_active ?t ! slot_of (?ss ! j) \<and>
        tr_taken ?t' ! slot_of (?ss ! j) = tr_taken ?t ! slot_of (?ss ! j)"
      using cl t' by (simp del: bridge_event.simps)
  qed
  have own': "owners_ok ?t' (?ss[i := s])"
    using owners_close[OF own assms(3) run0 nr, of ?t'] cl t' by simp
  have me: "session_ok cfg wire ?t' s"
    using s s0 sub cl t' by (auto simp: session_ok_def running_def simp del: bridge_event.simps)
  have cnt: "sy_active y - 1 = of_nat (card (running_set (?ss[i := s])))"
    using assms(1) card by (simp add: system_inv_def)
  have "active_tcp_nmea_sessions (status_led_state (sh_led sh)) = of_nat (card (running_set (?ss[i := s])))"
    unfolding s(3) by (rule led_session_ended)
      (use assms(1) running_card_small(2)[OF assms(1,2)] card in \<open>auto simp: system_inv_def\<close>)
  then show ?thesis
    using bok other own' me cnt s(2) assms(3)
    by (auto simp: system_inv_def list_all_length nth_list_update simp del: bridge_event.simps)
qed

lemma session_step_inv:
  assumes "system_inv cfg view cap qinv wire y" and "cfg_ok cfg" and "i < length (sy_sessions y)"
    and "session_step ops so sink_name now_ms (sy_sessions y ! i) (sy_shared y) = Some (s, sh)"
  shows "system_inv cfg view cap qinv wire
      (y\<lparr>sy_trace := traced_call cfg ops (session_call sink_name (sy_sessions y ! i)) (sy_trace y),
         sy_active := active_sessions sh, sy_led := sh_led sh, sy_sessions := (sy_sessions y)[i := s]\<rparr>)"
proof -
  let ?s0 = "sy_sessions y ! i"
  have ok: "session_ok cfg wire (sy_trace y) ?s0"
    using assms(1,3) by (simp add: system_inv_def list_all_length)
  show ?thesis
  proof (cases "se_pc ?s0")
    case At_Open
    then show ?thesis by (rule open_step_inv[OF assms(1-3) _ assms(4)])
  next
    case At_Take
    then show ?thesis by (rule take_step_inv[OF assms(1-3) _ assms(4)])
  next
    case At_End
    then show ?thesis by (rule end_step_inv[OF assms(1-3) _ assms(4)])
  next
    case (At_Send f)
    obtain r w where r: "send_all so f (se_sock ?s0) = Some (r, w)"
      using assms(4) At_Send by (auto simp: session_step_def split: option.splits)
    have run0: "running ?s0" using At_Send by (simp add: running_def)
    have c: "session_call sink_name ?s0 = None" using At_Send by (simp add: session_call_def)
    have s: "session_ok cfg wire (sy_trace y) s" "running s" "slot_of s = slot_of ?s0"
        "active_sessions sh = sy_active y" "active_tcp_nmea_sessions (status_led_state (sh_led sh)) =
          active_tcp_nmea_sessions (status_led_state (sy_led y))"
      using send_step_ok[OF r ok At_Send] assms(4) At_Send r
      by (auto simp: session_step_def sy_shared_def running_def slot_of_def split: option.splits)
    from quiet_step_inv[OF assms(1-3) s(1) run0 s(2,3,5)] s(4) show ?thesis by (simp add: c)
  next
    case (Returned r)
    then show ?thesis using assms(4) by (simp add: session_step_def)
  next
    case At_Drain
    have d: "drain_step so At_Take ?s0 = Some s" and sh: "sh = sy_shared y"
      using assms(4) At_Drain by (auto simp: session_step_def)
    have run0: "running ?s0" and c: "session_call sink_name ?s0 = None"
      using At_Drain by (simp_all add: running_def session_call_def)
    note s = drain_step_ok[OF d ok] 
    from quiet_step_inv[OF assms(1-3) _ run0, of s "sy_led y"] s At_Drain show ?thesis
      by (simp add: c sh sy_shared_def)
  next
    case At_Drain_Again
    have d: "drain_step so At_Drain ?s0 = Some s" and sh: "sh = sy_shared y"
      using assms(4) At_Drain_Again by (auto simp: session_step_def)
    have run0: "running ?s0" and c: "session_call sink_name ?s0 = None"
      using At_Drain_Again by (simp_all add: running_def session_call_def)
    note s = drain_step_ok[OF d ok] 
    from quiet_step_inv[OF assms(1-3) _ run0, of s "sy_led y"] s At_Drain_Again show ?thesis
      by (simp add: c sh sy_shared_def)
  qed
qed

lemma call_inv:
  assumes "system_inv cfg view cap qinv wire y" and "cfg_ok cfg" and "call_ok ev"
    and "slots_active (bridge_event cfg ops ev (sy_trace y)) = slots_active (sy_trace y)"
    and "tr_taken (bridge_event cfg ops ev (sy_trace y)) = tr_taken (sy_trace y)"
    and "tr_published (bridge_event cfg ops ev (sy_trace y)) = tr_published (sy_trace y) @ xs"
  shows "system_inv cfg view cap qinv wire (y\<lparr>sy_trace := bridge_event cfg ops ev (sy_trace y)\<rparr>)"
proof -
  have "session_ok cfg wire (bridge_event cfg ops ev (sy_trace y)) s"
    if "session_ok cfg wire (sy_trace y) s" for s
    using session_ok_frame[OF that assms(6)] assms(4,5) by simp
  then show ?thesis
    using assms event_bridge_ok event_in_order
    by (auto simp: system_inv_def owners_ok_def list_all_iff simp del: bridge_event.simps)
qed

lemma connect_inv:
  assumes "system_inv cfg view cap qinv wire y" and "wire w = []"
  shows "system_inv cfg view cap qinv wire (y\<lparr>sy_sessions := sy_sessions y @ [session_start w]\<rparr>)"
proof -
  have n: "\<not> running (session_start w)" by (simp add: running_def session_start_def)
  have r: "running_set (sy_sessions y @ [session_start w]) = running_set (sy_sessions y)"
    using n by (auto simp: running_set_def nth_append split: if_splits)
  have "bij_betw (\<lambda>j. slot_of ((sy_sessions y @ [session_start w]) ! j)) (running_set (sy_sessions y)) B =
      bij_betw (\<lambda>j. slot_of (sy_sessions y ! j)) (running_set (sy_sessions y)) B" for B
    by (rule bij_betw_cong) (auto simp: running_set_def nth_append)
  then show ?thesis
    using assms n r by (simp add: system_inv_def owners_ok_def session_ok_def session_start_def)
qed

lemma network_inv:
  assumes "system_inv cfg view cap qinv wire y" and "i < length (sy_sessions y)"
    and "wire w = wire (se_sock (sy_sessions y ! i))"
  shows "system_inv cfg view cap qinv wire
    (y\<lparr>sy_sessions := (sy_sessions y)[i := (sy_sessions y ! i)\<lparr>se_sock := w\<rparr>]\<rparr>)"
proof -
  let ?s = "(sy_sessions y ! i)\<lparr>se_sock := w\<rparr>"
  have r: "running ?s = running (sy_sessions y ! i)" "slot_of ?s = slot_of (sy_sessions y ! i)"
    by (simp_all add: running_def slot_of_def)
  have "session_ok cfg wire (sy_trace y) (sy_sessions y ! i)"
    using assms(1,2) by (simp add: system_inv_def list_all_length)
  then have "session_ok cfg wire (sy_trace y) ?s"
    using assms(3) by (cases "se_pc (sy_sessions y ! i)")
      (simp_all add: session_ok_def running_def slot_of_def sent_ok_def)
  moreover have "running_set ((sy_sessions y)[i := ?s]) = running_set (sy_sessions y)"
    using assms(2) r(1) by (auto simp: running_set_def nth_list_update)
  ultimately show ?thesis
    using assms owners_keep[of "sy_trace y" "sy_sessions y" i ?s "sy_trace y"] r
    by (auto simp: system_inv_def list_all_length nth_list_update)
qed

lemma system_step_inv:
  assumes "system_step cfg ops so wire y y'" and "system_inv cfg view cap qinv wire y" and "cfg_ok cfg"
  shows "system_inv cfg view cap qinv wire y'"
  using assms(1)
proof (cases rule: system_step.cases)
  case (publish data len)
  obtain xs where "tr_published (bridge_event cfg ops (Publish data len) (sy_trace y)) = tr_published (sy_trace y) @ xs"
    using publish_grows by blast
  from call_inv[OF assms(2,3) publish(2) _ _ this] show ?thesis
    using publish(1) by (simp del: bridge_event.simps)
next
  case dispatch
  then show ?thesis using call_inv[OF assms(2,3), of Dispatch "[]"] by (simp del: bridge_event.simps)
next
  case received
  then show ?thesis using assms(2) by (simp add: system_inv_def)
next
  case (connect w)
  then show ?thesis using connect_inv[OF assms(2)] by simp
next
  case (network i w)
  then show ?thesis using network_inv[OF assms(2)] by simp
next
  case session
  then show ?thesis using session_step_inv[OF assms(2,3)] by simp
qed

lemma start_inv:
  assumes "cfg_ok cfg" and "active_tcp_nmea_sessions (status_led_state led) = 0"
  shows "system_inv cfg view cap qinv wire (system_start cfg ops led)"
  using run_from_init[OF assms(1), of "[]"] assms(2)
  by (auto simp: system_inv_def system_start_def run_calls_def owners_ok_def running_set_def bij_betw_def
      slots_active_def traced_init_def nmea_bridge_init_def)

lemma reachable_inv:
  assumes "(system_step cfg ops so wire)\<^sup>*\<^sup>* (system_start cfg ops led) y" and "cfg_ok cfg"
    and "active_tcp_nmea_sessions (status_led_state led) = 0"
  shows "system_inv cfg view cap qinv wire y"
  using assms(1) by induction (auto intro: start_inv[OF assms(2,3)] system_step_inv[OF _ _ assms(2)])

end

section \<open>Properties\<close>

lemma subseq_butlast: "subseq xs ys \<Longrightarrow> subseq (butlast xs) ys"
  using prefix_imp_subseq[OF prefixeq_butlast] subseq_order.trans by blast

lemma filter_full: "length (filter P xs) = length xs \<longleftrightarrow> list_all P xs"
  by (induction xs) (use length_filter_le[of P] Suc_n_not_le_n in \<open>auto, metis\<close>)

lemma in_order_taken:
  assumes "in_order view t" and "k < length (slots_active t)" and "slots_active t ! k"
  shows "subseq (tr_taken t ! k) (tr_published t)"
proof -
  have "subseq (tr_taken t ! k @ view (slot_msgq (sinks (tr_bridge t) ! k)) @ view (ingest_msgq (tr_bridge t)))
      (tr_published t)"
    using assms by (auto simp: in_order_def Let_def slots_active_def)
  then show ?thesis by (metis append_Nil2 list_emb_append_mono list_emb_Nil subseq_order.refl subseq_order.trans)
qed

lemma active_slots_card:
  assumes "owners_ok t ss"
  shows "length (filter slot_active (sinks (tr_bridge t))) = card (running_set ss)"
proof -
  have "length (filter slot_active (sinks (tr_bridge t))) = card {k. k < length (slots_active t) \<and> slots_active t ! k}"
    by (auto simp: slots_active_def length_filter_conv_card intro: arg_cong[where f = card])
  then show ?thesis using assms by (simp add: owners_ok_def bij_betw_same_card)
qed

text \<open>C1. End to end, under every interleaving of producers, dispatcher, network and any number of
  sessions: what a peer has received are whole accepted frames, in the order in which they were
  accepted, none twice and each unaltered. Only a failed send leaves the last of them cut
  short, and that is the last thing the session sends.\<close>

theorem peer_receives_whole_frames:
  assumes "session_system ops view cap qinv so wire" and "cfg_ok cfg"
    and "active_tcp_nmea_sessions (status_led_state led) = 0"
    and "(system_step cfg ops so wire)\<^sup>*\<^sup>* (system_start cfg ops led) y"
    and "s \<in> set (sy_sessions y)"
  shows "\<exists>fs. subseq fs (tr_published (sy_trace y)) \<and>
    (wire (se_sock s) = whole fs \<or>
     cut_short fs (wire (se_sock s)) \<and>
       (se_pc s = Returned TCP_NMEA_SESSION_ENDED_SEND_FAILED \<or>
        se_pc s = At_End \<and> se_result s = TCP_NMEA_SESSION_ENDED_SEND_FAILED))"
proof -
  let ?t = "sy_trace y"
  have inv: "system_inv cfg view cap qinv wire y"
    by (rule session_system.reachable_inv[OF assms(1,4,2,3)])
  then have ok: "session_ok cfg wire ?t s" using assms(5) by (simp add: system_inv_def list_all_iff)
  show ?thesis
  proof (cases "running s")
    case True
    have "subseq (tr_taken ?t ! slot_of s) (tr_published ?t)"
      using inv True ok in_order_taken by (auto simp: system_inv_def session_ok_def)
    moreover from this have "subseq (butlast (tr_taken ?t ! slot_of s)) (tr_published ?t)"
      using subseq_butlast by blast
    ultimately show ?thesis
      using ok True by (auto simp: session_ok_def sent_ok_def sent_by_end_def split: session_pc.splits if_splits)
  next
    case False
    then show ?thesis
      using ok by (auto simp: session_ok_def running_def sent_by_end_def whole_def
          split: session_pc.splits if_splits intro: exI[of _ "[]"])
  qed
qed


section \<open>A schedule\<close>

text \<open>A schedule of moves, each of which is a step of the system or, when it is not possible, nothing.\<close>

datatype 'w move = Do_Publish "byte list option" nat | Do_Dispatch | Do_Connect 'w | Do_Session nat

fun system_move ::
  "nmea_cfg \<Rightarrow> ('q, nmea_frame) msgq_ops \<Rightarrow> 'w sock_ops \<Rightarrow> ('w \<Rightarrow> byte list) \<Rightarrow> 'w move \<Rightarrow>
    ('q, 'w) nmea_system \<Rightarrow> ('q, 'w) nmea_system"
where
  "system_move cfg ops so wire (Do_Publish data len) y =
     (if call_ok (Publish data len) then y\<lparr>sy_trace := bridge_event cfg ops (Publish data len) (sy_trace y)\<rparr> else y)"
| "system_move cfg ops so wire Do_Dispatch y = y\<lparr>sy_trace := bridge_event cfg ops Dispatch (sy_trace y)\<rparr>"
| "system_move cfg ops so wire (Do_Connect w) y =
     (if wire w = [] then y\<lparr>sy_sessions := sy_sessions y @ [session_start w]\<rparr> else y)"
| "system_move cfg ops so wire (Do_Session i) y =
     (if i < length (sy_sessions y) then
        (case session_step ops so None 0 (sy_sessions y ! i) (sy_shared y) of
           None \<Rightarrow> y
         | Some (s, sh) \<Rightarrow>
             y\<lparr>sy_trace := traced_call cfg ops (session_call None (sy_sessions y ! i)) (sy_trace y),
               sy_active := active_sessions sh, sy_led := sh_led sh, sy_sessions := (sy_sessions y)[i := s]\<rparr>)
      else y)"

lemma system_move_step:
  "(system_step cfg ops so wire)\<^sup>*\<^sup>* y (system_move cfg ops so wire m y)"
proof (cases m)
  case (Do_Session i)
  then show ?thesis by (auto intro!: r_into_rtranclp system_step.session split: option.splits simp del: bridge_event.simps)
qed (auto intro!: r_into_rtranclp system_step.publish system_step.dispatch system_step.connect
    simp del: bridge_event.simps)

definition run_moves ::
  "nmea_cfg \<Rightarrow> ('q, nmea_frame) msgq_ops \<Rightarrow> 'w sock_ops \<Rightarrow> ('w \<Rightarrow> byte list) \<Rightarrow> 'w move list \<Rightarrow>
    ('q, 'w) nmea_system \<Rightarrow> ('q, 'w) nmea_system"
where
  "run_moves cfg ops so wire ms y = foldl (\<lambda>y m. system_move cfg ops so wire m y) y ms"

lemma run_moves_reachable: "(system_step cfg ops so wire)\<^sup>*\<^sup>* y (run_moves cfg ops so wire ms y)"
proof (induction ms arbitrary: y)
  case (Cons m ms)
  show ?case using rtranclp_trans[OF system_move_step Cons.IH] by (simp add: run_moves_def)
qed (simp add: run_moves_def)

interpretation demo: session_system ring_ops ring_view ring_max ring_inv script_ops sc_wire
  by (intro session_system.intro frq.frame_msgq_axioms scripted.tcp_socket_axioms)

lemma demo_led_idle: "active_tcp_nmea_sessions (status_led_state demo_led) = 0"
  by (simp add: demo_led_def led_off_def)

lemma small_cfg_ok: "cfg_ok small_cfg"
  by (simp add: small_cfg_def cfg_ok_def)

text \<open>One slow peer connects and gets one frame.\<close>

definition one_frame_run :: "(nmea_frame ring, script) nmea_system" where
  "one_frame_run = run_moves small_cfg ring_ops script_ops sc_wire
     [Do_Connect slow_peer, Do_Session 0, Do_Publish (Some [36, 65, 66, 13, 10]) 5, Do_Dispatch,
      Do_Session 0, Do_Session 0, Do_Session 0] (system_start small_cfg ring_ops demo_led)"

lemmas system_eval = bridge_eval run_moves_def system_start_def sy_shared_def session_start_def session_step_def
  session_call_def traced_call_def drain_step_def drain_socket_rx.simps send_all_def send_all_from.simps
  script_send_def script_recv_def

lemma one_frame_run:
  "map (\<lambda>s. (se_pc s, sc_wire (se_sock s))) (sy_sessions one_frame_run) = [(At_Drain_Again, fdata five)]"
  "tr_published (sy_trace one_frame_run) = [five]"
  unfolding one_frame_run_def slow_peer_def five_def by (simp_all add: system_eval)


theorem peer_receives_whole_frames_witness:
  "\<exists>s. s \<in> set (sy_sessions one_frame_run) \<and> sc_wire (se_sock s) = [36, 65, 66, 13, 10] \<and>
     (\<exists>fs. subseq fs [five] \<and> sc_wire (se_sock s) = whole fs)"
proof -
  obtain s where s: "s \<in> set (sy_sessions one_frame_run)" "se_pc s = At_Drain_Again" "sc_wire (se_sock s) = fdata five"
    using one_frame_run(1) by fastforce
  have r: "(system_step small_cfg ring_ops script_ops sc_wire)\<^sup>*\<^sup>* (system_start small_cfg ring_ops demo_led) one_frame_run"
    unfolding one_frame_run_def by (rule run_moves_reachable)
  have "\<exists>fs. subseq fs [five] \<and> sc_wire (se_sock s) = whole fs"
    using peer_receives_whole_frames[OF demo.session_system_axioms small_cfg_ok demo_led_idle r s(1)] s(2)
    by (simp add: one_frame_run(2))
  moreover have "sc_wire (se_sock s) = [36, 65, 66, 13, 10]" using s(3) by (simp add: five_def)
  ultimately show ?thesis using s(1) by blast
qed

text \<open>Three peers and two sinks: the third session is refused.\<close>

definition full_house :: "(nmea_frame ring, script) nmea_system" where
  "full_house = run_moves small_cfg ring_ops script_ops sc_wire
     [Do_Connect slow_peer, Do_Connect slow_peer, Do_Connect slow_peer, Do_Session 0, Do_Session 1]
     (system_start small_cfg ring_ops demo_led)"

lemma full_house:
  "map se_pc (sy_sessions full_house) = [At_Drain, At_Drain, At_Open]"
  "sy_sessions full_house ! 2 = session_start slow_peer" "length (sy_sessions full_house) = 3"
  "sy_active full_house = 2"
  unfolding full_house_def slow_peer_def by (simp_all add: system_eval)


end
