(* ===== verification/Spec2Isabelle.thy ===== *)
theory Spec2Isabelle
  imports Bridge_Main Nmea_Bridge_Interleaving Tcp_Nmea_System
begin

text \<open>
  ESP NMEA Bridge: a verification development.

  The firmware turns an ESP32-C6 into a gateway from a serial NMEA-0183 source to TCP peers. A receiver thread cuts the
  bytes of the UART into lines, filters the AIS messages of the own vessel and publishes the rest; a dispatcher copies every
  frame to the sinks of the TCP sessions; sessions belong to the peers of a server and to one outgoing client. A web server
  shows the status, changes the configuration and takes firmware uploads; a Wi-Fi manager keeps the network up; a status
  LED shows what goes on. The development translates the C code under \<open>src/src\<close> and proves what makes it correct.

  Conventions. A C object that is read through a pointer is a list of bytes, read and written with checks, and a
  result \<open>None\<close> of a translated function says that it left an object or that a loop never ends; the properties show
  that this does not happen. Machine integers are words of their width and wrap around. Return values are integers, the
  negated errno values of C. Code that is not in the repository (the kernel's queues, sockets, the settings store, the
  flash and the boot loader, the network stack, the JSON parser, the LED strip) is a record of operations and, where
  something is relied on, a locale with its documented behaviour, which is interpreted on a concrete implementation in the
  theory that states it, or, over the definitions of the model, in the theory of the component that uses it.

  Theories and what they model.

    \<open>Bridge_Prelude\<close>, \<open>C_Format\<close>: checked memory, C strings, errno values; \<open>snprintk\<close>.
    \<open>Ais_Mmsi_Filter\<close>, \<open>Ais_Mmsi_Properties\<close>: \<open>ais_mmsi_filter.c\<close>, with a decision over lists that it refines.
    \<open>Kernel_Msgq\<close>: the message queue of the kernel as a locale, and a ring buffer.
    \<open>Nmea_Bridge\<close>, \<open>Nmea_Bridge_Properties\<close>, \<open>Nmea_Bridge_Interleaving\<close>: \<open>nmea_bridge.c\<close>; runs of calls, and
      the queue accesses outside the mutex as a step relation.
    \<open>Uart_Nmea\<close>: \<open>uart_nmea.c\<close>, the receiver over the filter and the bridge.
    \<open>Status_Led_Policy\<close>, \<open>Status_Led\<close>: \<open>status_led_policy.c\<close> and \<open>status_led.c\<close>.
    \<open>Config_Text\<close>, \<open>Config_Records\<close>, \<open>Bridge_Config\<close>, \<open>Bridge_Config_Properties\<close>: the validators of
      \<open>bridge_config.h\<close>; the stored records, the setters, the loading at boot and the factory reset of \<open>bridge_config.c\<close>.
    \<open>Tcp_Nmea_Session\<close>, \<open>Tcp_Nmea_System\<close>: \<open>tcp_nmea_session.c\<close>; all sessions with the bridge as one system.
    \<open>Tcp_Nmea_Server\<close>: \<open>tcp_nmea_server.c\<close>, the accept loop and the threads of the peers as a step relation.
    \<open>Tcp_Nmea_Client\<close>: \<open>tcp_nmea_client.c\<close>, the thread and the live change of its settings as a step relation.
    \<open>Bridge_Telemetry\<close>: \<open>bridge_telemetry.c\<close>.
    \<open>Ota_Update\<close>: \<open>ota_update.c\<close> over the flash and the boot loader.
    \<open>Web_Http\<close>, \<open>Web_Response\<close>, \<open>Web_Config\<close>, \<open>Web_Ota\<close>, \<open>Web_App\<close>: \<open>web_app.c\<close>: receiving and parsing a
      request, the responses, the configuration and the upload endpoint, and the routes, the status document and the thread.
    \<open>Wifi_Manager\<close>: \<open>wifi_manager.c\<close>; the events and the retry thread as a step relation.
    \<open>Bridge_Main\<close>: \<open>main.c\<close>, the start-up and the listener, and the running device.

  How the parts interact. \<open>Uart_Nmea\<close> calls the filter and \<open>nmea_bridge_publish_frame\<close>; \<open>Tcp_Nmea_System\<close> interleaves
  the publishers, the dispatcher and any number of sessions; the server and the client start a session for a connection, as
  a step of their threads. \<open>Web_App\<close> calls the setters of the configuration, the OTA module and the telemetry, whose
  sources are the counters of the others. In \<open>Bridge_Main\<close> a setter that changes a live value calls the listener, which
  reconfigures the receiver and notifies the client; the Wi-Fi manager and the host name take their settings at boot.

  What the groups of lemmas show.

    Frames: framing of the byte stream and the filter stay in bounds and decide as specified; queues drop only their oldest
    frames; what a peer receives are whole accepted frames in order, under every interleaving.
    Configuration: packing round trips, the validators accept exactly their languages, any sequence of calls leaves valid
    settings that the next boot restores; the factory reset ends and restores the defaults; settings in force are in
    use or flagged.
    Web: however a request arrives it is parsed as sent and answered with the one response of its route; an
    update of the configuration or of the firmware is accepted completely or changes nothing that counts; every round of
    the thread ends.
    Threads: the server loses and confuses no connection, the client shuts down only its own socket and notices every
    change of its settings, the station keeps retrying.
    What the code does and its texts do not say: lines lost after an overlong one, a foreign fragment that a
    stale sequence drops, an error colour that comes back, a drop counter that counts too much, a slot given away while its
    thread runs, a station that stalls after an early result, an upload state that is lost when it is read.

  Loops. A loop over data in memory is structural recursion or a function with a measure. A loop that may run for ever (the
  factory reset, sending, draining, receiving) is a \<open>partial_function\<close>, and a property shows when it ends: for stores that
  keep their contract, and for connections that make progress, which a bound on interruptions and on refused
  sends expresses. Threads are steps, so no fuel is needed. A run of the client is a list of its steps.

  Bounds. Buffer sizes, queue depths and numbers of sinks and slots that come from Kconfig are arguments of
  the model, with the condition that they are positive; sizes that the sources fix are definitions of the same name. The
  generation counter of the client wraps around after \<open>2 ^ 32\<close> changes, and its property says so.

  Not modelled. Logging, and \<open>stats_thread\<close>, which only logs. \<open>nmea_dns_sd.c\<close>, one static service record. The
  shutdown handlers of the Wi-Fi manager and the recovery of the LED's bus, which only access the hardware. Hooks for
  the tests under \<open>CONFIG_ZTEST\<close>. Priorities and the scheduler: an interleaving may be any. Memory models: the accesses
  that the code makes without a lock are single steps in some order. The sleeps of the threads take no time in the
  model; the clock is an argument where the code reads it.
\<close>

end
